(* ===== verification/Prelude.thy ===== *)
theory Prelude
  imports Main "HOL-Library.Word"
begin

text \<open>
  Shared vocabulary of the development: the machine integer types of the Rust sources, the
  result type of fallible functions, the casts and saturating or checked operations of the
  standard library the sources use, and the generic lemmas on words (carries, borrows,
  signed readings, prefixes) that the component theories rest on.

  A Rust \<open>u64\<close> and a Rust \<open>i64\<close> are both \<open>64 word\<close>: a cast between them is the identity on
  the bits, a signed comparison reads its operands with \<open>sint\<close>. The same holds for the other
  widths.
\<close>

unbundle bit_operations_syntax

section \<open>Types\<close>

type_synonym u8 = "8 word"
type_synonym u16 = "16 word"
type_synonym i16 = "16 word"
type_synonym u32 = "32 word"
type_synonym i32 = "32 word"
type_synonym u64 = "64 word"
type_synonym i64 = "64 word"

type_synonym ('e, 'a) res = "'e + 'a"

abbreviation Err :: "'e \<Rightarrow> ('e, 'a) res" where
  "Err \<equiv> Inl"

abbreviation Ok :: "'a \<Rightarrow> ('e, 'a) res" where
  "Ok \<equiv> Inr"

definition rbind :: "('e, 'a) res \<Rightarrow> ('a \<Rightarrow> ('e, 'b) res) \<Rightarrow> ('e, 'b) res" where
  "rbind m f = (case m of Inl e \<Rightarrow> Inl e | Inr x \<Rightarrow> f x)"

lemma rbind_simps [simp]: "rbind (Err e) f = Err e" "rbind (Ok x) f = f x"
  by (simp_all add: rbind_def)

lemma rbind_Ok_iff: "rbind m f = Ok y \<longleftrightarrow> (\<exists>x. m = Ok x \<and> f x = Ok y)"
  by (cases m) simp_all

lemma rbind_Err_iff: "rbind m f = Err e \<longleftrightarrow> m = Err e \<or> (\<exists>x. m = Ok x \<and> f x = Err e)"
  by (cases m) auto

text \<open>The index of the first element with a property (\<open>Iterator::position\<close>).\<close>

fun position :: "('a \<Rightarrow> bool) \<Rightarrow> 'a list \<Rightarrow> nat option" where
  "position P [] = None"
| "position P (x # xs) = (if P x then Some 0 else map_option Suc (position P xs))"

lemma position_None_iff: "position P xs = None \<longleftrightarrow> (\<forall>x \<in> set xs. \<not> P x)"
  by (induction xs) auto

lemma position_SomeD: "position P xs = Some n \<Longrightarrow> n < length xs \<and> P (xs ! n)"
  by (induction xs arbitrary: n) (auto split: if_splits)

abbreviation max_word_w :: "'a::len word" where
  "max_word_w \<equiv> - 1"

definition i64_MIN :: i64 where
  "i64_MIN = push_bit 63 1"

definition i64_MAX :: i64 where
  "i64_MAX = mask 63"

definition i32_MIN :: i32 where
  "i32_MIN = push_bit 31 1"

definition i32_MAX :: i32 where
  "i32_MAX = mask 31"

named_theorems bounds_sound \<open>soundness of an abstract operation with respect to membership\<close>
named_theorems wf_intros \<open>preservation of well-formedness by an operation\<close>

section \<open>Signed readings\<close>

lemma sint_i64_MIN [simp]: "sint i64_MIN = - (2 ^ 63)"
  by (simp add: i64_MIN_def)

lemma sint_i64_MAX [simp]: "sint i64_MAX = 2 ^ 63 - 1"
  by (simp add: i64_MAX_def mask_eq_exp_minus_1)

lemma sint_i32_MIN [simp]: "sint i32_MIN = - (2 ^ 31)"
  by (simp add: i32_MIN_def)

lemma sint_i32_MAX [simp]: "sint i32_MAX = 2 ^ 31 - 1"
  by (simp add: i32_MAX_def mask_eq_exp_minus_1)

section \<open>Carries and borrows\<close>

definition carry_at :: "nat \<Rightarrow> 'a::len word \<Rightarrow> 'a word \<Rightarrow> bool" where
  "carry_at i x y \<longleftrightarrow> 2 ^ i \<le> unat x mod 2 ^ i + unat y mod 2 ^ i"

definition borrow_at :: "nat \<Rightarrow> 'a::len word \<Rightarrow> 'a word \<Rightarrow> bool" where
  "borrow_at i x y \<longleftrightarrow> unat x mod 2 ^ i < unat y mod 2 ^ i"

lemma div_add_carry:
  fixes a b :: nat
  shows "(a + b) div 2 ^ i = a div 2 ^ i + b div 2 ^ i + of_bool (2 ^ i \<le> a mod 2 ^ i + b mod 2 ^ i)"
proof -
  have lt: "a mod 2 ^ i < 2 ^ i" "b mod 2 ^ i < 2 ^ i" by simp_all
  have "(a + b) div 2 ^ i = a div 2 ^ i + b div 2 ^ i + (a mod 2 ^ i + b mod 2 ^ i) div 2 ^ i"
    by (rule div_add1_eq)
  moreover have "(a mod 2 ^ i + b mod 2 ^ i) div 2 ^ i = of_bool (2 ^ i \<le> a mod 2 ^ i + b mod 2 ^ i)"
  proof (cases "2 ^ i \<le> a mod 2 ^ i + b mod 2 ^ i")
    case True
    then have "(a mod 2 ^ i + b mod 2 ^ i) div 2 ^ i = Suc ((a mod 2 ^ i + b mod 2 ^ i - 2 ^ i) div 2 ^ i)"
      by (rule le_div_geq [rotated]) simp
    moreover have "a mod 2 ^ i + b mod 2 ^ i - 2 ^ i < 2 ^ i" using lt by linarith
    ultimately show ?thesis using True by simp
  qed simp
  ultimately show ?thesis by simp
qed

lemma bit_add_nat:
  fixes a b :: nat
  shows "bit (a + b) i \<longleftrightarrow> ((bit a i \<noteq> bit b i) \<noteq> (2 ^ i \<le> a mod 2 ^ i + b mod 2 ^ i))"
  by (auto simp add: bit_iff_odd div_add_carry)

lemma bit_unat: "bit (unat x) i = bit x i" for x :: "'a::len word"
  by (simp add: bit_unsigned_iff)

lemma bit_add_word:
  fixes x y :: "'a::len word"
  assumes "i < LENGTH('a)"
  shows "bit (x + y) i \<longleftrightarrow> ((bit x i \<noteq> bit y i) \<noteq> carry_at i x y)"
proof -
  have "bit (x + y) i \<longleftrightarrow> bit (take_bit LENGTH('a) (unat x + unat y)) i"
    by (simp add: unat_word_ariths take_bit_eq_mod flip: bit_unat)
  then show ?thesis
    using assms by (simp add: bit_take_bit_iff bit_add_nat carry_at_def bit_unat)
qed

lemma bit_sub_word:
  fixes x y :: "'a::len word"
  assumes "i < LENGTH('a)"
  shows "bit (x - y) i \<longleftrightarrow> ((bit x i \<noteq> bit y i) \<noteq> borrow_at i x y)"
proof -
  define d where "d = x - y"
  have x: "x = d + y" by (simp add: d_def)
  have bx: "bit x i \<longleftrightarrow> ((bit d i \<noteq> bit y i) \<noteq> carry_at i d y)"
    unfolding x by (rule bit_add_word [OF assms])
  have le: "2 ^ i \<le> (2::nat) ^ LENGTH('a)" using assms by simp
  have dvd: "(2::nat) ^ i dvd 2 ^ LENGTH('a)" using assms by (simp add: le_imp_power_dvd)
  have "unat x mod 2 ^ i = (unat d + unat y) mod 2 ^ i"
    unfolding x by (simp add: unat_word_ariths mod_mod_cancel [OF dvd])
  also have "\<dots> = (unat d mod 2 ^ i + unat y mod 2 ^ i) mod 2 ^ i"
    by (simp add: mod_simps)
  finally have m: "unat x mod 2 ^ i = (unat d mod 2 ^ i + unat y mod 2 ^ i) mod 2 ^ i" .
  have "carry_at i d y \<longleftrightarrow> borrow_at i x y"
  proof (cases "carry_at i d y")
    case True
    have lt: "unat d mod 2 ^ i < 2 ^ i" "unat y mod 2 ^ i < 2 ^ i" by simp_all
    from True have ge: "2 ^ i \<le> unat d mod 2 ^ i + unat y mod 2 ^ i" by (simp add: carry_at_def)
    have lt3: "unat d mod 2 ^ i + unat y mod 2 ^ i - 2 ^ i < 2 ^ i" using lt by linarith
    have "(unat d mod 2 ^ i + unat y mod 2 ^ i) mod 2 ^ i = unat d mod 2 ^ i + unat y mod 2 ^ i - 2 ^ i"
      using ge lt3 by (simp add: le_mod_geq)
    then have "unat x mod 2 ^ i < unat y mod 2 ^ i" using m lt ge by linarith
    then show ?thesis using True by (simp add: borrow_at_def)
  next
    case False
    then show ?thesis using m by (simp add: carry_at_def borrow_at_def)
  qed
  with bx show ?thesis unfolding d_def by blast
qed

lemma take_bit_subset_le:
  fixes x y :: "'a::len word"
  assumes "\<And>j. bit x j \<Longrightarrow> bit y j"
  shows "unat x mod 2 ^ i \<le> unat y mod 2 ^ i"
proof -
  have "take_bit i x = take_bit i x AND take_bit i y"
    by (rule bit_word_eqI) (auto simp: bit_simps assms)
  then have "take_bit i x \<le> take_bit i y"
    by (metis word_and_le1)
  then have "unat (take_bit i x) \<le> unat (take_bit i y)"
    by (simp add: word_le_nat_alt)
  then show ?thesis by (simp add: unsigned_take_bit_eq flip: take_bit_eq_mod)
qed

lemma carry_at_mono:
  fixes x y x' y' :: "'a::len word"
  assumes "\<And>j. bit x j \<Longrightarrow> bit x' j" and "\<And>j. bit y j \<Longrightarrow> bit y' j"
  shows "carry_at i x y \<Longrightarrow> carry_at i x' y'"
proof -
  have "unat x mod 2 ^ i \<le> unat x' mod 2 ^ i" by (rule take_bit_subset_le) (rule assms(1))
  moreover have "unat y mod 2 ^ i \<le> unat y' mod 2 ^ i" by (rule take_bit_subset_le) (rule assms(2))
  moreover assume "carry_at i x y"
  ultimately show "carry_at i x' y'" by (simp add: carry_at_def)
qed

lemma borrow_at_mono:
  fixes x y x' y' :: "'a::len word"
  assumes "\<And>j. bit x' j \<Longrightarrow> bit x j" and "\<And>j. bit y j \<Longrightarrow> bit y' j"
  shows "borrow_at i x y \<Longrightarrow> borrow_at i x' y'"
proof -
  have "unat x' mod 2 ^ i \<le> unat x mod 2 ^ i" by (rule take_bit_subset_le) (rule assms(1))
  moreover have "unat y mod 2 ^ i \<le> unat y' mod 2 ^ i" by (rule take_bit_subset_le) (rule assms(2))
  moreover assume "borrow_at i x y"
  ultimately show "borrow_at i x' y'" by (simp add: borrow_at_def)
qed


section \<open>Common prefixes\<close>

lemma unat_drop_bit: "unat (drop_bit n w) = unat w div 2 ^ n" for w :: "'a::len word"
  by (simp add: unsigned_drop_bit_eq drop_bit_eq_div [where 'a = nat] take_bit_nat_eq_self)

lemma drop_bit_between:
  fixes lo hi x :: "'a::len word"
  assumes "lo \<le> x" "x \<le> hi" "drop_bit n lo = drop_bit n hi"
  shows "drop_bit n x = drop_bit n lo"
proof -
  have "unat lo div 2 ^ n \<le> unat x div 2 ^ n" "unat x div 2 ^ n \<le> unat hi div 2 ^ n"
    using assms(1,2) by (simp_all add: div_le_mono word_le_nat_alt)
  then have "unat (drop_bit n x) = unat (drop_bit n lo)"
    using arg_cong [OF assms(3), of unat] by (simp only: unat_drop_bit)
  then show ?thesis by (simp only: word_unat_eq_iff)
qed

section \<open>Signed and unsigned orders\<close>

definition s_min :: "'a::len word \<Rightarrow> 'a word \<Rightarrow> 'a word" where
  "s_min a b = (if a \<le>s b then a else b)"

definition s_max :: "'a::len word \<Rightarrow> 'a word \<Rightarrow> 'a word" where
  "s_max a b = (if a \<le>s b then b else a)"

lemma centred_mod:
  fixes u m :: int
  assumes "0 \<le> u" "u < 2 * m"
  shows "(u + m) mod (2 * m) - m = (if u < m then u else u - 2 * m)"
proof (cases "u < m")
  case False
  have "(u + m) mod (2 * m) = (u - m + 2 * m) mod (2 * m)" by (rule arg_cong2 [where f = modulo]) simp_all
  also have "\<dots> = (u - m) mod (2 * m)" by (rule mod_add_self2)
  also have "\<dots> = u - m" using False assms by (intro mod_pos_pos_trivial) simp_all
  finally show ?thesis using False by simp
qed (use assms in simp)

lemma div_mod_between:
  fixes lo hi x m :: int
  assumes "lo \<le> x" "x \<le> hi" "0 < m" "lo div m = hi div m"
  shows "lo mod m \<le> x mod m" "x mod m \<le> hi mod m"
proof -
  have "lo div m \<le> x div m" "x div m \<le> hi div m"
    using assms(1-3) by (simp_all add: zdiv_mono1)
  then have "lo div m = x div m" "x div m = hi div m" using assms(4) by simp_all
  then show "lo mod m \<le> x mod m" "x mod m \<le> hi mod m"
    using assms(1,2) by (simp_all flip: minus_mult_div_eq_mod)
qed

lemma sint64_uint: "sint w = (if uint w < 2 ^ 63 then uint w else uint w - 2 ^ 64)" for w :: "64 word"
proof -
  have "sint w = signed_take_bit 63 (uint w)" by (simp add: sint_uint)
  also have "\<dots> = (uint w + 2 ^ 63) mod 2 ^ 64 - 2 ^ 63"
    by (simp add: signed_take_bit_eq_take_bit_shift take_bit_eq_mod)
  finally have "sint w = (uint w + 2 ^ 63) mod 2 ^ 64 - 2 ^ 63" .
  moreover have "0 \<le> uint w" "uint w < 2 ^ 64" using uint_lt2p [of w] by simp_all
  ultimately show ?thesis using centred_mod [of "uint w" "2 ^ 63"] by simp
qed

lemma sint32_uint: "sint w = (if uint w < 2 ^ 31 then uint w else uint w - 2 ^ 32)" for w :: "32 word"
proof -
  have "sint w = signed_take_bit 31 (uint w)" by (simp add: sint_uint)
  also have "\<dots> = (uint w + 2 ^ 31) mod 2 ^ 32 - 2 ^ 31"
    by (simp add: signed_take_bit_eq_take_bit_shift take_bit_eq_mod)
  finally have "sint w = (uint w + 2 ^ 31) mod 2 ^ 32 - 2 ^ 31" .
  moreover have "0 \<le> uint w" "uint w < 2 ^ 32" using uint_lt2p [of w] by simp_all
  ultimately show ?thesis using centred_mod [of "uint w" "2 ^ 31"] by simp
qed

lemma uint64_bounds: "0 \<le> uint w" "uint w < 2 ^ 64" for w :: "64 word"
  using uint_lt2p [of w] by simp_all

lemma uint32_bounds: "0 \<le> uint w" "uint w < 2 ^ 32" for w :: "32 word"
  using uint_lt2p [of w] by simp_all

lemma sint64_bounds: "- (2 ^ 63) \<le> sint w" "sint w < 2 ^ 63" for w :: "64 word"
  using sint_ge [of w] sint_lt [of w] by simp_all

lemma sint32_bounds: "- (2 ^ 31) \<le> sint w" "sint w < 2 ^ 31" for w :: "32 word"
  using sint_ge [of w] sint_lt [of w] by simp_all

lemma sint64_cases:
  "0 \<le> uint w \<and> uint w < 2 ^ 63 \<and> sint w = uint w \<or>
   2 ^ 63 \<le> uint w \<and> uint w < 2 ^ 64 \<and> sint w = uint w - 2 ^ 64" for w :: "64 word"
  using uint64_bounds [of w] by (auto simp: sint64_uint)

lemma sint32_cases:
  "0 \<le> uint w \<and> uint w < 2 ^ 31 \<and> sint w = uint w \<or>
   2 ^ 31 \<le> uint w \<and> uint w < 2 ^ 32 \<and> sint w = uint w - 2 ^ 32" for w :: "32 word"
  using uint32_bounds [of w] by (auto simp: sint32_uint)

text \<open>Where a range does not cross the sign change, the two orders agree on it.\<close>

lemma signed_between64:
  fixes lo hi x :: "64 word"
  assumes "0 \<le> sint lo \<or> sint hi < 0"
  shows "sint lo \<le> sint x \<and> sint x \<le> sint hi \<longleftrightarrow> lo \<le> x \<and> x \<le> hi \<and> sint lo \<le> sint hi"
  using assms sint64_cases [of lo] sint64_cases [of hi] sint64_cases [of x]
  unfolding word_le_def by (elim disjE conjE) linarith+

lemma unsigned_between64:
  fixes lo hi x :: "64 word"
  assumes "uint hi < 2 ^ 63 \<or> 2 ^ 63 \<le> uint lo"
  shows "lo \<le> x \<and> x \<le> hi \<longleftrightarrow> sint lo \<le> sint x \<and> sint x \<le> sint hi \<and> lo \<le> hi"
  using assms sint64_cases [of lo] sint64_cases [of hi] sint64_cases [of x]
  unfolding word_le_def by (elim disjE conjE) linarith+

lemma unsigned_between32:
  fixes lo hi x :: "32 word"
  assumes "lo \<le> x" "x \<le> hi" "sint lo \<le> sint hi"
  shows "sint lo \<le> sint x" "sint x \<le> sint hi"
  using assms sint32_cases [of lo] sint32_cases [of hi] sint32_cases [of x]
  unfolding word_le_def by (elim disjE conjE; linarith)+

lemma sint_s_min [simp]: "sint (s_min a b) = min (sint a) (sint b)"
  by (simp add: s_min_def word_sle_eq min_def)

lemma sint_s_max [simp]: "sint (s_max a b) = max (sint a) (sint b)"
  by (simp add: s_max_def word_sle_eq max_def)

lemma uint_min: "uint (min a b) = min (uint a) (uint b)" for a b :: "'a::len word"
  by (simp add: min_def word_le_def)

lemma uint_max: "uint (max a b) = max (uint a) (uint b)" for a b :: "'a::len word"
  by (simp add: max_def word_le_def)

lemma low32_uint: "uint (ucast w :: 32 word) = uint w mod 2 ^ 32" for w :: "64 word"
  by (simp add: unsigned_ucast_eq take_bit_eq_mod)

lemma high32_uint: "uint (drop_bit 32 w) = uint w div 2 ^ 32" for w :: "64 word"
  by (simp add: unsigned_drop_bit_eq drop_bit_eq_div [where 'a = int] take_bit_int_eq_self
      uint64_bounds [simplified])

text \<open>
  The arithmetic reading of the comparisons: \<open>auto\<close> or \<open>linarith\<close> decides a goal on ranges once
  its atoms are \<open>uint\<close> and \<open>sint\<close> of words.
\<close>

lemmas order_uint = word_le_def word_less_def word_sle_eq word_sless_alt

text \<open>
  Two bounds with the same upper half are the ends of a window of 32 bits: a value between
  them has the same upper half, and its lower half lies between theirs.
\<close>

lemma window32:
  fixes lo hi x :: "64 word"
  assumes "lo \<le> x" "x \<le> hi" "drop_bit 32 lo = drop_bit 32 hi"
  shows "(ucast lo :: 32 word) \<le> ucast x" "(ucast x :: 32 word) \<le> ucast hi"
proof -
  have "uint lo div 2 ^ 32 = uint hi div 2 ^ 32"
    using arg_cong [OF assms(3), of uint] by (simp only: high32_uint)
  then have "uint lo mod 2 ^ 32 \<le> uint x mod 2 ^ 32 \<and> uint x mod 2 ^ 32 \<le> uint hi mod 2 ^ 32"
    using assms(1,2) div_mod_between [of "uint lo" "uint x" "uint hi" "2 ^ 32"]
    unfolding word_le_def by simp
  then show "(ucast lo :: 32 word) \<le> ucast x" "(ucast x :: 32 word) \<le> ucast hi"
    by (simp_all only: word_le_def low32_uint)
qed

lemma window32_signed:
  fixes lo hi x :: "64 word"
  assumes "sint lo \<le> sint x" "sint x \<le> sint hi" "drop_bit 32 lo = drop_bit 32 hi"
    and "sint (ucast lo :: 32 word) \<le> sint (ucast hi :: 32 word)"
  shows "sint (ucast lo :: 32 word) \<le> sint (ucast x :: 32 word)"
    "sint (ucast x :: 32 word) \<le> sint (ucast hi :: 32 word)"
proof -
  have eq: "uint lo div 2 ^ 32 = uint hi div 2 ^ 32"
    using arg_cong [OF assms(3), of uint] by (simp only: high32_uint)
  moreover have "uint w < 2 ^ 63 \<longleftrightarrow> uint w div 2 ^ 32 < 2 ^ 31" for w :: "64 word"
    using zdiv_mono1 [of "2 ^ 63" "uint w" "2 ^ 32"] zdiv_mono1 [of "uint w" "2 ^ 63 - 1" "2 ^ 32"]
    by (cases "uint w < 2 ^ 63") simp_all
  ultimately have "0 \<le> sint lo \<or> sint hi < 0"
    using sint64_cases [of lo] sint64_cases [of hi] by auto
  then have "lo \<le> x" "x \<le> hi"
    using assms(1,2) signed_between64 [of lo hi x] by blast+
  note low = window32 [OF this assms(3)]
  show "sint (ucast lo :: 32 word) \<le> sint (ucast x :: 32 word)"
    by (rule unsigned_between32(1) [OF low assms(4)])
  show "sint (ucast x :: 32 word) \<le> sint (ucast hi :: 32 word)"
    by (rule unsigned_between32(2) [OF low assms(4)])
qed

section \<open>Arithmetic within the range of a width\<close>

lemma sint_eqI: "sint a = sint b \<Longrightarrow> a = b" for a b :: "'a::len word"
  by (rule signed_word_eqI)

lemma product_bounds:
  fixes a b c d x y :: "'a::linordered_idom"
  assumes "a \<le> x" "x \<le> b" "c \<le> y" "y \<le> d"
  shows "min (min (a * c) (a * d)) (min (b * c) (b * d)) \<le> x * y"
    "x * y \<le> max (max (a * c) (a * d)) (max (b * c) (b * d))"
proof -
  have lin: "min (u * p) (u * q) \<le> u * v \<and> u * v \<le> max (u * p) (u * q)"
    if "p \<le> v" "v \<le> q" for u v p q :: 'a
  proof (cases "0 \<le> u")
    case True
    then have "u * p \<le> u * v" "u * v \<le> u * q" using that by (simp_all add: mult_left_mono)
    then show ?thesis by (simp add: min_le_iff_disj le_max_iff_disj)
  next
    case False
    then have "u * q \<le> u * v" "u * v \<le> u * p" using that by (simp_all add: mult_left_mono_neg)
    then show ?thesis by (simp add: min_le_iff_disj le_max_iff_disj)
  qed
  have "min (y * a) (y * b) \<le> y * x \<and> y * x \<le> max (y * a) (y * b)" by (rule lin [OF assms(1,2)])
  moreover have "min (a * c) (a * d) \<le> a * y \<and> a * y \<le> max (a * c) (a * d)" by (rule lin [OF assms(3,4)])
  moreover have "min (b * c) (b * d) \<le> b * y \<and> b * y \<le> max (b * c) (b * d)" by (rule lin [OF assms(3,4)])
  ultimately show "min (min (a * c) (a * d)) (min (b * c) (b * d)) \<le> x * y"
    "x * y \<le> max (max (a * c) (a * d)) (max (b * c) (b * d))"
    unfolding mult.commute [of y] by linarith+
qed

lemma uint64_add: "uint a + uint b < 2 ^ 64 \<Longrightarrow> uint (a + b) = uint a + uint b" for a b :: u64
  by (simp add: uint_word_ariths mod_pos_pos_trivial)

lemma uint64_mult: "uint a * uint b < 2 ^ 64 \<Longrightarrow> uint (a * b) = uint a * uint b" for a b :: u64
  by (simp add: uint_word_ariths mod_pos_pos_trivial)

lemma uint_sub_le: "b \<le> a \<Longrightarrow> uint (a - b) = uint a - uint b" for a b :: "'a::len word"
  by (simp add: uint_minus_simple_alt)

lemma sint64_add: "- (2 ^ 63) \<le> sint a + sint b \<Longrightarrow> sint a + sint b < 2 ^ 63 \<Longrightarrow> sint (a + b) = sint a + sint b" for a b :: i64
  by (simp add: sint_word_ariths signed_take_bit_int_eq_self)

lemma sint64_sub: "- (2 ^ 63) \<le> sint a - sint b \<Longrightarrow> sint a - sint b < 2 ^ 63 \<Longrightarrow> sint (a - b) = sint a - sint b" for a b :: i64
  by (simp add: sint_word_ariths signed_take_bit_int_eq_self)

lemma sint64_mult: "- (2 ^ 63) \<le> sint a * sint b \<Longrightarrow> sint a * sint b < 2 ^ 63 \<Longrightarrow> sint (a * b) = sint a * sint b" for a b :: i64
  by (simp add: sint_word_ariths signed_take_bit_int_eq_self)

lemma word_div_mono:
  fixes x y a b :: "'a::len word"
  assumes "a \<le> x" "x \<le> b" "c \<le> y" "y \<le> d" "0 < c"
  shows "a div d \<le> x div y" "x div y \<le> b div c"
proof -
  have *: "uint a \<le> uint x" "uint x \<le> uint b" "uint c \<le> uint y" "uint y \<le> uint d" "0 < uint c"
    using assms by (simp_all add: order_uint word_less_def)
  have "uint a div uint d \<le> uint x div uint d" "uint x div uint d \<le> uint x div uint y"
    using * by (simp_all add: zdiv_mono1 zdiv_mono2)
  then show "a div d \<le> x div y" by (simp add: word_le_def uint_div)
  have "uint x div uint y \<le> uint b div uint y" "uint b div uint y \<le> uint b div uint c"
    using * by (simp_all add: zdiv_mono1 zdiv_mono2)
  then show "x div y \<le> b div c" by (simp add: word_le_def uint_div)
qed

lemma word_mod_lt: "y \<le> b \<Longrightarrow> 0 < y \<Longrightarrow> x mod y \<le> b - 1" for x y b :: "'a::len word"
proof -
  assume y: "y \<le> b" "0 < y"
  have "uint x mod uint y < uint y" using y(2) by (simp add: word_less_def)
  moreover have "uint (b - 1) = uint b - 1" using y
    by (subst uint_sub_le) (auto simp: order_uint)
  ultimately show ?thesis using y(1) by (simp add: word_le_def uint_mod)
qed

lemma word_and_bounds: "x \<le> a \<Longrightarrow> y \<le> b \<Longrightarrow> x AND y \<le> min a b" for x y :: "'a::len word"
  by (metis min.bounded_iff order.trans word_and_le1 word_and_le2)

lemma word_or_bounds: "a \<le> x \<Longrightarrow> b \<le> y \<Longrightarrow> max a b \<le> x OR y" for x y :: "'a::len word"
  by (metis le_word_or1 le_word_or2 max.bounded_iff order.trans)

lemma drop_bit_mono: "x \<le> y \<Longrightarrow> drop_bit n x \<le> drop_bit n y" for x y :: "'a::len word"
  by (simp only: word_le_nat_alt unat_drop_bit div_le_mono)

lemma drop_bit_le: "drop_bit n x \<le> x" for x :: "'a::len word"
  by (simp only: word_le_nat_alt unat_drop_bit div_le_dividend)

lemma unat_push_bit_eq: "unat (push_bit n x) = take_bit LENGTH('a) (push_bit n (unat x))" for x :: "'a::len word"
  by (simp add: unsigned_push_bit_eq take_bit_push_bit)

lemma unat_push_bit_small:
  fixes x :: "'a::len word"
  assumes "x \<le> drop_bit n max_word_w"
  shows "unat (push_bit n x) = unat x * 2 ^ n"
proof -
  have "unat x \<le> (2 ^ LENGTH('a) - 1) div 2 ^ n"
    using assms(1) by (simp only: word_le_nat_alt unat_drop_bit unsigned_minus_1_eq_mask mask_eq_exp_minus_1)
  then have "unat x * 2 ^ n \<le> 2 ^ LENGTH('a) - 1"
    by (meson div_times_less_eq_dividend dual_order.trans mult_le_mono1)
  then have "unat x * 2 ^ n < 2 ^ LENGTH('a)"
    by (metis Suc_pred' le_imp_less_Suc zero_less_numeral zero_less_power)
  then show ?thesis
    by (simp add: unat_push_bit_eq push_bit_eq_mult [where 'a = nat] take_bit_nat_eq_self)
qed

lemma push_bit_mono:
  fixes x y :: "'a::len word"
  assumes "x \<le> y" "y \<le> drop_bit n max_word_w"
  shows "push_bit n x \<le> push_bit n y"
  using assms order.trans [OF assms(1,2)]
  by (simp add: word_le_nat_alt unat_push_bit_small)

lemma and_63: "b < 64 \<Longrightarrow> b AND 63 = b" for b :: u64
proof -
  assume "b < 64"
  then have "unat b < 2 ^ 6" by (simp add: word_less_nat_alt)
  then have "take_bit 6 b = b" by (simp add: word_unat_eq_iff unsigned_take_bit_eq take_bit_nat_eq_self)
  moreover have "b AND 63 = take_bit 6 b" by (simp add: take_bit_eq_mask mask_eq_exp_minus_1)
  ultimately show ?thesis by simp
qed

lemma fold_min4: "fold min [a, b, c, d] (z :: int) \<le> min (min a b) (min c d)"
  "max (max a b) (max c d) \<le> fold max [a, b, c, d] (z :: int)"
  unfolding fold_simps by linarith+

lemma signed_drop_bit_sint: "sint (signed_drop_bit n w) = sint w div 2 ^ n" for w :: "'a::len word"
  by (simp add: sint_signed_drop_bit_eq drop_bit_eq_div)

lemma sint_nonneg64: "0 \<le> sint w \<Longrightarrow> sint w = uint w" for w :: i64
  using sint64_cases [of w] uint64_bounds [of w] by linarith

lemma uint_drop_bit: "uint (drop_bit n w) = uint w div 2 ^ n" for w :: "'a::len word"
  by (simp add: unsigned_drop_bit_eq drop_bit_eq_div [where 'a = int] take_bit_int_eq_self)

lemma sint_drop_bit_nonneg:
  fixes w :: i64
  assumes "0 \<le> sint w"
  shows "sint (drop_bit n w) = sint w div 2 ^ n"
proof -
  have w: "sint w = uint w" "uint w < 2 ^ 63"
    using assms sint_nonneg64 sint64_bounds [of w] by simp_all
  have "uint w div 2 ^ n \<le> uint w"
    using zdiv_mono2 [of "uint w" 1 "2 ^ n"] by simp
  then show ?thesis using w sint64_cases [of "drop_bit n w"] by (auto simp: uint_drop_bit)
qed

lemma push_bit_block_mono:
  fixes x y :: "'a::len word"
  assumes "x \<le> y" "n \<le> LENGTH('a)" "drop_bit (LENGTH('a) - n) x = drop_bit (LENGTH('a) - n) y"
  shows "push_bit n x \<le> push_bit n y"
proof -
  let ?m = "LENGTH('a) - n"
  have "unat x div 2 ^ ?m = unat y div 2 ^ ?m"
    using arg_cong [OF assms(3), of unat] by (simp only: unat_drop_bit)
  moreover have "unat x \<le> unat y" using assms(1) by (simp add: word_le_nat_alt)
  ultimately have "unat x mod 2 ^ ?m \<le> unat y mod 2 ^ ?m"
    by (simp flip: minus_mult_div_eq_mod add: diff_le_mono)
  moreover have "unat (push_bit n w) = unat w mod 2 ^ ?m * 2 ^ n" for w :: "'a word"
    using assms(2) unfolding unat_push_bit_eq take_bit_push_bit
    by (simp add: push_bit_eq_mult [where 'a = nat] take_bit_eq_mod)
  ultimately show ?thesis by (simp add: word_le_nat_alt)
qed

lemma sint_le_uint: "x \<le> y \<Longrightarrow> 0 \<le> sint y \<Longrightarrow> sint x \<le> sint y" for x y :: i64
  using sint64_cases [of x] sint64_cases [of y] unfolding word_le_def by linarith

end
