(* ===== verification/Tnum.thy ===== *)
theory Tnum
  imports Prelude
begin

text \<open>
  The tracked number domain of \<open>src/src/tnum.rs\<close>: a pair of a value and a mask, a set mask bit
  meaning that the bit is unknown. Every operation of the Rust type is a definition here; the
  membership test is \<open>tnum_contains\<close> of \<open>src/src/concrete.rs\<close>. The lemmas show that every
  operation keeps the value disjoint from the mask and that it is sound with respect to
  membership: the result of the concrete operation on members is a member of the result.
\<close>

section \<open>The data and its operations\<close>

record tnum =
  tvalue :: u64
  tmask :: u64

definition tnum_constant :: "u64 \<Rightarrow> tnum" where
  "tnum_constant v = \<lparr>tvalue = v, tmask = 0\<rparr>"

definition tnum_unknown :: tnum where
  "tnum_unknown = \<lparr>tvalue = 0, tmask = max_word_w\<rparr>"

definition tnum_is_constant :: "tnum \<Rightarrow> bool" where
  "tnum_is_constant t \<longleftrightarrow> tmask t = 0"

definition tnum_is_unknown :: "tnum \<Rightarrow> bool" where
  "tnum_is_unknown t \<longleftrightarrow> tmask t = max_word_w"

definition tnum_known_ones :: "tnum \<Rightarrow> u64" where
  "tnum_known_ones t = tvalue t AND NOT (tmask t)"

definition tnum_add :: "tnum \<Rightarrow> tnum \<Rightarrow> tnum" where
  "tnum_add a b =
     (let sm = tmask a + tmask b;
          sv = tvalue a + tvalue b;
          sigma = sm + sv;
          chi = sigma XOR sv;
          mu = chi OR tmask a OR tmask b
      in \<lparr>tvalue = sv AND NOT mu, tmask = mu\<rparr>)"

definition tnum_sub :: "tnum \<Rightarrow> tnum \<Rightarrow> tnum" where
  "tnum_sub a b =
     (let dv = tvalue a - tvalue b;
          alpha = dv + tmask a;
          beta = dv - tmask b;
          chi = alpha XOR beta;
          mu = chi OR tmask a OR tmask b
      in \<lparr>tvalue = dv AND NOT mu, tmask = mu\<rparr>)"

definition tnum_xor :: "tnum \<Rightarrow> tnum \<Rightarrow> tnum" where
  "tnum_xor a b =
     (let v = tvalue a XOR tvalue b; m = tmask a OR tmask b
      in \<lparr>tvalue = v AND NOT m, tmask = m\<rparr>)"

text \<open>
  \<open>checked_shl(k).unwrap_or(0)\<close> and its siblings: an amount of 64 or more has no shifted
  value.
\<close>

definition checked_shl64 :: "u64 \<Rightarrow> u32 \<Rightarrow> u64 option" where
  "checked_shl64 v k = (if k < 64 then Some (push_bit (unat k) v) else None)"

definition checked_shr64 :: "u64 \<Rightarrow> u32 \<Rightarrow> u64 option" where
  "checked_shr64 v k = (if k < 64 then Some (drop_bit (unat k) v) else None)"

definition checked_sar64 :: "i64 \<Rightarrow> u32 \<Rightarrow> i64 option" where
  "checked_sar64 v k = (if k < 64 then Some (signed_drop_bit (unat k) v) else None)"

definition tnum_lshift :: "tnum \<Rightarrow> u32 \<Rightarrow> tnum" where
  "tnum_lshift t k =
     \<lparr>tvalue = (case checked_shl64 (tvalue t) k of Some v \<Rightarrow> v | None \<Rightarrow> 0),
      tmask = (case checked_shl64 (tmask t) k of Some v \<Rightarrow> v | None \<Rightarrow> 0)\<rparr>"

definition tnum_rshift :: "tnum \<Rightarrow> u32 \<Rightarrow> tnum" where
  "tnum_rshift t k =
     \<lparr>tvalue = (case checked_shr64 (tvalue t) k of Some v \<Rightarrow> v | None \<Rightarrow> 0),
      tmask = (case checked_shr64 (tmask t) k of Some v \<Rightarrow> v | None \<Rightarrow> 0)\<rparr>"

definition tnum_arshift :: "tnum \<Rightarrow> u32 \<Rightarrow> tnum" where
  "tnum_arshift t k =
     \<lparr>tvalue = (case checked_sar64 (tvalue t) k of Some v \<Rightarrow> v
                | None \<Rightarrow> if sint (tvalue t) < 0 then max_word_w else 0),
      tmask = (case checked_sar64 (tmask t) k of Some v \<Rightarrow> v
                | None \<Rightarrow> if sint (tmask t) < 0 then max_word_w else 0)\<rparr>"

definition as_u32 :: "u64 \<Rightarrow> u32" where
  "as_u32 = ucast"

definition as_u64 :: "u32 \<Rightarrow> u64" where
  "as_u64 = ucast"

definition tnum_subreg :: "tnum \<Rightarrow> tnum" where
  "tnum_subreg t = \<lparr>tvalue = as_u64 (as_u32 (tvalue t)), tmask = as_u64 (as_u32 (tmask t))\<rparr>"

definition leading_zeros64 :: "u64 \<Rightarrow> nat" where
  "leading_zeros64 w = length (takeWhile (\<lambda>i. \<not> bit w i) (rev [0..<64]))"

definition tnum_from_range :: "u64 \<Rightarrow> u64 \<Rightarrow> tnum" where
  "tnum_from_range mn mx =
     (let chi = mn XOR mx in
      if chi = 0 then tnum_constant mn
      else
        let bits = 64 - leading_zeros64 chi;
            m = (if bits = 64 then max_word_w else push_bit bits 1 - 1)
        in \<lparr>tvalue = mn AND NOT m, tmask = m\<rparr>)"

definition tnum_and :: "tnum \<Rightarrow> tnum \<Rightarrow> tnum" where
  "tnum_and a b =
     (let alpha = tvalue a OR tmask a;
          beta = tvalue b OR tmask b;
          v = tvalue a AND tvalue b;
          m = (alpha AND beta) XOR v
      in \<lparr>tvalue = v, tmask = m\<rparr>)"

definition tnum_or :: "tnum \<Rightarrow> tnum \<Rightarrow> tnum" where
  "tnum_or a b =
     (let known_one = tnum_known_ones a OR tnum_known_ones b;
          known_zero = (NOT (tvalue a) AND NOT (tmask a)) AND (NOT (tvalue b) AND NOT (tmask b))
      in \<lparr>tvalue = known_one, tmask = NOT (known_one OR known_zero)\<rparr>)"

definition tnum_union :: "tnum \<Rightarrow> tnum \<Rightarrow> tnum" where
  "tnum_union a b =
     (let v = tvalue a AND tvalue b;
          mu = (tvalue a XOR tvalue b) OR tmask a OR tmask b
      in \<lparr>tvalue = v AND NOT mu, tmask = mu\<rparr>)"

definition tnum_intersect :: "tnum \<Rightarrow> tnum \<Rightarrow> tnum" where
  "tnum_intersect a b =
     (let v = tvalue a OR tvalue b;
          mu = tmask a AND tmask b
      in \<lparr>tvalue = v AND NOT mu, tmask = mu\<rparr>)"

definition tnum_subsumes :: "tnum \<Rightarrow> tnum \<Rightarrow> bool" where
  "tnum_subsumes a b \<longleftrightarrow>
     (tmask b AND NOT (tmask a)) = 0 \<and>
     (tvalue b AND NOT (tmask a)) = (tvalue a AND NOT (tmask a))"

text \<open>The loop of \<open>Tnum::mul\<close>, with the accumulator and the two shifted operands as arguments.\<close>

function tnum_mul_loop :: "tnum \<Rightarrow> tnum \<Rightarrow> tnum \<Rightarrow> tnum" where
  "tnum_mul_loop acc a b =
     (if tvalue a \<noteq> 0 \<or> tmask a \<noteq> 0 then
        tnum_mul_loop
          (if tvalue a AND 1 \<noteq> 0 then tnum_add acc b
           else if tmask a AND 1 \<noteq> 0 then tnum_union acc (tnum_add acc b)
           else acc)
          (tnum_rshift a 1) (tnum_lshift b 1)
      else acc)"
  by pat_completeness auto
termination
proof (relation "measure (\<lambda>(acc, a, b). unat (tvalue a) + unat (tmask a))")
  fix acc a b :: tnum
  assume "tvalue a \<noteq> 0 \<or> tmask a \<noteq> 0"
  then have "unat (tvalue a) \<noteq> 0 \<or> unat (tmask a) \<noteq> 0"
    by (simp add: unat_eq_0)
  then have "unat (tvalue a) div 2 + unat (tmask a) div 2 < unat (tvalue a) + unat (tmask a)"
    by linarith
  moreover have "unat (drop_bit (Suc 0) w) = unat w div 2" for w :: u64
    by (simp add: drop_bit_eq_div unat_div)
  ultimately show "((if tvalue a AND 1 \<noteq> 0 then tnum_add acc b
           else if tmask a AND 1 \<noteq> 0 then tnum_union acc (tnum_add acc b)
           else acc, tnum_rshift a 1, tnum_lshift b 1), acc, a, b)
        \<in> measure (\<lambda>(acc, a, b). unat (tvalue a) + unat (tmask a))"
    by (simp add: tnum_rshift_def checked_shr64_def)
qed simp

declare tnum_mul_loop.simps [simp del]

definition tnum_mul :: "tnum \<Rightarrow> tnum \<Rightarrow> tnum" where
  "tnum_mul a b = tnum_mul_loop (tnum_constant 0) a b"

definition tnum_contains :: "tnum \<Rightarrow> u64 \<Rightarrow> bool" where
  "tnum_contains t v \<longleftrightarrow> (v AND NOT (tmask t)) = (tvalue t AND NOT (tmask t))"

section \<open>Well-formedness and membership\<close>

definition tnum_wf :: "tnum \<Rightarrow> bool" where
  "tnum_wf t \<longleftrightarrow> tvalue t AND tmask t = 0"

lemma tnum_wf_bit: "tnum_wf t \<Longrightarrow> bit (tvalue t) i \<Longrightarrow> \<not> bit (tmask t) i"
  unfolding tnum_wf_def by (metis bit_and_iff bit_0_eq bot_apply bot_bool_def)

lemma tnum_wfI: "(\<And>i. i < 64 \<Longrightarrow> bit (tvalue t) i \<Longrightarrow> \<not> bit (tmask t) i) \<Longrightarrow> tnum_wf t"
  unfolding tnum_wf_def by (rule bit_word_eqI) (auto simp: bit_simps)

lemma tnum_contains_iff:
  "tnum_contains t x \<longleftrightarrow> (\<forall>i<64. \<not> bit (tmask t) i \<longrightarrow> bit x i = bit (tvalue t) i)"
  unfolding tnum_contains_def bit_eq_iff by (auto simp: bit_simps)

lemma tnum_contains_lower: "tnum_wf t \<Longrightarrow> tnum_contains t x \<Longrightarrow> bit (tvalue t) j \<Longrightarrow> bit x j"
  using bit_imp_le_length [of "tvalue t" j]
  by (auto simp: tnum_contains_iff dest: tnum_wf_bit)

lemma tnum_plus_or: "tnum_wf t \<Longrightarrow> tvalue t + tmask t = tvalue t OR tmask t"
  unfolding tnum_wf_def by (rule disjunctive_add_eq_or)

lemma tnum_contains_upper: "tnum_contains t x \<Longrightarrow> bit x j \<Longrightarrow> bit (tvalue t OR tmask t) j"
  using bit_imp_le_length [of x j] by (auto simp: tnum_contains_iff bit_simps)

lemma tnum_value_le_or: "bit (tvalue t) j \<Longrightarrow> bit (tvalue t OR tmask t) j"
  by (simp add: bit_simps)

lemma tnum_add_sound [bounds_sound]:
  assumes wf: "tnum_wf a" "tnum_wf b" and mem: "tnum_contains a x" "tnum_contains b y"
  shows "tnum_contains (tnum_add a b) (x + y)"
proof -
  let ?A = "tvalue a OR tmask a" and ?B = "tvalue b OR tmask b"
  have sigma: "tmask a + tmask b + (tvalue a + tvalue b) = ?A + ?B"
    by (simp add: wf flip: tnum_plus_or) 
  have key: "bit (x + y) i = bit (tvalue a + tvalue b) i"
    if i: "i < 64" and chi: "bit (?A + ?B) i = bit (tvalue a + tvalue b) i"
      and ma: "\<not> bit (tmask a) i" and mb: "\<not> bit (tmask b) i" for i
  proof -
    have bits: "bit x i = bit (tvalue a) i" "bit y i = bit (tvalue b) i"
      using mem i ma mb by (auto simp: tnum_contains_iff)
    have eq: "carry_at i ?A ?B = carry_at i (tvalue a) (tvalue b)"
      using chi i ma mb by (auto simp: bit_add_word bit_or_iff)
    have up: "carry_at i x y \<Longrightarrow> carry_at i ?A ?B"
      by (rule carry_at_mono [OF tnum_contains_upper [OF mem(1)] tnum_contains_upper [OF mem(2)]])
    have lo: "carry_at i (tvalue a) (tvalue b) \<Longrightarrow> carry_at i x y"
      by (rule carry_at_mono [OF tnum_contains_lower [OF wf(1) mem(1)] tnum_contains_lower [OF wf(2) mem(2)]])
    have "carry_at i x y = carry_at i (tvalue a) (tvalue b)"
      using eq up lo by blast
    with i bits show ?thesis by (simp add: bit_add_word)
  qed
  show ?thesis
    unfolding tnum_contains_iff tnum_add_def Let_def sigma
    using key by (auto simp: bit_simps)
qed

lemma tnum_sub_sound [bounds_sound]:
  assumes wf: "tnum_wf a" "tnum_wf b" and mem: "tnum_contains a x" "tnum_contains b y"
  shows "tnum_contains (tnum_sub a b) (x - y)"
proof -
  let ?A = "tvalue a OR tmask a" and ?B = "tvalue b OR tmask b"
  have alpha: "tvalue a - tvalue b + tmask a = ?A - tvalue b"
    by (simp add: wf flip: tnum_plus_or)
  have beta: "tvalue a - tvalue b - tmask b = tvalue a - ?B"
    by (simp add: wf flip: tnum_plus_or)
  have key: "bit (x - y) i = bit (tvalue a - tvalue b) i"
    if i: "i < 64" and chi: "bit (?A - tvalue b) i = bit (tvalue a - ?B) i"
      and ma: "\<not> bit (tmask a) i" and mb: "\<not> bit (tmask b) i" for i
  proof -
    have bits: "bit x i = bit (tvalue a) i" "bit y i = bit (tvalue b) i"
      using mem i ma mb by (auto simp: tnum_contains_iff)
    have eq: "borrow_at i ?A (tvalue b) = borrow_at i (tvalue a) ?B"
      using chi i ma mb by (auto simp: bit_sub_word bit_or_iff)
    have up: "borrow_at i x y \<Longrightarrow> borrow_at i (tvalue a) ?B"
      by (rule borrow_at_mono [OF tnum_contains_lower [OF wf(1) mem(1)] tnum_contains_upper [OF mem(2)]])
    have lo: "borrow_at i ?A (tvalue b) \<Longrightarrow> borrow_at i x y"
      by (rule borrow_at_mono [OF tnum_contains_upper [OF mem(1)] tnum_contains_lower [OF wf(2) mem(2)]])
    have up': "borrow_at i (tvalue a) (tvalue b) \<Longrightarrow> borrow_at i (tvalue a) ?B"
      by (rule borrow_at_mono [OF _ tnum_value_le_or])
    have lo': "borrow_at i ?A (tvalue b) \<Longrightarrow> borrow_at i (tvalue a) (tvalue b)"
      by (rule borrow_at_mono [OF tnum_value_le_or])
    have "borrow_at i x y = borrow_at i (tvalue a) (tvalue b)"
      using eq up lo up' lo' by blast
    with i bits show ?thesis by (simp add: bit_sub_word)
  qed
  show ?thesis
    unfolding tnum_contains_iff tnum_sub_def Let_def alpha beta
    using key by (auto simp: bit_simps)
qed


lemma tnum_xor_sound [bounds_sound]:
  "tnum_contains a x \<Longrightarrow> tnum_contains b y \<Longrightarrow> tnum_contains (tnum_xor a b) (x XOR y)"
  by (auto simp: tnum_contains_iff tnum_xor_def Let_def bit_simps)

lemma tnum_and_sound [bounds_sound]:
  assumes "tnum_wf a" "tnum_wf b" "tnum_contains a x" "tnum_contains b y"
  shows "tnum_contains (tnum_and a b) (x AND y)"
  using assms(3,4) tnum_wf_bit [OF assms(1)] tnum_wf_bit [OF assms(2)]
  by (auto simp: tnum_contains_iff tnum_and_def Let_def bit_simps)

lemma tnum_or_sound [bounds_sound]:
  "tnum_contains a x \<Longrightarrow> tnum_contains b y \<Longrightarrow> tnum_contains (tnum_or a b) (x OR y)"
  by (auto simp: tnum_contains_iff tnum_or_def tnum_known_ones_def Let_def bit_simps)

lemma tnum_union_sound:
  assumes "tnum_contains a x \<or> tnum_contains b x"
  shows "tnum_contains (tnum_union a b) x"
  using assms by (auto simp: tnum_contains_iff tnum_union_def Let_def bit_simps)

lemma tnum_intersect_sound [bounds_sound]:
  assumes "tnum_wf a" "tnum_wf b" "tnum_contains a x" "tnum_contains b x"
  shows "tnum_contains (tnum_intersect a b) x"
  using assms(3,4) tnum_wf_bit [OF assms(1)] tnum_wf_bit [OF assms(2)]
  by (auto simp: tnum_contains_iff tnum_intersect_def Let_def bit_simps)

lemma tnum_lshift_sound [bounds_sound]:
  assumes "k < 64" "tnum_contains t x"
  shows "tnum_contains (tnum_lshift t k) (push_bit (unat k) x)"
  using assms by (auto simp: tnum_contains_iff tnum_lshift_def checked_shl64_def bit_simps)

lemma tnum_rshift_sound [bounds_sound]:
  assumes "k < 64" "tnum_contains t x"
  shows "tnum_contains (tnum_rshift t k) (drop_bit (unat k) x)"
proof -
  have "bit x (unat k + i) = bit (tvalue t) (unat k + i)" if "\<not> bit (tmask t) (unat k + i)" for i
    using that assms(2) bit_imp_le_length [of x "unat k + i"] bit_imp_le_length [of "tvalue t" "unat k + i"]
    by (cases "unat k + i < 64") (auto simp: tnum_contains_iff)
  then show ?thesis
    using assms(1) by (auto simp: tnum_contains_iff tnum_rshift_def checked_shr64_def bit_simps)
qed

lemma sint_neg_iff_bit: "sint w < 0 \<longleftrightarrow> bit w 63" for w :: i64
  using bit_last_iff [of w] by simp

lemma tnum_arshift_sound [bounds_sound]:
  assumes "k < 64" "tnum_contains t x"
  shows "tnum_contains (tnum_arshift t k) (signed_drop_bit (unat k) x)"
proof -
  have nk: "unat k < 64" using assms(1) by (simp add: word_less_nat_alt)
  show ?thesis
    using assms nk by (auto simp: tnum_contains_iff tnum_arshift_def checked_sar64_def bit_signed_drop_bit_iff)
qed

lemma tnum_arshift_big:
  assumes "\<not> k < 64" "tnum_contains t x"
  shows "tnum_contains (tnum_arshift t k) (if sint x < 0 then max_word_w else 0)"
  using assms by (auto simp: tnum_contains_iff tnum_arshift_def checked_sar64_def sint_neg_iff_bit)

lemma tnum_subreg_sound [bounds_sound]:
  "tnum_contains t x \<Longrightarrow> tnum_contains (tnum_subreg t) (as_u64 (as_u32 x))"
  by (auto simp: tnum_contains_iff tnum_subreg_def as_u64_def as_u32_def bit_simps)

lemma tnum_subsumes_iff:
  assumes "tnum_wf b"
  shows "tnum_subsumes a b \<longleftrightarrow> (\<forall>x. tnum_contains b x \<longrightarrow> tnum_contains a x)"
proof
  assume s: "tnum_subsumes a b"
  then have 1: "\<And>i. i < 64 \<Longrightarrow> bit (tmask b) i \<Longrightarrow> bit (tmask a) i"
    and 2: "\<And>i. i < 64 \<Longrightarrow> \<not> bit (tmask a) i \<Longrightarrow> bit (tvalue b) i = bit (tvalue a) i"
    by (auto simp: tnum_subsumes_def bit_eq_iff bit_simps)
  then show "\<forall>x. tnum_contains b x \<longrightarrow> tnum_contains a x"
    by (auto simp: tnum_contains_iff)
next
  assume all: "\<forall>x. tnum_contains b x \<longrightarrow> tnum_contains a x"
  have v: "tnum_contains b (tvalue b)" and vm: "tnum_contains b (tvalue b OR tmask b)"
    by (auto simp: tnum_contains_iff bit_simps)
  from all v have cv: "tnum_contains a (tvalue b)" by blast
  from all vm have cm: "tnum_contains a (tvalue b OR tmask b)" by blast
  have "tmask b AND NOT (tmask a) = 0"
    using cv cm tnum_wf_bit [OF assms] by (intro bit_word_eqI) (auto simp: tnum_contains_iff bit_simps)
  then show "tnum_subsumes a b"
    using cv by (simp add: tnum_subsumes_def tnum_contains_def)
qed

lemma tnum_wf_ops [wf_intros]:
  "tnum_wf (tnum_constant v)" "tnum_wf tnum_unknown"
  "tnum_wf (tnum_add a b)" "tnum_wf (tnum_sub a b)" "tnum_wf (tnum_xor a b)"
  "tnum_wf (tnum_union a b)" "tnum_wf (tnum_intersect a b)" "tnum_wf (tnum_or a b)"
  "tnum_wf (tnum_and a b)"
  by (auto intro!: tnum_wfI simp: tnum_constant_def tnum_unknown_def tnum_add_def tnum_sub_def
      tnum_xor_def tnum_union_def tnum_intersect_def tnum_or_def tnum_and_def Let_def bit_simps)

lemma tnum_wf_lshift [wf_intros]: "tnum_wf t \<Longrightarrow> tnum_wf (tnum_lshift t k)"
  by (rule tnum_wfI)
    (auto simp: tnum_lshift_def checked_shl64_def bit_simps dest: tnum_wf_bit split: if_splits)

lemma tnum_wf_rshift [wf_intros]: "tnum_wf t \<Longrightarrow> tnum_wf (tnum_rshift t k)"
  by (rule tnum_wfI)
    (auto simp: tnum_rshift_def checked_shr64_def bit_simps dest: tnum_wf_bit split: if_splits)

lemma tnum_wf_arshift [wf_intros]: "tnum_wf t \<Longrightarrow> tnum_wf (tnum_arshift t k)"
  by (rule tnum_wfI)
    (auto simp: tnum_arshift_def checked_sar64_def bit_signed_drop_bit_iff sint_neg_iff_bit
      dest: tnum_wf_bit split: if_splits)

lemma tnum_wf_subreg [wf_intros]: "tnum_wf t \<Longrightarrow> tnum_wf (tnum_subreg t)"
  by (rule tnum_wfI) (auto simp: tnum_subreg_def as_u64_def as_u32_def bit_simps dest: tnum_wf_bit)

lemma tnum_wf_from_range [wf_intros]: "tnum_wf (tnum_from_range mn mx)"
  by (rule tnum_wfI)
    (auto simp: tnum_from_range_def tnum_constant_def Let_def bit_simps split: if_splits)

lemma tnum_contains_constant [simp]: "tnum_contains (tnum_constant v) x \<longleftrightarrow> x = v"
  by (simp add: tnum_contains_def tnum_constant_def)

lemma tnum_contains_unknown [simp]: "tnum_contains tnum_unknown x"
  by (simp add: tnum_contains_def tnum_unknown_def)

lemma leading_zeros64_high:
  assumes "64 - leading_zeros64 w \<le> i"
  shows "\<not> bit w i"
proof (cases "i < 64")
  case True
  let ?P = "\<lambda>i. \<not> bit w i" and ?xs = "rev [0..<64]"
  have lz: "63 - i < length (takeWhile ?P ?xs)"
    using assms True by (simp add: leading_zeros64_def)
  have "takeWhile ?P ?xs ! (63 - i) = ?xs ! (63 - i)"
    by (rule takeWhile_nth [OF lz])
  also have "\<dots> = i" using True by (simp add: rev_nth)
  finally have "i \<in> set (takeWhile ?P ?xs)" using lz by (metis nth_mem)
  then show ?thesis by (metis set_takeWhileD)
next
  case False
  then show ?thesis using bit_imp_le_length [of w i] by auto
qed

lemma tnum_from_range_sound [bounds_sound]:
  assumes "mn \<le> x" "x \<le> mx"
  shows "tnum_contains (tnum_from_range mn mx) x"
proof (cases "mn XOR mx = 0")
  case True
  then have "mn = mx" by (auto simp: bit_eq_iff bit_xor_iff)
  then have "x = mn" using assms by simp
  then show ?thesis using \<open>mn = mx\<close> by (simp add: tnum_from_range_def)
next
  case False
  define n where "n = 64 - leading_zeros64 (mn XOR mx)"
  have hi: "bit mn i = bit mx i" if "n \<le> i" for i
    using leading_zeros64_high [of "mn XOR mx" i] that by (simp add: n_def bit_simps)
  have "drop_bit n mn = drop_bit n mx"
    by (rule bit_word_eqI) (simp add: bit_drop_bit_eq hi)
  from drop_bit_between [OF assms this] have drop: "bit (drop_bit n x) j = bit (drop_bit n mn) j" for j
    by simp
  have eq: "bit x i = bit mn i" if "n \<le> i" for i
    using drop [of "i - n"] that by (simp only: bit_drop_bit_eq comp_apply le_add_diff_inverse)
  have "push_bit n 1 - 1 = (mask n :: u64)"
    by (simp add: mask_eq_exp_minus_1 push_bit_of_1)
  then show ?thesis
    using False eq by (auto simp: tnum_contains_iff tnum_from_range_def Let_def bit_simps simp flip: n_def)
qed

lemma tnum_mul_loop_sound:
  assumes "tnum_wf acc" "tnum_wf a" "tnum_wf b"
    and "tnum_contains acc z" "tnum_contains a x" "tnum_contains b y"
  shows "tnum_contains (tnum_mul_loop acc a b) (z + x * y)"
  using assms
proof (induction acc a b arbitrary: z x y rule: tnum_mul_loop.induct)
  case (1 acc a b)
  show ?case
  proof (cases "tvalue a \<noteq> 0 \<or> tmask a \<noteq> 0")
    case False
    then have "x = 0" using "1.prems" by (simp add: tnum_contains_def)
    then show ?thesis using False "1.prems" by (simp add: tnum_mul_loop.simps)
  next
    case True
    let ?acc = "if tvalue a AND 1 \<noteq> 0 then tnum_add acc b
           else if tmask a AND 1 \<noteq> 0 then tnum_union acc (tnum_add acc b) else acc"
    have odd: "w AND 1 \<noteq> 0 \<longleftrightarrow> bit w 0" for w :: u64
      by (simp add: and_one_eq odd_iff_mod_2_eq_one bit_0)
    define z' where "z' = (if bit x 0 then z + y else z)"
    have add: "tnum_contains (tnum_add acc b) (z + y)"
      using "1.prems" by (intro tnum_add_sound)
    have acc: "tnum_contains ?acc z'"
      using add "1.prems"(4) "1.prems"(5) unfolding odd z'_def
      by (auto intro: tnum_union_sound simp: tnum_contains_iff [of a]
          dest: tnum_wf_bit [OF "1.prems"(2)])
    have wfacc: "tnum_wf ?acc" using "1.prems" by (simp add: wf_intros)
    have "push_bit 1 (drop_bit 1 x) + take_bit 1 x = x" by (rule bits_ident)
    then have x: "x = 2 * drop_bit 1 x + of_bool (bit x 0)"
      by (simp add: push_bit_eq_mult take_bit_Suc bit_0 mod_2_eq_odd mult.commute)
    have "x * y = (2 * drop_bit 1 x + of_bool (bit x 0)) * y"
      by (subst x) (rule refl)
    then have eq: "z + x * y = z' + drop_bit 1 x * push_bit 1 y"
      by (simp add: z'_def push_bit_eq_mult algebra_simps)
    have "tnum_contains (tnum_mul_loop ?acc (tnum_rshift a 1) (tnum_lshift b 1)) (z' + drop_bit 1 x * push_bit 1 y)"
      using 1(1) [OF True wfacc _ _ acc] 1(2-) tnum_rshift_sound [of 1 a x] tnum_lshift_sound [of 1 b y]
      by (simp add: wf_intros)
    then show ?thesis unfolding eq using True by (subst tnum_mul_loop.simps) simp
  qed
qed

lemma tnum_mul_sound [bounds_sound]:
  assumes "tnum_wf a" "tnum_wf b" "tnum_contains a x" "tnum_contains b y"
  shows "tnum_contains (tnum_mul a b) (x * y)"
  using tnum_mul_loop_sound [OF tnum_wf_ops(1) assms(1,2) _ assms(3,4), of 0 0]
  by (simp add: tnum_mul_def)

lemma tnum_intersect_exact:
  assumes wf: "tnum_wf a" "tnum_wf b"
    and mem: "tnum_contains a y" "tnum_contains b y" "tnum_contains (tnum_intersect a b) x"
  shows "tnum_contains a x \<and> tnum_contains b x"
proof -
  have "(\<not> bit (tmask a) i \<longrightarrow> bit x i = bit (tvalue a) i) \<and> (\<not> bit (tmask b) i \<longrightarrow> bit x i = bit (tvalue b) i)"
    if i: "i < 64" for i
  proof -
    have "\<not> bit (tmask a) i \<Longrightarrow> bit y i = bit (tvalue a) i" "\<not> bit (tmask b) i \<Longrightarrow> bit y i = bit (tvalue b) i"
      using mem(1,2) i by (simp_all add: tnum_contains_iff)
    moreover have "\<not> (bit (tmask a) i \<and> bit (tmask b) i) \<Longrightarrow> bit x i = (bit (tvalue a) i \<or> bit (tvalue b) i)"
      using mem(3) i by (auto simp: tnum_contains_iff tnum_intersect_def Let_def bit_simps)
    ultimately show ?thesis
      using tnum_wf_bit [OF wf(1), of i] tnum_wf_bit [OF wf(2), of i] by blast
  qed
  then show ?thesis by (simp add: tnum_contains_iff)
qed

section \<open>The interface of the range domain\<close>

text \<open>
  What the scalar bounds rely on: a domain of sets of 64-bit values with constants, a top
  element, a meet and the abstraction of an unsigned interval. Reducing an element by the
  interval it is kept beside loses no common member and adds none.
\<close>

locale value_domain =
  fixes wf :: "'t \<Rightarrow> bool"
    and contains :: "'t \<Rightarrow> u64 \<Rightarrow> bool"
    and const_of :: "u64 \<Rightarrow> 't"
    and top_of :: 't
    and meet :: "'t \<Rightarrow> 't \<Rightarrow> 't"
    and of_range :: "u64 \<Rightarrow> u64 \<Rightarrow> 't"
  assumes wf_const: "wf (const_of v)"
    and wf_top: "wf top_of"
    and wf_meet: "wf (meet a b)"
    and wf_of_range: "wf (of_range lo hi)"
    and contains_const: "contains (const_of v) x \<longleftrightarrow> x = v"
    and contains_top: "contains top_of x"
    and meet_sound: "wf a \<Longrightarrow> wf b \<Longrightarrow> contains a x \<Longrightarrow> contains b x \<Longrightarrow> contains (meet a b) x"
    and meet_exact: "wf a \<Longrightarrow> wf b \<Longrightarrow> contains a y \<Longrightarrow> contains b y \<Longrightarrow> contains (meet a b) x \<Longrightarrow> contains a x \<and> contains b x"
    and of_range_sound: "lo \<le> x \<Longrightarrow> x \<le> hi \<Longrightarrow> contains (of_range lo hi) x"
begin

definition reduce :: "'t \<Rightarrow> u64 \<Rightarrow> u64 \<Rightarrow> 't" where
  "reduce t lo hi = meet t (of_range lo hi)"

lemma reduce_wf: "wf (reduce t lo hi)"
  by (simp add: reduce_def wf_meet)

lemma reduce_sound: "wf t \<Longrightarrow> contains t x \<Longrightarrow> lo \<le> x \<Longrightarrow> x \<le> hi \<Longrightarrow> contains (reduce t lo hi) x"
  by (simp add: reduce_def meet_sound wf_of_range of_range_sound)

lemma reduce_exact:
  assumes "wf t" "contains t y" "lo \<le> y" "y \<le> hi" "contains (reduce t lo hi) x"
  shows "contains t x"
  using meet_exact [OF assms(1) wf_of_range assms(2) of_range_sound [OF assms(3,4)]] assms(5)
  by (simp add: reduce_def)

lemma reduce_top: "lo \<le> x \<Longrightarrow> x \<le> hi \<Longrightarrow> contains (reduce top_of lo hi) x"
  by (rule reduce_sound) (simp_all add: wf_top contains_top)

end

interpretation tn: value_domain tnum_wf tnum_contains tnum_constant tnum_unknown tnum_intersect tnum_from_range
  by unfold_locales
    (auto simp: wf_intros tnum_intersect_sound tnum_from_range_sound dest: tnum_intersect_exact)

section \<open>Properties\<close>

text \<open>
  Addition and subtraction of tracked numbers cover the wrapped sum and difference of any two
  members, and keep the invariant that no bit is both known and unknown.
\<close>

theorem tnum_add_sub_correct:
  assumes "tnum_wf a" "tnum_wf b" "tnum_contains a x" "tnum_contains b y"
  shows "tnum_contains (tnum_add a b) (x + y) \<and> tnum_wf (tnum_add a b) \<and>
    tnum_contains (tnum_sub a b) (x - y) \<and> tnum_wf (tnum_sub a b)"
  using assms by (simp add: tnum_add_sound tnum_sub_sound tnum_wf_ops)

theorem tnum_add_sub_correct_witness:
  "tnum_contains (tnum_add \<lparr>tvalue = 1, tmask = 6\<rparr> \<lparr>tvalue = 8, tmask = 3\<rparr>) (5 + 10)"
proof -
  have "tnum_wf \<lparr>tvalue = 1, tmask = 6\<rparr>" "tnum_wf \<lparr>tvalue = 8, tmask = 3\<rparr>"
    "tnum_contains \<lparr>tvalue = 1, tmask = 6\<rparr> 5" "tnum_contains \<lparr>tvalue = 8, tmask = 3\<rparr> 10"
    by code_simp+
  then show ?thesis using tnum_add_sub_correct by blast
qed

text \<open>
  C28: the shift-and-add multiplication loop covers the wrapped product of any two members.
\<close>

theorem tnum_mul_correct:
  assumes "tnum_wf a" "tnum_wf b" "tnum_contains a x" "tnum_contains b y"
  shows "tnum_contains (tnum_mul a b) (x * y)"
  using assms by (rule tnum_mul_sound)

theorem tnum_mul_correct_witness:
  "tnum_contains (tnum_mul \<lparr>tvalue = 1, tmask = 6\<rparr> \<lparr>tvalue = 8, tmask = 3\<rparr>) (5 * 10)"
proof -
  have "tnum_wf \<lparr>tvalue = 1, tmask = 6\<rparr>" "tnum_wf \<lparr>tvalue = 8, tmask = 3\<rparr>"
    "tnum_contains \<lparr>tvalue = 1, tmask = 6\<rparr> 5" "tnum_contains \<lparr>tvalue = 8, tmask = 3\<rparr> 10"
    by code_simp+
  then show ?thesis by (rule tnum_mul_correct)
qed

text \<open>
  C29: the tracked number of an unsigned range contains every value of the range, and is well formed.
\<close>

theorem tnum_from_range_correct:
  assumes "mn \<le> x" "x \<le> mx"
  shows "tnum_contains (tnum_from_range mn mx) x \<and> tnum_wf (tnum_from_range mn mx)"
  using assms by (simp add: tnum_from_range_sound tnum_wf_from_range)

theorem tnum_from_range_correct_witness: "tnum_contains (tnum_from_range 12 15) 13"
  using tnum_from_range_correct [of 12 13 15] by simp

text \<open>
  C30: subsumption of tracked numbers is exactly inclusion of the sets of values they stand for.
\<close>

theorem tnum_subsumes_correct:
  assumes "tnum_wf b"
  shows "tnum_subsumes a b \<longleftrightarrow> {x. tnum_contains b x} \<subseteq> {x. tnum_contains a x}"
  using tnum_subsumes_iff [OF assms] by auto

theorem tnum_subsumes_correct_witness:
  "{x. tnum_contains \<lparr>tvalue = 4, tmask = 1\<rparr> x} \<subseteq> {x. tnum_contains \<lparr>tvalue = 4, tmask = 3\<rparr> x}"
proof -
  have "tnum_wf \<lparr>tvalue = 4, tmask = 1\<rparr>" "tnum_subsumes \<lparr>tvalue = 4, tmask = 3\<rparr> \<lparr>tvalue = 4, tmask = 1\<rparr>"
    by code_simp+
  then show ?thesis using tnum_subsumes_correct by blast
qed

end
