(* ===== verification/Scalar.thy ===== *)
theory Scalar
  imports Tnum
begin

text \<open>
  The scalar bounds of \<open>src/src/state.rs\<close> (\<open>ScalarBounds\<close>): a signed and an unsigned 64-bit
  range, their 32-bit views and a tracked number, kept consistent by \<open>synced\<close>. The set of
  values a bound stands for is \<open>scalar_mem64\<close> (the ranges and the tracked number, which is what
  \<open>scalar_covers\<close> of \<open>src/src/concrete.rs\<close> tests on a precise scalar) and, with the 32-bit views,
  \<open>scalar_mem\<close>. The lemmas show that the sync neither drops nor adds a value.
\<close>

section \<open>The data and its operations\<close>

record scalar_bounds =
  smin :: i64
  smax :: i64
  umin :: u64
  umax :: u64
  s32_min :: i32
  s32_max :: i32
  u32_min :: u32
  u32_max :: u32
  stnum :: tnum
  precise :: bool
  sid :: u32
  delta :: i32

definition scalar_constant :: "i64 \<Rightarrow> scalar_bounds" where
  "scalar_constant v =
     \<lparr>smin = v, smax = v, umin = v, umax = v, s32_min = ucast v, s32_max = ucast v,
      u32_min = ucast v, u32_max = ucast v, stnum = tnum_constant v,
      precise = False, sid = 0, delta = 0\<rparr>"

definition scalar_unknown :: scalar_bounds where
  "scalar_unknown =
     \<lparr>smin = i64_MIN, smax = i64_MAX, umin = 0, umax = max_word_w, s32_min = i32_MIN,
      s32_max = i32_MAX, u32_min = 0, u32_max = max_word_w, stnum = tnum_unknown,
      precise = False, sid = 0, delta = 0\<rparr>"

text \<open>
  \<open>ScalarBounds::synced\<close> in its three parts: the 64-bit ranges, the 32-bit views derived from
  them, and the tracked number. An empty range is returned as it is.
\<close>

definition synced_ranges :: "scalar_bounds \<Rightarrow> scalar_bounds" where
  "synced_ranges b =
     (if 0 \<le>s smin b \<or> smax b <s 0 then
        let lo = max (smin b) (umin b); hi = min (smax b) (umax b)
        in b\<lparr>smin := lo, smax := hi, umin := lo, umax := hi\<rparr>
      else if umax b < push_bit 63 1 then
        b\<lparr>smin := umin b, smax := s_min (smax b) (umax b)\<rparr>
      else if push_bit 63 1 \<le> umin b then
        b\<lparr>smin := s_max (smin b) (umin b), smax := umax b\<rparr>
      else b)"

definition synced_u32 :: "scalar_bounds \<Rightarrow> scalar_bounds" where
  "synced_u32 b =
     (if drop_bit 32 (umin b) = drop_bit 32 (umax b)
      then b\<lparr>u32_min := ucast (umin b), u32_max := ucast (umax b)\<rparr>
      else b\<lparr>u32_min := 0, u32_max := max_word_w\<rparr>)"

definition synced_s32 :: "scalar_bounds \<Rightarrow> scalar_bounds" where
  "synced_s32 b =
     (if drop_bit 32 (smin b) = drop_bit 32 (smax b) then
        let lo = ucast (smin b); hi = ucast (smax b)
        in if lo \<le>s hi then b\<lparr>s32_min := lo, s32_max := hi\<rparr>
           else b\<lparr>s32_min := i32_MIN, s32_max := i32_MAX\<rparr>
      else b\<lparr>s32_min := i32_MIN, s32_max := i32_MAX\<rparr>)"

definition synced_tnum :: "scalar_bounds \<Rightarrow> scalar_bounds" where
  "synced_tnum b = b\<lparr>stnum := tnum_intersect (stnum b) (tnum_from_range (umin b) (umax b))\<rparr>"

definition synced :: "scalar_bounds \<Rightarrow> scalar_bounds" where
  "synced b =
     (if smax b <s smin b \<or> umax b < umin b then b
      else synced_tnum (synced_s32 (synced_u32 (synced_ranges b))))"

definition scalar_from_signed :: "i64 \<Rightarrow> i64 \<Rightarrow> scalar_bounds" where
  "scalar_from_signed mn mx =
     (let bounds =
        if mn <s 0 \<and> 0 \<le>s mx then
          \<lparr>smin = mn, smax = mx, umin = 0, umax = max_word_w, s32_min = i32_MIN,
           s32_max = i32_MAX, u32_min = 0, u32_max = max_word_w, stnum = tnum_unknown,
           precise = False, sid = 0, delta = 0\<rparr>
        else
          \<lparr>smin = mn, smax = mx, umin = mn, umax = mx, s32_min = i32_MIN,
           s32_max = i32_MAX, u32_min = 0, u32_max = max_word_w, stnum = tnum_unknown,
           precise = False, sid = 0, delta = 0\<rparr>
      in synced bounds)"

definition scalar_is_constant :: "scalar_bounds \<Rightarrow> bool" where
  "scalar_is_constant b \<longleftrightarrow> smin b = smax b \<and> umin b = umax b \<and> tnum_is_constant (stnum b)"

definition scalar_signed :: "scalar_bounds \<Rightarrow> i64 \<times> i64" where
  "scalar_signed b = (smin b, smax b)"

definition scalar_unsigned :: "scalar_bounds \<Rightarrow> u64 \<times> u64" where
  "scalar_unsigned b = (umin b, umax b)"

definition scalar_is_zero :: "scalar_bounds \<Rightarrow> bool" where
  "scalar_is_zero b \<longleftrightarrow> smin b = 0 \<and> smax b = 0 \<and> umin b = 0 \<and> umax b = 0"

definition scalar_covers :: "scalar_bounds \<Rightarrow> u64 \<Rightarrow> bool" where
  "scalar_covers b v \<longleftrightarrow>
     (if \<not> precise b then True
      else smin b \<le>s v \<and> v \<le>s smax b \<and> umin b \<le> v \<and> v \<le> umax b \<and> tnum_contains (stnum b) v)"

section \<open>The values a bound stands for\<close>

definition in_signed :: "scalar_bounds \<Rightarrow> i64 \<Rightarrow> bool" where
  "in_signed b x \<longleftrightarrow> sint (smin b) \<le> sint x \<and> sint x \<le> sint (smax b)"

definition in_unsigned :: "scalar_bounds \<Rightarrow> u64 \<Rightarrow> bool" where
  "in_unsigned b x \<longleftrightarrow> umin b \<le> x \<and> x \<le> umax b"

definition in_s32 :: "scalar_bounds \<Rightarrow> i32 \<Rightarrow> bool" where
  "in_s32 b x \<longleftrightarrow> sint (s32_min b) \<le> sint x \<and> sint x \<le> sint (s32_max b)"

definition in_u32 :: "scalar_bounds \<Rightarrow> u32 \<Rightarrow> bool" where
  "in_u32 b x \<longleftrightarrow> u32_min b \<le> x \<and> x \<le> u32_max b"

definition scalar_mem64 :: "scalar_bounds \<Rightarrow> u64 \<Rightarrow> bool" where
  "scalar_mem64 b x \<longleftrightarrow> in_signed b x \<and> in_unsigned b x \<and> tnum_contains (stnum b) x"

definition scalar_mem :: "scalar_bounds \<Rightarrow> u64 \<Rightarrow> bool" where
  "scalar_mem b x \<longleftrightarrow> scalar_mem64 b x \<and> in_s32 b (ucast x) \<and> in_u32 b (ucast x)"

definition scalar_wf :: "scalar_bounds \<Rightarrow> bool" where
  "scalar_wf b \<longleftrightarrow> tnum_wf (stnum b)"

lemmas in_range_defs = in_signed_def in_unsigned_def in_s32_def in_u32_def

lemma scalar_memD:
  assumes "scalar_mem b x"
  shows "in_signed b x" "in_unsigned b x" "in_s32 b (ucast x)" "in_u32 b (ucast x)"
    "tnum_contains (stnum b) x" "scalar_mem64 b x"
  using assms by (simp_all add: scalar_mem_def scalar_mem64_def)

lemma scalar_mem_covers: "scalar_mem64 b x \<Longrightarrow> scalar_covers b x"
  by (simp add: scalar_mem64_def scalar_covers_def in_range_defs word_sle_eq)

lemma scalar_covers_precise: "precise b \<Longrightarrow> scalar_covers b x \<longleftrightarrow> scalar_mem64 b x"
  by (auto simp: scalar_mem64_def scalar_covers_def in_range_defs word_sle_eq)

lemma sint_ge_i64_MIN [simp]: "- (2 ^ 63) \<le> sint x" "sint x \<le> 2 ^ 63 - 1" for x :: i64
  using sint64_bounds [of x] by simp_all

lemma scalar_mem_constant [simp]: "scalar_mem (scalar_constant v) x \<longleftrightarrow> x = v"
  by (auto simp: scalar_mem_def scalar_mem64_def in_range_defs scalar_constant_def)

lemma scalar_mem_unknown [simp]: "scalar_mem scalar_unknown x"
  using sint64_bounds [of x] sint32_bounds [of "ucast x"]
  by (simp add: scalar_mem_def scalar_mem64_def in_range_defs scalar_unknown_def)

section \<open>The sync\<close>

lemma synced_ranges_mem:
  assumes "in_unsigned b y" "in_signed b y"
  shows "in_signed (synced_ranges b) x \<and> in_unsigned (synced_ranges b) x \<longleftrightarrow>
         in_signed b x \<and> in_unsigned b x"
proof -
  consider (uncrossed) "0 \<le> sint (smin b) \<or> sint (smax b) < 0"
    | (nonneg) "sint (smin b) < 0" "0 \<le> sint (smax b)" "uint (umax b) < 2 ^ 63"
    | (neg) "sint (smin b) < 0" "0 \<le> sint (smax b)" "2 ^ 63 \<le> uint (umin b)"
    | (both) "sint (smin b) < 0" "0 \<le> sint (smax b)" "2 ^ 63 \<le> uint (umax b)" "uint (umin b) < 2 ^ 63"
    by linarith
  then show ?thesis
  proof cases
    case uncrossed
    then have r: "synced_ranges b = (let lo = max (smin b) (umin b); hi = min (smax b) (umax b)
        in b\<lparr>smin := lo, smax := hi, umin := lo, umax := hi\<rparr>)"
      by (auto simp: synced_ranges_def order_uint)
    have y: "smin b \<le> y" "y \<le> smax b" "umin b \<le> y" "y \<le> umax b" "sint (smin b) \<le> sint (smax b)"
      using assms signed_between64 [OF uncrossed, of y] by (auto simp: in_range_defs)
    then have u: "max (smin b) (umin b) \<le> min (smax b) (umax b)"
      by (meson max.bounded_iff min.bounded_iff order.trans)
    have "uint (min (smax b) (umax b)) < 2 ^ 63 \<or> 2 ^ 63 \<le> uint (max (smin b) (umin b))"
    proof -
      have "uint (smax b) < 2 ^ 63 \<or> 2 ^ 63 \<le> uint (smin b)"
        using uncrossed y(5) sint64_cases [of "smin b"] sint64_cases [of "smax b"]
        by (elim disjE conjE) linarith+
      then show ?thesis
        unfolding uint_min uint_max by (auto intro: min.strict_coboundedI1 max.coboundedI1)
    qed
    from unsigned_between64 [OF this, of x] u signed_between64 [OF uncrossed, of x] y(5)
    show ?thesis unfolding in_range_defs r Let_def by simp blast
  next
    case nonneg
    then have "synced_ranges b = b\<lparr>smin := umin b, smax := s_min (smax b) (umax b)\<rparr>"
      by (simp add: synced_ranges_def order_uint)
    moreover have "sint (smin b) \<le> uint x" using nonneg(1) uint64_bounds(1) [of x] by linarith
    ultimately show ?thesis
      using nonneg sint64_cases [of x] sint64_cases [of "umin b"] sint64_cases [of "umax b"] assms
      by (auto simp: in_range_defs word_le_def)
  next
    case neg
    then have "synced_ranges b = b\<lparr>smin := s_max (smin b) (umin b), smax := umax b\<rparr>"
      using assms by (auto simp: synced_ranges_def order_uint in_range_defs)
    moreover have "uint x - 2 ^ 64 \<le> sint (smax b)" using neg(2) uint64_bounds(2) [of x] by linarith
    ultimately show ?thesis
      using neg sint64_cases [of x] sint64_cases [of "umin b"] sint64_cases [of "umax b"] assms
      by (auto simp: in_range_defs word_le_def)
  next
    case both
    then show ?thesis by (simp add: synced_ranges_def order_uint)
  qed
qed

lemma synced_u32_view: "in_unsigned b x \<Longrightarrow> in_u32 (synced_u32 b) (ucast x)"
  using window32 [of "umin b" x "umax b"] by (simp add: in_range_defs synced_u32_def)

lemma synced_s32_view: "in_signed b x \<Longrightarrow> in_s32 (synced_s32 b) (ucast x)"
  using window32_signed [of "smin b" x "smax b"] sint32_bounds [of "ucast x"]
  by (simp add: in_range_defs synced_s32_def Let_def word_sle_eq)

lemma synced_parts [simp]:
  "smin (synced_u32 b) = smin b" "smax (synced_u32 b) = smax b"
  "umin (synced_u32 b) = umin b" "umax (synced_u32 b) = umax b"
  "stnum (synced_u32 b) = stnum b"
  "smin (synced_s32 b) = smin b" "smax (synced_s32 b) = smax b"
  "umin (synced_s32 b) = umin b" "umax (synced_s32 b) = umax b"
  "u32_min (synced_s32 b) = u32_min b" "u32_max (synced_s32 b) = u32_max b"
  "stnum (synced_s32 b) = stnum b"
  "smin (synced_tnum b) = smin b" "smax (synced_tnum b) = smax b"
  "umin (synced_tnum b) = umin b" "umax (synced_tnum b) = umax b"
  "s32_min (synced_tnum b) = s32_min b" "s32_max (synced_tnum b) = s32_max b"
  "u32_min (synced_tnum b) = u32_min b" "u32_max (synced_tnum b) = u32_max b"
  "stnum (synced_ranges b) = stnum b"
  by (simp_all add: synced_u32_def synced_s32_def synced_tnum_def synced_ranges_def Let_def)

lemma stnum_synced_tnum: "stnum (synced_tnum b) = tn.reduce (stnum b) (umin b) (umax b)"
  by (simp add: synced_tnum_def tn.reduce_def)

lemma scalar_wf_synced [wf_intros]: "scalar_wf b \<Longrightarrow> scalar_wf (synced b)"
  by (simp add: scalar_wf_def synced_def stnum_synced_tnum tn.reduce_wf)

lemma synced_nonempty:
  assumes "in_signed b x" "in_unsigned b x"
  shows "synced b = synced_tnum (synced_s32 (synced_u32 (synced_ranges b)))"
  using assms by (auto simp: synced_def in_range_defs order_uint)

lemma synced_sound:
  assumes "scalar_wf b" "scalar_mem64 b x"
  shows "scalar_mem (synced b) x"
proof -
  let ?r = "synced_ranges b"
  have m: "in_signed b x" "in_unsigned b x" "tnum_contains (stnum b) x"
    using assms(2) by (simp_all add: scalar_mem64_def)
  then have r: "in_signed ?r x" "in_unsigned ?r x"
    using synced_ranges_mem [of b x x] by simp_all
  have "tnum_contains (tn.reduce (stnum b) (umin ?r) (umax ?r)) x"
    using assms(1) m(3) r(2) by (intro tn.reduce_sound) (simp_all add: scalar_wf_def in_unsigned_def)
  then show ?thesis
    using r synced_u32_view [OF r(2)] synced_s32_view [of "synced_u32 ?r" x]
    by (simp add: synced_nonempty [OF m(1,2)] scalar_mem_def scalar_mem64_def in_range_defs stnum_synced_tnum)
qed

lemma synced_exact:
  assumes "scalar_wf b" "scalar_mem64 b y"
  shows "scalar_mem64 (synced b) x \<longleftrightarrow> scalar_mem64 b x"
proof
  assume s: "scalar_mem64 (synced b) x"
  let ?r = "synced_ranges b"
  have m: "in_signed b y" "in_unsigned b y" "tnum_contains (stnum b) y"
    using assms(2) by (simp_all add: scalar_mem64_def)
  have x: "in_signed ?r x" "in_unsigned ?r x" "tnum_contains (tn.reduce (stnum b) (umin ?r) (umax ?r)) x"
    using s by (simp_all add: synced_nonempty [OF m(1,2)] scalar_mem64_def in_range_defs stnum_synced_tnum)
  have "in_unsigned ?r y" using synced_ranges_mem [OF m(2,1), of y] m by simp
  then have "tnum_contains (stnum b) x"
    using tn.reduce_exact [OF _ m(3) _ _ x(3)] assms(1) by (simp add: scalar_wf_def in_unsigned_def)
  then show "scalar_mem64 b x"
    using x synced_ranges_mem [OF m(2,1), of x] by (simp add: scalar_mem64_def)
next
  assume "scalar_mem64 b x"
  then show "scalar_mem64 (synced b) x" using synced_sound [OF assms(1)] scalar_memD(6) by blast
qed

lemma scalar_wf_constant [wf_intros]: "scalar_wf (scalar_constant v)"
  by (simp add: scalar_wf_def scalar_constant_def wf_intros)

lemma scalar_wf_unknown [wf_intros]: "scalar_wf scalar_unknown"
  by (simp add: scalar_wf_def scalar_unknown_def wf_intros)

lemma scalar_wf_from_signed [wf_intros]: "scalar_wf (scalar_from_signed mn mx)"
  by (auto simp: scalar_from_signed_def Let_def scalar_wf_def wf_intros
      intro!: scalar_wf_synced [unfolded scalar_wf_def])

lemma scalar_from_signed_mem:
  assumes "sint mn \<le> sint x" "sint x \<le> sint mx"
  shows "scalar_mem (scalar_from_signed mn mx) x"
proof (cases "mn <s 0 \<and> 0 \<le>s mx")
  case True
  then show ?thesis
    using assms
    by (simp add: scalar_from_signed_def)
      (rule synced_sound; simp add: scalar_wf_def wf_intros scalar_mem64_def in_range_defs)
next
  case False
  then have "0 \<le> sint mn \<or> sint mx < 0" by (auto simp: order_uint)
  from signed_between64 [OF this, of x] have "mn \<le> x" "x \<le> mx" using assms by blast+
  then show ?thesis
    using assms False unfolding scalar_from_signed_def Let_def if_not_P [OF False]
    by (intro synced_sound) (simp_all add: scalar_wf_def wf_intros scalar_mem64_def in_range_defs)
qed

lemma scalar_is_constant_mem:
  assumes "scalar_is_constant b" "scalar_mem64 b x"
  shows "x = smin b" "x = umin b"
proof -
  show "x = umin b"
    using assms by (auto simp: scalar_is_constant_def scalar_mem64_def in_range_defs)
  have "sint x = sint (smin b)"
    using assms by (auto simp: scalar_is_constant_def scalar_mem64_def in_range_defs)
  then show "x = smin b" by (simp add: signed_word_eqI)
qed

lemma scalar_is_zero_mem: "scalar_is_zero b \<Longrightarrow> scalar_mem64 b x \<Longrightarrow> x = 0"
  by (auto simp: scalar_is_zero_def scalar_mem64_def in_range_defs)

section \<open>Properties\<close>

text \<open>
  C18: reconciling the five views of a scalar (\<open>synced\<close>) loses nothing and adds nothing: on a non-empty
  bound it keeps exactly the 64-bit values the signed range, the unsigned range and the tracked
  number agreed on, and the 32-bit views it derives cover the low halves of all of them.
\<close>

theorem synced_correct:
  assumes "scalar_wf b" "scalar_mem64 b y"
  shows "{x. scalar_mem64 (synced b) x} = {x. scalar_mem64 b x} \<and> {x. scalar_mem (synced b) x} = {x. scalar_mem64 b x}"
  using synced_exact [OF assms] synced_sound [OF assms(1)] by (auto dest: scalar_memD(6))

theorem synced_correct_witness:
  "scalar_mem (synced (scalar_unknown\<lparr>umin := 3, umax := 9\<rparr>)) 7"
proof -
  let ?b = "scalar_unknown\<lparr>umin := 3, umax := 9\<rparr>"
  have "scalar_wf ?b" "scalar_mem64 ?b 7" by code_simp+
  then show ?thesis using synced_correct [of ?b 7] by blast
qed

end
