(* ===== verification/Prog_Ctx.thy ===== *)
theory Prog_Ctx
  imports Prelude
begin

text \<open>
  Program types (\<open>src/src/prog_type.rs\<close>) and the context-access model they select
  (\<open>src/src/ctx.rs\<close>): a table-driven answer to a read of a number of bytes at an offset of the
  program context. The lemmas show that the ABI numbers round-trip and that a read the model
  answers with a scalar stays inside the context structure and is aligned.
\<close>

section \<open>Program types\<close>

datatype prog_type =
  SocketFilter | Kprobe | SchedCls | SchedAct | TracePoint | Xdp | PerfEvent | CgroupSkb | CgroupSock
  | SockOps | SkSkb | CgroupDevice | RawTracePoint | CgroupSockAddr | CgroupSysctl | CgroupSockopt
  | Tracing | Ext | Lsm | SkLookup | Syscall | Other u32

fun prog_type_id :: "prog_type \<Rightarrow> u32" where
  "prog_type_id SocketFilter = 1"
| "prog_type_id Kprobe = 2"
| "prog_type_id SchedCls = 3"
| "prog_type_id SchedAct = 4"
| "prog_type_id TracePoint = 5"
| "prog_type_id Xdp = 6"
| "prog_type_id PerfEvent = 7"
| "prog_type_id CgroupSkb = 8"
| "prog_type_id CgroupSock = 9"
| "prog_type_id SockOps = 13"
| "prog_type_id SkSkb = 14"
| "prog_type_id CgroupDevice = 15"
| "prog_type_id RawTracePoint = 17"
| "prog_type_id CgroupSockAddr = 18"
| "prog_type_id CgroupSysctl = 23"
| "prog_type_id CgroupSockopt = 25"
| "prog_type_id Tracing = 26"
| "prog_type_id Ext = 28"
| "prog_type_id Lsm = 29"
| "prog_type_id SkLookup = 30"
| "prog_type_id Syscall = 31"
| "prog_type_id (Other i) = i"

definition prog_type_table :: "(u32 \<times> prog_type) list" where
  "prog_type_table =
     [(1, SocketFilter), (2, Kprobe), (3, SchedCls), (4, SchedAct), (5, TracePoint), (6, Xdp),
      (7, PerfEvent), (8, CgroupSkb), (9, CgroupSock), (13, SockOps), (14, SkSkb),
      (15, CgroupDevice), (17, RawTracePoint), (18, CgroupSockAddr), (23, CgroupSysctl),
      (25, CgroupSockopt), (26, Tracing), (28, Ext), (29, Lsm), (30, SkLookup), (31, Syscall)]"

definition prog_type_from_id :: "u32 \<Rightarrow> prog_type" where
  "prog_type_from_id i = (case map_of prog_type_table i of Some t \<Rightarrow> t | None \<Rightarrow> Other i)"

fun prog_type_name :: "prog_type \<Rightarrow> string" where
  "prog_type_name SocketFilter = ''BPF_PROG_TYPE_SOCKET_FILTER''"
| "prog_type_name Kprobe = ''BPF_PROG_TYPE_KPROBE''"
| "prog_type_name SchedCls = ''BPF_PROG_TYPE_SCHED_CLS''"
| "prog_type_name SchedAct = ''BPF_PROG_TYPE_SCHED_ACT''"
| "prog_type_name TracePoint = ''BPF_PROG_TYPE_TRACEPOINT''"
| "prog_type_name Xdp = ''BPF_PROG_TYPE_XDP''"
| "prog_type_name PerfEvent = ''BPF_PROG_TYPE_PERF_EVENT''"
| "prog_type_name CgroupSkb = ''BPF_PROG_TYPE_CGROUP_SKB''"
| "prog_type_name CgroupSock = ''BPF_PROG_TYPE_CGROUP_SOCK''"
| "prog_type_name SockOps = ''BPF_PROG_TYPE_SOCK_OPS''"
| "prog_type_name SkSkb = ''BPF_PROG_TYPE_SK_SKB''"
| "prog_type_name CgroupDevice = ''BPF_PROG_TYPE_CGROUP_DEVICE''"
| "prog_type_name RawTracePoint = ''BPF_PROG_TYPE_RAW_TRACEPOINT''"
| "prog_type_name CgroupSockAddr = ''BPF_PROG_TYPE_CGROUP_SOCK_ADDR''"
| "prog_type_name CgroupSysctl = ''BPF_PROG_TYPE_CGROUP_SYSCTL''"
| "prog_type_name CgroupSockopt = ''BPF_PROG_TYPE_CGROUP_SOCKOPT''"
| "prog_type_name Tracing = ''BPF_PROG_TYPE_TRACING''"
| "prog_type_name Ext = ''BPF_PROG_TYPE_EXT''"
| "prog_type_name Lsm = ''BPF_PROG_TYPE_LSM''"
| "prog_type_name SkLookup = ''BPF_PROG_TYPE_SK_LOOKUP''"
| "prog_type_name Syscall = ''BPF_PROG_TYPE_SYSCALL''"
| "prog_type_name (Other i) = ''BPF_PROG_TYPE_UNKNOWN''"

section \<open>The context model\<close>

datatype ctx_model = Ctx_SocketFilter | Ctx_SchedCls | Ctx_Xdp | Ctx_TracePoint

datatype ctx_error = Ctx_Invalid | Ctx_Unmodeled string

datatype ctx_access = Ctx_Scalar | Ctx_Pointer string

definition prog_ctx_model :: "prog_type \<Rightarrow> ctx_model option" where
  "prog_ctx_model t =
     (case t of
        SocketFilter \<Rightarrow> Some Ctx_SocketFilter
      | SchedCls \<Rightarrow> Some Ctx_SchedCls
      | SchedAct \<Rightarrow> Some Ctx_SchedCls
      | CgroupSkb \<Rightarrow> Some Ctx_SchedCls
      | Xdp \<Rightarrow> Some Ctx_Xdp
      | TracePoint \<Rightarrow> Some Ctx_TracePoint
      | _ \<Rightarrow> None)"

abbreviation "SK_BUFF_SIZE \<equiv> (192 :: int)"
abbreviation "PERF_MAX_TRACE_SIZE \<equiv> (8192 :: int)"
abbreviation "XDP_MD_SIZE \<equiv> (24 :: int)"

text \<open>
  An offset is a signed and a size an unsigned 32-bit integer; the guards keep the sums and
  remainders below in range, so they are taken in \<open>int\<close>. A size of zero divides by zero in the
  sources where no guard precedes it (\<open>xdp_read\<close>); the callers pass 1, 2, 4 or 8.
\<close>

definition pointer_field :: "bool \<Rightarrow> string \<Rightarrow> (ctx_error, ctx_access) res" where
  "pointer_field ok name = (if ok then Err (Ctx_Unmodeled name) else Err Ctx_Invalid)"

definition skb_read :: "int \<Rightarrow> int \<Rightarrow> bool \<Rightarrow> (ctx_error, ctx_access) res" where
  "skb_read off sz socket_filter =
     (if \<not> (0 \<le> off \<and> off < SK_BUFF_SIZE) \<or> sz = 0 \<or> off mod sz \<noteq> 0 then Err Ctx_Invalid
      else if off = 76 then pointer_field (sz = 4) ''__sk_buff.data''
      else if off = 80 then pointer_field (sz = 4) ''__sk_buff.data_end''
      else if off = 140 then pointer_field (sz = 4) ''__sk_buff.data_meta''
      else if off = 144 then Err Ctx_Invalid
      else if off = 168 then pointer_field (sz = 8) ''__sk_buff.sk''
      else if socket_filter \<and> off = 72 then Err Ctx_Invalid
      else if 88 \<le> off \<and> off \<le> 139 then Err Ctx_Invalid
      else if socket_filter \<and> (off = 152 \<or> off = 160 \<or> off = 184) then Err Ctx_Invalid
      else if off = 180 then (if sz = 1 \<and> \<not> socket_filter then Ok Ctx_Scalar else Err Ctx_Invalid)
      else if 181 \<le> off \<and> off \<le> 183 then Err Ctx_Invalid
      else if off = 152 \<or> off = 184 then (if sz = 8 then Ok Ctx_Scalar else Err Ctx_Invalid)
      else if 4 < sz \<or> 4 < off mod 4 + sz then Err Ctx_Invalid
      else Ok Ctx_Scalar)"

definition xdp_read :: "int \<Rightarrow> int \<Rightarrow> (ctx_error, ctx_access) res" where
  "xdp_read off sz =
     (if \<not> (0 \<le> off \<and> off < XDP_MD_SIZE) \<or> off mod sz \<noteq> 0 \<or> sz \<noteq> 4 then Err Ctx_Invalid
      else if off = 0 then Err (Ctx_Unmodeled ''xdp_md.data'')
      else if off = 4 then Err (Ctx_Unmodeled ''xdp_md.data_end'')
      else if off = 8 then Err (Ctx_Unmodeled ''xdp_md.data_meta'')
      else if off = 20 then Err (Ctx_Unmodeled ''xdp_md.egress_ifindex'')
      else Ok Ctx_Scalar)"

definition tracepoint_read :: "int \<Rightarrow> int \<Rightarrow> (ctx_error, ctx_access) res" where
  "tracepoint_read off sz =
     (let valid_size = (sz = 1 \<or> sz = 2 \<or> sz = 4 \<or> sz = 8)
      in if \<not> (8 \<le> off \<and> off < PERF_MAX_TRACE_SIZE) \<or> \<not> valid_size \<or> off mod sz \<noteq> 0
         then Err Ctx_Invalid else Ok Ctx_Scalar)"

definition ctx_read_access :: "prog_type \<Rightarrow> i32 \<Rightarrow> u32 \<Rightarrow> (ctx_error, ctx_access) res" where
  "ctx_read_access prog off sz =
     (case prog_ctx_model prog of
        None \<Rightarrow> Err (Ctx_Unmodeled ''program type'')
      | Some Ctx_SocketFilter \<Rightarrow> skb_read (sint off) (uint sz) True
      | Some Ctx_SchedCls \<Rightarrow> skb_read (sint off) (uint sz) False
      | Some Ctx_Xdp \<Rightarrow> xdp_read (sint off) (uint sz)
      | Some Ctx_TracePoint \<Rightarrow> tracepoint_read (sint off) (uint sz))"

text \<open>The size of the context structure a program type reads from.\<close>

fun ctx_size :: "ctx_model \<Rightarrow> int" where
  "ctx_size Ctx_SocketFilter = SK_BUFF_SIZE"
| "ctx_size Ctx_SchedCls = SK_BUFF_SIZE"
| "ctx_size Ctx_Xdp = XDP_MD_SIZE"
| "ctx_size Ctx_TracePoint = PERF_MAX_TRACE_SIZE"

section \<open>Lemmas\<close>

lemma prog_type_from_id_id: "prog_type_id (prog_type_from_id i) = i"
proof (cases "map_of prog_type_table i")
  case (Some t)
  then have "(i, t) \<in> set prog_type_table" by (rule map_of_SomeD)
  then show ?thesis using Some by (auto simp: prog_type_from_id_def prog_type_table_def)
qed (simp add: prog_type_from_id_def)

lemma prog_type_id_from_id:
  "(\<forall>i. t \<noteq> Other i) \<Longrightarrow> prog_type_from_id (prog_type_id t) = t"
  by (cases t) (simp_all add: prog_type_from_id_def prog_type_table_def)

lemma aligned_end_le:
  fixes off sz n :: int
  assumes "0 < sz" "off < n" "sz dvd off" "sz dvd n"
  shows "off + sz \<le> n"
proof -
  obtain a b where "off = sz * a" "n = sz * b" using assms(3,4) by (auto elim!: dvdE)
  then have "a < b" using assms(1,2) by simp
  then have "sz * (a + 1) \<le> sz * b" using assms(1) by (intro mult_left_mono) simp_all
  then show ?thesis by (simp add: \<open>off = _\<close> \<open>n = _\<close> algebra_simps)
qed

lemma skb_read_bounds:
  assumes "skb_read off sz sf = Ok Ctx_Scalar" "sz \<in> {1, 2, 4, 8}"
  shows "0 \<le> off \<and> off + sz \<le> SK_BUFF_SIZE \<and> sz dvd off"
proof -
  have o: "0 \<le> off" "off < SK_BUFF_SIZE" "sz dvd off"
    using assms(1) by (auto simp: skb_read_def split: if_splits)
  moreover have "sz dvd SK_BUFF_SIZE" using assms(2) by auto
  ultimately show ?thesis using aligned_end_le [of sz off SK_BUFF_SIZE] assms(2) by auto
qed

lemma xdp_read_bounds:
  assumes "xdp_read off sz = Ok Ctx_Scalar"
  shows "0 \<le> off \<and> off + sz \<le> XDP_MD_SIZE \<and> sz dvd off"
proof -
  have o: "0 \<le> off" "off < XDP_MD_SIZE" "sz dvd off" "sz = 4"
    using assms by (auto simp: xdp_read_def split: if_splits)
  then show ?thesis using aligned_end_le [of sz off XDP_MD_SIZE] by auto
qed

lemma tracepoint_read_bounds:
  assumes "tracepoint_read off sz = Ok Ctx_Scalar"
  shows "0 \<le> off \<and> off + sz \<le> PERF_MAX_TRACE_SIZE \<and> sz dvd off"
proof -
  have o: "8 \<le> off" "off < PERF_MAX_TRACE_SIZE" "sz dvd off" "sz \<in> {1, 2, 4, 8}"
    using assms by (auto simp: tracepoint_read_def Let_def split: if_splits)
  moreover have "sz dvd PERF_MAX_TRACE_SIZE" using o(4) by auto
  ultimately show ?thesis using aligned_end_le [of sz off PERF_MAX_TRACE_SIZE] by auto
qed

lemma ctx_read_bounds:
  assumes "ctx_read_access prog off sz = Ok Ctx_Scalar" "uint sz \<in> {1, 2, 4, 8}"
  shows "\<exists>m. prog_ctx_model prog = Some m \<and> 0 \<le> sint off \<and> sint off + uint sz \<le> ctx_size m \<and> uint sz dvd sint off"
  using assms skb_read_bounds [OF _ assms(2)] xdp_read_bounds tracepoint_read_bounds
  by (auto simp: ctx_read_access_def split: option.splits ctx_model.splits)

section \<open>Properties\<close>

text \<open>
  The numeric identifiers of program types round-trip: every identifier is kept by decoding and
  encoding, and every named type by encoding and decoding.
\<close>

theorem prog_type_roundtrip:
  "prog_type_id (prog_type_from_id i) = i \<and> ((\<exists>j. t = Other j) \<or> prog_type_from_id (prog_type_id t) = t)"
  using prog_type_from_id_id prog_type_id_from_id by blast

text \<open>
  C33: a context read the verifier lets through as a plain value is aligned and lies within the context
  structure of the program type.
\<close>

theorem ctx_read_safe:
  assumes "ctx_read_access prog off sz = Ok Ctx_Scalar" "uint sz \<in> {1, 2, 4, 8}"
  shows "\<exists>m. prog_ctx_model prog = Some m \<and> 0 \<le> sint off \<and> sint off + uint sz \<le> ctx_size m \<and> uint sz dvd sint off"
  using assms by (rule ctx_read_bounds)

theorem ctx_read_safe_witness:
  "\<exists>m. prog_ctx_model SocketFilter = Some m \<and> 0 \<le> sint (16 :: i32) \<and> sint (16 :: i32) + uint (4 :: u32) \<le> ctx_size m \<and>
     uint (4 :: u32) dvd sint (16 :: i32)"
proof -
  have "ctx_read_access SocketFilter 16 4 = Ok Ctx_Scalar" by code_simp
  then show ?thesis by (rule ctx_read_safe) simp
qed

end
