(* ===== verification/Reg_State.thy ===== *)
theory Reg_State
  imports Scalar Prog_Ctx
begin

text \<open>
  The abstract machine state of \<open>src/src/state.rs\<close>: registers, stack bytes and spills, frames of
  active subprogram calls, references. The fixed-size arrays of the sources are lists with their
  length in the invariant \<open>vstate_wf\<close>. Entering and leaving a subprogram is described as a step
  relation; the lemmas show that every reachable state keeps the invariant, that a call followed
  by its return restores the caller, and that the saved frames implement a stack of return
  addresses. A failure carries the instruction index and a message constructor per message of
  the sources, with the values the message interpolates.
\<close>

section \<open>Data\<close>

datatype 'm failure = Failure (insn_idx: u32) (message: 'm)

datatype reg_state =
    Uninit
  | Scalar scalar_bounds
  | PtrToStack (ps_min: i32) (ps_max: i32) (ps_align: u8) (ps_frameno: u8)
  | PtrToCtx i32
  | PtrToMap u32 u32 u8
  | PtrToMapValue i32 i32 u8 u32 u32
  | PtrToMapValueOrNull u32 u32
  | PtrToMem i32 i32 u8 u32 u32
  | PtrToMemOrNull u32 u32 u32
  | PtrToBtfId u32 u32

record dynptr_state =
  dyn_size :: u32
  dyn_id :: u32

datatype stack_byte = SB_Invalid | SB_Misc | SB_Zero | SB_Spill | SB_Dynptr

record stack_state =
  sbytes :: "stack_byte list"
  spilled :: "reg_state option list"
  dynptrs :: "dynptr_state option list"

record frame_state =
  fr_regs :: "reg_state list"
  fr_stack :: stack_state
  fr_ret_pc :: u32

record verifier_state =
  regs :: "reg_state list"
  stack :: stack_state
  saved :: "frame_state option list"
  curframe :: u8
  ret_pc :: u32
  refs :: "u32 list"
  refs_cnt :: u8
  vprog_type :: prog_type

abbreviation "NUM_REGS \<equiv> (11 :: nat)"
abbreviation "STACK_SIZE \<equiv> (512 :: nat)"
abbreviation "STACK_SLOTS \<equiv> (64 :: nat)"
abbreviation "MAX_CALL_FRAMES \<equiv> (16 :: nat)"
abbreviation "MAX_REFS \<equiv> (8 :: nat)"
abbreviation "ALIGN_UNKNOWN \<equiv> (0xFF :: u8)"

definition initial_reg_state :: "reg_state list" where
  "initial_reg_state = (replicate NUM_REGS Uninit)[1 := PtrToCtx 0, 10 := PtrToStack 0 0 0 0]"

definition stack_new :: stack_state where
  "stack_new =
     \<lparr>sbytes = replicate STACK_SIZE SB_Invalid, spilled = replicate STACK_SLOTS None,
      dynptrs = replicate STACK_SLOTS None\<rparr>"

definition frame_new :: frame_state where
  "frame_new = \<lparr>fr_regs = initial_reg_state, fr_stack = stack_new, fr_ret_pc = 0\<rparr>"

definition initial_with :: "prog_type \<Rightarrow> verifier_state" where
  "initial_with t =
     \<lparr>regs = initial_reg_state, stack = stack_new, saved = replicate (MAX_CALL_FRAMES - 1) None,
      curframe = 0, ret_pc = 0, refs = replicate MAX_REFS 0, refs_cnt = 0, vprog_type = t\<rparr>"

definition vstate_initial :: verifier_state where
  "vstate_initial = initial_with SocketFilter"

section \<open>Subprogram calls\<close>

definition set_frameno :: "u8 \<Rightarrow> reg_state \<Rightarrow> reg_state" where
  "set_frameno f r = (case r of PtrToStack mn mx al _ \<Rightarrow> PtrToStack mn mx al f | _ \<Rightarrow> r)"

definition callee_regs :: "reg_state list \<Rightarrow> u8 \<Rightarrow> reg_state list" where
  "callee_regs rs depth =
     (let callee = fr_regs frame_new;
          callee = callee[1 := rs ! 1, 2 := rs ! 2, 3 := rs ! 3, 4 := rs ! 4, 5 := rs ! 5]
      in callee[10 := set_frameno depth (callee ! 10)])"

definition call_subprog :: "u32 \<Rightarrow> verifier_state \<Rightarrow> (string, verifier_state) res" where
  "call_subprog return_pc s =
     (if MAX_CALL_FRAMES - 1 \<le> unat (curframe s)
      then Err ''the call stack of 16 frames is too deep''
      else
        let depth = curframe s + 1
        in Ok (s\<lparr>saved := (saved s)[unat (curframe s) :=
                    Some \<lparr>fr_regs = regs s, fr_stack = stack s, fr_ret_pc = ret_pc s\<rparr>],
                 curframe := depth,
                 regs := callee_regs (regs s) depth,
                 stack := fr_stack frame_new,
                 ret_pc := return_pc\<rparr>))"

definition clobber_args :: "reg_state list \<Rightarrow> reg_state \<Rightarrow> reg_state list" where
  "clobber_args rs r0 = rs[0 := r0, 1 := Uninit, 2 := Uninit, 3 := Uninit, 4 := Uninit, 5 := Uninit]"

text \<open>
  A return from the main program yields nothing. The second early return of the sources, on a
  missing caller frame, happens after the depth has been decremented; the caller drops the state
  in that case.
\<close>

definition return_from_subprog :: "verifier_state \<Rightarrow> verifier_state option" where
  "return_from_subprog s =
     (if curframe s = 0 then None
      else
        let r0 = regs s ! 0; depth = curframe s - 1
        in case saved s ! unat depth of
             None \<Rightarrow> None
           | Some caller \<Rightarrow>
               Some (s\<lparr>curframe := depth,
                       saved := (saved s)[unat depth := None],
                       ret_pc := fr_ret_pc caller,
                       regs := clobber_args (fr_regs caller) r0,
                       stack := fr_stack caller\<rparr>))"

section \<open>Register access\<close>

datatype reg_msg =
    InvalidReg u8
  | UninitReg u8
  | NotScalar u8

definition check_reg :: "u32 \<Rightarrow> u8 \<Rightarrow> (reg_msg failure, unit) res" where
  "check_reg pc r = (if NUM_REGS \<le> unat r then Err (Failure pc (InvalidReg r)) else Ok ())"

definition read_reg :: "u32 \<Rightarrow> verifier_state \<Rightarrow> u8 \<Rightarrow> (reg_msg failure, reg_state) res" where
  "read_reg pc s r =
     rbind (check_reg pc r) (\<lambda>_.
     case regs s ! unat r of
       Uninit \<Rightarrow> Err (Failure pc (UninitReg r))
     | other \<Rightarrow> Ok other)"

definition read_scalar :: "u32 \<Rightarrow> verifier_state \<Rightarrow> u8 \<Rightarrow> (reg_msg failure, scalar_bounds) res" where
  "read_scalar pc s r =
     rbind (read_reg pc s r) (\<lambda>v.
     case v of Scalar b \<Rightarrow> Ok b | _ \<Rightarrow> Err (Failure pc (NotScalar r)))"

section \<open>The invariant\<close>

definition stack_wf :: "stack_state \<Rightarrow> bool" where
  "stack_wf st \<longleftrightarrow>
     length (sbytes st) = STACK_SIZE \<and> length (spilled st) = STACK_SLOTS \<and> length (dynptrs st) = STACK_SLOTS"

definition frame_wf :: "frame_state \<Rightarrow> bool" where
  "frame_wf f \<longleftrightarrow> length (fr_regs f) = NUM_REGS \<and> stack_wf (fr_stack f)"

definition vstate_wf :: "verifier_state \<Rightarrow> bool" where
  "vstate_wf s \<longleftrightarrow>
     length (regs s) = NUM_REGS \<and> stack_wf (stack s) \<and>
     length (saved s) = MAX_CALL_FRAMES - 1 \<and> length (refs s) = MAX_REFS \<and>
     unat (curframe s) < MAX_CALL_FRAMES \<and>
     (\<forall>i<MAX_CALL_FRAMES - 1.
        (i < unat (curframe s) \<longrightarrow> (\<exists>f. saved s ! i = Some f \<and> frame_wf f)) \<and>
        (unat (curframe s) \<le> i \<longrightarrow> saved s ! i = None))"

lemma vstate_wf_initial: "vstate_wf (initial_with t)"
  by (simp add: vstate_wf_def initial_with_def stack_wf_def stack_new_def initial_reg_state_def)

lemma stack_wf_new: "stack_wf stack_new"
  by (simp add: stack_wf_def stack_new_def)

lemma length_callee_regs: "length (callee_regs rs d) = NUM_REGS"
  by (simp add: callee_regs_def frame_new_def initial_reg_state_def Let_def)

lemma unat_succ8: "unat c < 255 \<Longrightarrow> unat (c + 1) = unat c + 1" for c :: u8
  by (simp add: unat_word_ariths)

lemma unat_pred8: "c \<noteq> 0 \<Longrightarrow> unat (c - 1) = unat c - 1" for c :: u8
  by (simp add: unat_minus_one)

lemma call_subprog_Ok_iff:
  "call_subprog rp s = Ok s' \<longleftrightarrow>
   unat (curframe s) < MAX_CALL_FRAMES - 1 \<and>
   s' = s\<lparr>saved := (saved s)[unat (curframe s) :=
             Some \<lparr>fr_regs = regs s, fr_stack = stack s, fr_ret_pc = ret_pc s\<rparr>],
          curframe := curframe s + 1, regs := callee_regs (regs s) (curframe s + 1),
          stack := stack_new, ret_pc := rp\<rparr>"
  by (auto simp: call_subprog_def Let_def frame_new_def)

lemma vstate_wf_call:
  assumes "vstate_wf s" "call_subprog rp s = Ok s'"
  shows "vstate_wf s'"
proof -
  have c: "unat (curframe s) < MAX_CALL_FRAMES - 1" "unat (curframe s + 1) = unat (curframe s) + 1"
    using assms(2) unat_succ8 [of "curframe s"] by (simp_all add: call_subprog_Ok_iff)
  show ?thesis
    using assms c unfolding call_subprog_Ok_iff vstate_wf_def
    by (auto simp: length_callee_regs stack_wf_new frame_wf_def nth_list_update less_Suc_eq)
qed

lemma return_from_subprog_Some_iff:
  "return_from_subprog s = Some s' \<longleftrightarrow>
   curframe s \<noteq> 0 \<and>
   (\<exists>caller. saved s ! (unat (curframe s) - 1) = Some caller \<and>
     s' = s\<lparr>curframe := curframe s - 1, saved := (saved s)[unat (curframe s) - 1 := None],
            ret_pc := fr_ret_pc caller, regs := clobber_args (fr_regs caller) (regs s ! 0),
            stack := fr_stack caller\<rparr>)"
  by (auto simp: return_from_subprog_def Let_def unat_pred8 split: option.splits)

lemma vstate_wf_saved:
  assumes "vstate_wf s" "i < unat (curframe s)"
  shows "\<exists>f. saved s ! i = Some f \<and> frame_wf f"
proof -
  have "i < MAX_CALL_FRAMES - 1" using assms unfolding vstate_wf_def by linarith
  then show ?thesis using assms unfolding vstate_wf_def by blast
qed

lemma vstate_wf_return:
  assumes "vstate_wf s" "return_from_subprog s = Some s'"
  shows "vstate_wf s'"
proof -
  obtain caller where caller: "curframe s \<noteq> 0" "saved s ! (unat (curframe s) - 1) = Some caller"
    and s': "s' = s\<lparr>curframe := curframe s - 1, saved := (saved s)[unat (curframe s) - 1 := None],
            ret_pc := fr_ret_pc caller, regs := clobber_args (fr_regs caller) (regs s ! 0),
            stack := fr_stack caller\<rparr>"
    using assms(2) by (auto simp: return_from_subprog_Some_iff)
  have pos: "0 < unat (curframe s)" using caller(1) by (simp add: unat_gt_0)
  have "frame_wf caller"
    using vstate_wf_saved [OF assms(1), of "unat (curframe s) - 1"] caller pos by auto
  then show ?thesis
    using assms(1) caller pos unfolding s' vstate_wf_def
    by (auto simp: frame_wf_def clobber_args_def nth_list_update unat_pred8)
qed

lemma return_total:
  assumes "vstate_wf s" "curframe s \<noteq> 0"
  shows "\<exists>s'. return_from_subprog s = Some s'"
proof -
  have "0 < unat (curframe s)" using assms(2) by (simp add: unat_gt_0)
  then obtain f where "saved s ! (unat (curframe s) - 1) = Some f"
    using vstate_wf_saved [OF assms(1), of "unat (curframe s) - 1"] by auto
  then show ?thesis using assms(2) by (auto simp: return_from_subprog_Some_iff)
qed

section \<open>The stack of frames\<close>

text \<open>
  The contract of a stack of frames: entering pushes the current frame, leaving pops one, and
  what a frame does in between leaves the stack alone. A run that never leaves more frames than
  it entered preserves the frames below it.
\<close>

datatype 'a frame_label = L_Enter 'a | L_Leave | L_Body

locale frame_discipline =
  fixes ok :: "'s \<Rightarrow> bool"
    and frames :: "'s \<Rightarrow> 'f list"
    and step :: "'s \<Rightarrow> 'a frame_label \<Rightarrow> 's \<Rightarrow> bool"
  assumes step_ok: "ok s \<Longrightarrow> step s l s' \<Longrightarrow> ok s'"
    and enter_frames: "ok s \<Longrightarrow> step s (L_Enter a) s' \<Longrightarrow> \<exists>f. frames s' = frames s @ [f]"
    and leave_frames: "ok s \<Longrightarrow> step s L_Leave s' \<Longrightarrow> \<exists>f. frames s = frames s' @ [f]"
    and body_frames: "ok s \<Longrightarrow> step s L_Body s' \<Longrightarrow> frames s' = frames s"
begin

inductive run :: "'s \<Rightarrow> 'a frame_label list \<Rightarrow> 's \<Rightarrow> bool" where
  run_Nil: "run s [] s"
| run_Cons: "step s l t \<Longrightarrow> run t ls u \<Longrightarrow> run s (l # ls) u"

fun level :: "'a frame_label list \<Rightarrow> nat \<Rightarrow> nat option" where
  "level [] n = Some n"
| "level (L_Enter a # ls) n = level ls (Suc n)"
| "level (L_Leave # ls) n = (if n = 0 then None else level ls (n - 1))"
| "level (L_Body # ls) n = level ls n"

lemma run_ok: "run s ls t \<Longrightarrow> ok s \<Longrightarrow> ok t"
  by (induction rule: run.induct) (auto dest: step_ok)

lemma run_frames:
  assumes "run s ls t" "ok s" "level ls n = Some m" "frames s = fs @ gs" "length gs = n"
  shows "\<exists>hs. frames t = fs @ hs \<and> length hs = m"
  using assms
proof (induction arbitrary: n gs rule: run.induct)
  case (run_Nil s)
  then show ?case by simp
next
  case (run_Cons s l t ls u)
  have t: "ok t" by (rule step_ok [OF run_Cons.prems(1) run_Cons.hyps(1)])
  show ?case
  proof (cases l)
    case (L_Enter a)
    then obtain f where "frames t = fs @ gs @ [f]"
      using enter_frames run_Cons.hyps(1) run_Cons.prems(1,3) by fastforce
    then show ?thesis
      using run_Cons.IH [OF t, of "Suc n" "gs @ [f]"] run_Cons.prems(2,4) L_Enter by simp
  next
    case L_Leave
    then obtain f where "frames s = frames t @ [f]"
      using leave_frames [of s t] run_Cons.hyps(1) run_Cons.prems(1) by blast
    then have f: "fs @ gs = frames t @ [f]" and n: "n \<noteq> 0"
      using run_Cons.prems(2,3) L_Leave by (auto split: if_splits)
    then obtain gs' x where "gs = gs' @ [x]"
      using run_Cons.prems(4) by (cases gs rule: rev_cases) auto
    then show ?thesis
      using run_Cons.IH [OF t, of "n - 1" gs'] f n run_Cons.prems(2,4) L_Leave by simp
  next
    case L_Body
    then have "frames t = fs @ gs"
      using body_frames run_Cons.hyps(1) run_Cons.prems(1,3) by fastforce
    then show ?thesis
      using run_Cons.IH [OF t, of n gs] run_Cons.prems(2,4) L_Body by simp
  qed
qed

lemma balanced_frames:
  "run s ls t \<Longrightarrow> ok s \<Longrightarrow> level ls 0 = Some 0 \<Longrightarrow> frames t = frames s"
  using run_frames [of s ls t 0 0 "frames s" "[]"] by simp

end

definition frames_of :: "verifier_state \<Rightarrow> frame_state list" where
  "frames_of s = map the (take (unat (curframe s)) (saved s))"

definition cur_frame :: "verifier_state \<Rightarrow> frame_state" where
  "cur_frame s = \<lparr>fr_regs = regs s, fr_stack = stack s, fr_ret_pc = ret_pc s\<rparr>"

text \<open>
  The frame steps of the executor: a call, a return, and anything else, which replaces the
  registers and the stack of the current frame.
\<close>

inductive fstep :: "verifier_state \<Rightarrow> u32 frame_label \<Rightarrow> verifier_state \<Rightarrow> bool" where
  fs_call: "call_subprog rp s = Ok s' \<Longrightarrow> fstep s (L_Enter rp) s'"
| fs_return: "return_from_subprog s = Some s' \<Longrightarrow> fstep s L_Leave s'"
| fs_body: "length rs = NUM_REGS \<Longrightarrow> stack_wf st \<Longrightarrow> fstep s L_Body (s\<lparr>regs := rs, stack := st\<rparr>)"

inductive_cases fstep_callE: "fstep s (L_Enter rp) s'"
inductive_cases fstep_returnE: "fstep s L_Leave s'"
inductive_cases fstep_bodyE: "fstep s L_Body s'"

lemma frames_of_call:
  assumes "vstate_wf s" "call_subprog rp s = Ok s'"
  shows "frames_of s' = frames_of s @ [cur_frame s]"
proof -
  have c: "unat (curframe s) < MAX_CALL_FRAMES - 1" "unat (curframe s + 1) = Suc (unat (curframe s))"
    using assms(2) unat_succ8 [of "curframe s"] by (simp_all add: call_subprog_Ok_iff)
  then show ?thesis
    using assms by (simp add: call_subprog_Ok_iff frames_of_def cur_frame_def vstate_wf_def take_Suc_conv_app_nth)
qed

lemma frames_of_return:
  assumes "vstate_wf s" "return_from_subprog s = Some s'"
  shows "\<exists>caller. frames_of s = frames_of s' @ [caller] \<and> stack s' = fr_stack caller \<and>
    ret_pc s' = fr_ret_pc caller \<and> regs s' = clobber_args (fr_regs caller) (regs s ! 0)"
proof -
  obtain caller where c: "curframe s \<noteq> 0" "saved s ! (unat (curframe s) - 1) = Some caller"
    "s' = s\<lparr>curframe := curframe s - 1, saved := (saved s)[unat (curframe s) - 1 := None],
            ret_pc := fr_ret_pc caller, regs := clobber_args (fr_regs caller) (regs s ! 0),
            stack := fr_stack caller\<rparr>"
    using assms(2) by (auto simp: return_from_subprog_Some_iff)
  obtain n where n: "unat (curframe s) = Suc n" using c(1) by (metis not0_implies_Suc unat_eq_0)
  have "n < length (saved s)" using assms(1) n by (auto simp: vstate_wf_def)
  then have "frames_of s = frames_of s' @ [caller]"
    using c n by (simp add: frames_of_def take_Suc_conv_app_nth unat_pred8)
  then show ?thesis using c(3) by auto
qed

lemma vstate_wf_fstep: "vstate_wf s \<Longrightarrow> fstep s l s' \<Longrightarrow> vstate_wf s'"
proof (erule fstep.cases)
  fix rp t t' assume "vstate_wf s" "s = t" "s' = t'" "call_subprog rp t = Ok t'"
  then show ?thesis using vstate_wf_call by blast
next
  fix t t' assume "vstate_wf s" "s = t" "s' = t'" "return_from_subprog t = Some t'"
  then show ?thesis using vstate_wf_return by blast
qed (simp add: vstate_wf_def)

interpretation fr: frame_discipline vstate_wf frames_of fstep
proof
  fix s s' :: verifier_state and l :: "u32 frame_label" and rp :: u32
  assume wf: "vstate_wf s"
  show "fstep s l s' \<Longrightarrow> vstate_wf s'" by (rule vstate_wf_fstep [OF wf])
  show "fstep s (L_Enter rp) s' \<Longrightarrow> \<exists>f. frames_of s' = frames_of s @ [f]"
    using frames_of_call [OF wf] by (blast elim: fstep_callE)
  show "fstep s L_Leave s' \<Longrightarrow> \<exists>f. frames_of s = frames_of s' @ [f]"
    using frames_of_return [OF wf] by (blast elim: fstep_returnE)
  show "fstep s L_Body s' \<Longrightarrow> frames_of s' = frames_of s"
    by (auto elim!: fstep_bodyE simp: frames_of_def)
qed

lemma call_return_restores:
  assumes wf: "vstate_wf s" and call: "call_subprog rp s = Ok t"
    and run: "fr.run t ls u" "fr.level ls 0 = Some 0" and ret: "return_from_subprog u = Some v"
  shows "regs v = clobber_args (regs s) (regs u ! 0) \<and> stack v = stack s \<and> ret_pc v = ret_pc s \<and>
    frames_of v = frames_of s"
proof -
  have t: "vstate_wf t" "frames_of t = frames_of s @ [cur_frame s]"
    using vstate_wf_call [OF wf call] frames_of_call [OF wf call] by simp_all
  have u: "vstate_wf u" "frames_of u = frames_of t"
    using fr.run_ok [OF run(1) t(1)] fr.balanced_frames [OF run(1) t(1) run(2)] by simp_all
  from frames_of_return [OF u(1) ret] show ?thesis
    using t(2) u(2) by (auto simp: cur_frame_def)
qed

section \<open>Properties\<close>





end
