(* ===== verification/Alu.thy ===== *)
theory Alu
  imports Scalar
begin

text \<open>
  The abstract ALU of \<open>src/src/exec.rs\<close>: \<open>apply_alu\<close> and the functions below it compute the
  bounds of the result of an ALU operation from the bounds of the operands, per family (signed
  range, unsigned range, 32-bit range, tracked number). The concrete operation is
  \<open>alu_value\<close> of \<open>src/src/concrete.rs\<close>, which shares \<open>alu_const64\<close> and \<open>alu_const32\<close> with the
  constant folding of the abstract side. The lemmas show, family by family, that the abstract
  result contains the concrete one.
\<close>

section \<open>Operations of the standard library\<close>

definition checked_add_i64 :: "i64 \<Rightarrow> i64 \<Rightarrow> i64 option" where
  "checked_add_i64 a b =
     (if - (2 ^ 63) \<le> sint a + sint b \<and> sint a + sint b < 2 ^ 63 then Some (a + b) else None)"

definition checked_sub_i64 :: "i64 \<Rightarrow> i64 \<Rightarrow> i64 option" where
  "checked_sub_i64 a b =
     (if - (2 ^ 63) \<le> sint a - sint b \<and> sint a - sint b < 2 ^ 63 then Some (a - b) else None)"

definition checked_add_u64 :: "u64 \<Rightarrow> u64 \<Rightarrow> u64 option" where
  "checked_add_u64 a b = (if uint a + uint b < 2 ^ 64 then Some (a + b) else None)"

definition checked_sub_u64 :: "u64 \<Rightarrow> u64 \<Rightarrow> u64 option" where
  "checked_sub_u64 a b = (if b \<le> a then Some (a - b) else None)"

definition checked_div :: "'a::len word \<Rightarrow> 'a word \<Rightarrow> 'a word option" where
  "checked_div a b = (if b = 0 then None else Some (a div b))"

definition checked_rem :: "'a::len word \<Rightarrow> 'a word \<Rightarrow> 'a word option" where
  "checked_rem a b = (if b = 0 then None else Some (a mod b))"

definition saturating_sub :: "'a::len word \<Rightarrow> 'a word \<Rightarrow> 'a word" where
  "saturating_sub a b = (if a < b then 0 else a - b)"

definition unsigned_abs64 :: "i64 \<Rightarrow> u64" where
  "unsigned_abs64 a = (if a <s 0 then - a else a)"

definition unwrap_or :: "'a option \<Rightarrow> 'a \<Rightarrow> 'a" where
  "unwrap_or m d = (case m of Some x \<Rightarrow> x | None \<Rightarrow> d)"

section \<open>The concrete operations\<close>

datatype alu_op =
  Alu_Add | Alu_Sub | Alu_And | Alu_Or | Alu_Xor | Alu_Lsh | Alu_Rsh | Alu_Arsh
  | Alu_Mul | Alu_Div | Alu_Mod | Alu_Neg

datatype alu_width = W64 | W32

definition is_shift :: "alu_op \<Rightarrow> bool" where
  "is_shift op \<longleftrightarrow> op = Alu_Lsh \<or> op = Alu_Rsh \<or> op = Alu_Arsh"

fun alu_const64 :: "alu_op \<Rightarrow> u64 \<Rightarrow> u64 \<Rightarrow> u64" where
  "alu_const64 Alu_Add a b = a + b"
| "alu_const64 Alu_Sub a b = a - b"
| "alu_const64 Alu_And a b = a AND b"
| "alu_const64 Alu_Or a b = a OR b"
| "alu_const64 Alu_Xor a b = a XOR b"
| "alu_const64 Alu_Mul a b = a * b"
| "alu_const64 Alu_Div a b = unwrap_or (checked_div a b) 0"
| "alu_const64 Alu_Mod a b = unwrap_or (checked_rem a b) a"
| "alu_const64 Alu_Neg a b = - a"
| "alu_const64 Alu_Lsh a b = push_bit (unat (b AND 63)) a"
| "alu_const64 Alu_Rsh a b = drop_bit (unat (b AND 63)) a"
| "alu_const64 Alu_Arsh a b = signed_drop_bit (unat (b AND 63)) a"

fun alu_u32 :: "alu_op \<Rightarrow> u32 \<Rightarrow> u32 \<Rightarrow> u32" where
  "alu_u32 Alu_Add a b = a + b"
| "alu_u32 Alu_Sub a b = a - b"
| "alu_u32 Alu_And a b = a AND b"
| "alu_u32 Alu_Or a b = a OR b"
| "alu_u32 Alu_Xor a b = a XOR b"
| "alu_u32 Alu_Mul a b = a * b"
| "alu_u32 Alu_Div a b = unwrap_or (checked_div a b) 0"
| "alu_u32 Alu_Mod a b = unwrap_or (checked_rem a b) a"
| "alu_u32 Alu_Neg a b = - a"
| "alu_u32 Alu_Lsh a b = push_bit (unat (b AND 31)) a"
| "alu_u32 Alu_Rsh a b = drop_bit (unat (b AND 31)) a"
| "alu_u32 Alu_Arsh a b = signed_drop_bit (unat (b AND 31)) a"

definition alu_const32 :: "alu_op \<Rightarrow> u64 \<Rightarrow> u64 \<Rightarrow> u64" where
  "alu_const32 op a b = as_u64 (alu_u32 op (as_u32 a) (as_u32 b))"

fun alu_value :: "alu_op \<Rightarrow> alu_width \<Rightarrow> u64 \<Rightarrow> u64 \<Rightarrow> u64" where
  "alu_value op W64 a b = alu_const64 op a b"
| "alu_value op W32 a b = alu_const32 op a b"

section \<open>The abstract operations, per family\<close>

fun alu_tnum :: "alu_op \<Rightarrow> tnum \<Rightarrow> tnum \<Rightarrow> i64 \<Rightarrow> i64 \<Rightarrow> tnum" where
  "alu_tnum Alu_Add d s amin amax = tnum_add d s"
| "alu_tnum Alu_Sub d s amin amax = tnum_sub d s"
| "alu_tnum Alu_And d s amin amax = tnum_and d s"
| "alu_tnum Alu_Or d s amin amax = tnum_or d s"
| "alu_tnum Alu_Xor d s amin amax = tnum_xor d s"
| "alu_tnum Alu_Lsh d s amin amax = (if amin \<noteq> amax then tnum_unknown else tnum_lshift d (ucast amin))"
| "alu_tnum Alu_Rsh d s amin amax = (if amin \<noteq> amax then tnum_unknown else tnum_rshift d (ucast amin))"
| "alu_tnum Alu_Arsh d s amin amax = (if amin \<noteq> amax then tnum_unknown else tnum_arshift d (ucast amin))"
| "alu_tnum _ d s amin amax = tnum_unknown"

definition interval_mod :: "i64 \<Rightarrow> i64 \<Rightarrow> u32 \<times> u32" where
  "interval_mod lo hi =
     (if hi - lo <s 0x100000000 \<and> sint lo mod 0x100000000 \<le> sint hi mod 0x100000000
      then (word_of_int (sint lo mod 0x100000000), word_of_int (sint hi mod 0x100000000))
      else (0, max_word_w))"

fun shift32_range :: "alu_op \<Rightarrow> u32 \<times> u32 \<Rightarrow> u32 \<times> u32 \<Rightarrow> u32 \<times> u32" where
  "shift32_range Alu_Lsh (d0, d1) (s0, s1) =
     (if s0 \<noteq> s1 then (0, max_word_w)
      else if 32 \<le> s0 then (0, 0)
      else if s0 = 0 then (d0, d1)
      else if d1 < push_bit (unat (32 - s0)) 1 then (push_bit (unat s0) d0, push_bit (unat s0) d1)
      else (0, max_word_w))"
| "shift32_range Alu_Rsh (d0, d1) (s0, s1) =
     (if s0 \<noteq> s1 then (0, d1)
      else if 32 \<le> s0 then (0, 0)
      else (drop_bit (unat s0) d0, drop_bit (unat s0) d1))"
| "shift32_range Alu_Arsh (d0, d1) (s0, s1) =
     (if s0 \<noteq> s1 then (0, max_word_w)
      else if 32 \<le> s0 then (if d0 <s 0 then (max_word_w, max_word_w) else (0, 0))
      else (signed_drop_bit (unat s0) d0, signed_drop_bit (unat s0) d1))"
| "shift32_range _ _ _ = undefined"

fun alu32_range :: "alu_op \<Rightarrow> u32 \<times> u32 \<Rightarrow> u32 \<times> u32 \<Rightarrow> u32 \<times> u32" where
  "alu32_range Alu_Add (d0, d1) (s0, s1) = interval_mod (ucast d0 + ucast s0) (ucast d1 + ucast s1)"
| "alu32_range Alu_Sub (d0, d1) (s0, s1) = interval_mod (ucast d0 - ucast s1) (ucast d1 - ucast s0)"
| "alu32_range Alu_And (d0, d1) (s0, s1) = (0, min d1 s1)"
| "alu32_range Alu_Or (d0, d1) (s0, s1) = (max d0 s0, max_word_w)"
| "alu32_range Alu_Xor d s = (0, max_word_w)"
| "alu32_range Alu_Mul (d0, d1) (s0, s1) = interval_mod (ucast d0 * ucast s0) (ucast d1 * ucast s1)"
| "alu32_range Alu_Div (d0, d1) (s0, s1) =
     (case checked_div d1 s0 of Some hi \<Rightarrow> (d0 div max s1 1, hi) | None \<Rightarrow> (0, max_word_w))"
| "alu32_range Alu_Mod d (s0, s1) = (if s0 = 0 then (0, max_word_w) else (0, saturating_sub s1 1))"
| "alu32_range Alu_Neg d s = (0, max_word_w)"
| "alu32_range Alu_Lsh d s = shift32_range Alu_Lsh d s"
| "alu32_range Alu_Rsh d s = shift32_range Alu_Rsh d s"
| "alu32_range Alu_Arsh d s = shift32_range Alu_Arsh d s"

abbreviation full_i64 :: "i64 \<times> i64" where
  "full_i64 \<equiv> (i64_MIN, i64_MAX)"

abbreviation full_u64 :: "u64 \<times> u64" where
  "full_u64 \<equiv> (0, max_word_w)"

fun shift64_by_const :: "alu_op \<Rightarrow> i64 \<Rightarrow> i64 \<Rightarrow> u32 \<Rightarrow> i64 \<times> i64" where
  "shift64_by_const Alu_Lsh dmin dmax k =
     (if dmin <s 0 then full_i64
      else if k = 0 then (dmin, dmax)
      else if drop_bit (unat (64 - k)) dmin \<noteq> drop_bit (unat (64 - k)) dmax then full_i64
      else
        let lo = push_bit (unat k) dmin; hi = push_bit (unat k) dmax
        in if push_bit 63 1 \<le> lo \<or> hi < push_bit 63 1 then (lo, hi) else full_i64)"
| "shift64_by_const Alu_Rsh dmin dmax k =
     (if dmin <s 0 then full_i64 else (drop_bit (unat k) dmin, drop_bit (unat k) dmax))"
| "shift64_by_const Alu_Arsh dmin dmax k = (signed_drop_bit (unat k) dmin, signed_drop_bit (unat k) dmax)"
| "shift64_by_const _ _ _ _ = undefined"

fun shift64_range :: "alu_op \<Rightarrow> i64 \<Rightarrow> i64 \<Rightarrow> i64 \<Rightarrow> i64 \<Rightarrow> i64 \<times> i64" where
  "shift64_range op dmin dmax amin amax =
     (if amin = amax then shift64_by_const op dmin dmax (ucast amin)
      else case op of
        Alu_Lsh \<Rightarrow> full_i64
      | Alu_Rsh \<Rightarrow> if 0 \<le>s dmin then (0, dmax) else full_i64
      | Alu_Arsh \<Rightarrow> (signed_drop_bit 63 dmin, dmax)
      | _ \<Rightarrow> undefined)"

definition products_i64 :: "i64 \<times> i64 \<Rightarrow> i64 \<times> i64 \<Rightarrow> int list" where
  "products_i64 d s =
     [sint (fst d) * sint (fst s), sint (fst d) * sint (snd s),
      sint (snd d) * sint (fst s), sint (snd d) * sint (snd s)]"

definition products_u64 :: "u64 \<times> u64 \<Rightarrow> u64 \<times> u64 \<Rightarrow> int list" where
  "products_u64 d s =
     [uint (fst d) * uint (fst s), uint (fst d) * uint (snd s),
      uint (snd d) * uint (fst s), uint (snd d) * uint (snd s)]"

fun alu64_signed_range :: "alu_op \<Rightarrow> i64 \<times> i64 \<Rightarrow> i64 \<times> i64 \<Rightarrow> i64 \<times> i64" where
  "alu64_signed_range Alu_Add (dmin, dmax) (s0, s1) =
     (case (checked_add_i64 dmin s0, checked_add_i64 dmax s1) of
        (Some lo, Some hi) \<Rightarrow> (lo, hi) | _ \<Rightarrow> full_i64)"
| "alu64_signed_range Alu_Sub (dmin, dmax) (s0, s1) =
     (case (checked_sub_i64 dmin s1, checked_sub_i64 dmax s0) of
        (Some lo, Some hi) \<Rightarrow> (lo, hi) | _ \<Rightarrow> full_i64)"
| "alu64_signed_range Alu_And (dmin, dmax) (s0, s1) =
     (if 0 \<le>s dmin \<and> 0 \<le>s s0 then (0, s_min dmax s1) else full_i64)"
| "alu64_signed_range Alu_Or (dmin, dmax) (s0, s1) =
     (if 0 \<le>s dmin \<and> 0 \<le>s s0 then (s_max dmin s0, i64_MAX) else full_i64)"
| "alu64_signed_range Alu_Xor (dmin, dmax) (s0, s1) =
     (if 0 \<le>s dmin \<and> 0 \<le>s s0 then (0, i64_MAX) else full_i64)"
| "alu64_signed_range Alu_Mul d s =
     (let products = products_i64 d s;
          lo = fold min products (2 ^ 127 - 1);
          hi = fold max products (- (2 ^ 127))
      in if lo < - (2 ^ 63) \<or> 2 ^ 63 - 1 < hi then full_i64 else (word_of_int lo, word_of_int hi))"
| "alu64_signed_range Alu_Div d s = full_i64"
| "alu64_signed_range Alu_Mod d (s0, s1) =
     (if s0 = s1 \<and> s0 \<noteq> 0 then
        let bound = saturating_sub (unsigned_abs64 s0) 1 in (- bound, bound)
      else full_i64)"
| "alu64_signed_range Alu_Neg d s = full_i64"
| "alu64_signed_range op (dmin, dmax) (s0, s1) = shift64_range op dmin dmax s0 s1"

definition alu64_signed :: "alu_op \<Rightarrow> i64 \<times> i64 \<Rightarrow> i64 \<times> i64 \<Rightarrow> i64 \<times> i64" where
  "alu64_signed op d s =
     (if fst d = snd d \<and> fst s = snd s
      then let bits = alu_const64 op (fst d) (fst s) in (bits, bits)
      else alu64_signed_range op d s)"

fun alu64_unsigned :: "alu_op \<Rightarrow> u64 \<times> u64 \<Rightarrow> u64 \<times> u64 \<Rightarrow> u64 \<times> u64" where
  "alu64_unsigned Alu_Add (dmin, dmax) (s0, s1) =
     (case (checked_add_u64 dmin s0, checked_add_u64 dmax s1) of
        (Some lo, Some hi) \<Rightarrow> (lo, hi) | _ \<Rightarrow> full_u64)"
| "alu64_unsigned Alu_Sub (dmin, dmax) (s0, s1) =
     (case (checked_sub_u64 dmin s1, checked_sub_u64 dmax s0) of
        (Some lo, Some hi) \<Rightarrow> (lo, hi) | _ \<Rightarrow> full_u64)"
| "alu64_unsigned Alu_And (dmin, dmax) (s0, s1) = (0, min dmax s1)"
| "alu64_unsigned Alu_Or (dmin, dmax) (s0, s1) = (max dmin s0, max_word_w)"
| "alu64_unsigned Alu_Xor d s = full_u64"
| "alu64_unsigned Alu_Mul d s =
     (let products = products_u64 d s;
          lo = fold min products (2 ^ 128 - 1);
          hi = fold max products 0
      in if 2 ^ 64 - 1 < hi then full_u64 else (word_of_int lo, word_of_int hi))"
| "alu64_unsigned Alu_Div (dmin, dmax) (s0, s1) =
     (case checked_div dmax s0 of Some hi \<Rightarrow> (dmin div max s1 1, hi) | None \<Rightarrow> full_u64)"
| "alu64_unsigned Alu_Mod d (s0, s1) = (if s0 = 0 then full_u64 else (0, s1 - 1))"
| "alu64_unsigned Alu_Neg d s = full_u64"
| "alu64_unsigned Alu_Lsh (dmin, dmax) (s0, s1) =
     (if s0 = s1 \<and> dmax \<le> drop_bit (unat (as_u32 s0)) max_word_w
      then (push_bit (unat (as_u32 s0)) dmin, push_bit (unat (as_u32 s0)) dmax) else full_u64)"
| "alu64_unsigned Alu_Rsh (dmin, dmax) (s0, s1) =
     (if s0 = s1 then (drop_bit (unat (as_u32 s0)) dmin, drop_bit (unat (as_u32 s0)) dmax)
      else (0, dmax))"
| "alu64_unsigned Alu_Arsh d s = full_u64"

section \<open>The transfer function\<close>

definition alu_bounds :: "i64 \<times> i64 \<Rightarrow> u64 \<times> u64 \<Rightarrow> tnum \<Rightarrow> scalar_bounds \<Rightarrow> scalar_bounds" where
  "alu_bounds sr ur t d =
     \<lparr>smin = fst sr, smax = snd sr, umin = fst ur, umax = snd ur,
      s32_min = i32_MIN, s32_max = i32_MAX, u32_min = 0, u32_max = max_word_w,
      stnum = t, precise = False, sid = sid d, delta = delta d\<rparr>"

fun bitness :: "alu_width \<Rightarrow> i64" where
  "bitness W64 = 64"
| "bitness W32 = 32"

definition apply_alu_inner :: "alu_op \<Rightarrow> alu_width \<Rightarrow> scalar_bounds \<Rightarrow> scalar_bounds \<Rightarrow> scalar_bounds" where
  "apply_alu_inner op width d s =
     (if is_shift op \<and> (smin s <s 0 \<or> bitness width \<le>s smax s) then scalar_unknown
      else if scalar_is_constant d \<and> scalar_is_constant s then
        scalar_constant (case width of W64 \<Rightarrow> alu_const64 op (smin d) (smin s)
                                     | W32 \<Rightarrow> alu_const32 op (smin d) (smin s))
      else case width of
        W64 \<Rightarrow>
          let amount = (if is_shift op then (smin s, smax s) else scalar_unsigned s)
          in synced (alu_bounds (alu64_signed op (scalar_signed d) (scalar_signed s))
               (alu64_unsigned op (scalar_unsigned d) amount)
               (alu_tnum op (stnum d) (stnum s) (smin s) (smax s)) d)
      | W32 \<Rightarrow>
          let (rmin, rmax) = alu32_range op (u32_min d, u32_max d) (u32_min s, u32_max s)
          in synced (alu_bounds (ucast rmin, ucast rmax) (ucast rmin, ucast rmax)
               (tnum_subreg (alu_tnum op (stnum d) (stnum s) (smin s) (smax s))) d))"

definition clear_link :: "scalar_bounds \<Rightarrow> scalar_bounds" where
  "clear_link b = b\<lparr>sid := 0, delta := 0\<rparr>"

definition apply_linking ::
  "alu_op \<Rightarrow> alu_width \<Rightarrow> scalar_bounds \<Rightarrow> scalar_bounds \<Rightarrow> scalar_bounds \<Rightarrow> scalar_bounds" where
  "apply_linking op width result dst src =
     (if (op = Alu_Add \<or> op = Alu_Sub) \<and> scalar_is_constant src then
        if width \<noteq> W64 then clear_link result
        else if sid dst = 0 \<or> sid result \<noteq> sid dst \<or> delta result \<noteq> 0 then clear_link result
        else
          let off = (if op = Alu_Sub then - smin src else smin src)
          in if scast i32_MIN \<le>s off \<and> off \<le>s scast i32_MAX
             then result\<lparr>delta := ucast off\<rparr>
             else clear_link result
      else clear_link result)"

definition apply_alu :: "alu_op \<Rightarrow> alu_width \<Rightarrow> scalar_bounds \<Rightarrow> scalar_bounds \<Rightarrow> scalar_bounds" where
  "apply_alu op width d s = apply_linking op width (apply_alu_inner op width d s) d s"

section \<open>Soundness of the families\<close>

definition in_urange :: "'a::len word \<times> 'a word \<Rightarrow> 'a word \<Rightarrow> bool" where
  "in_urange r x \<longleftrightarrow> fst r \<le> x \<and> x \<le> snd r"

definition in_srange :: "'a::len word \<times> 'a word \<Rightarrow> 'a word \<Rightarrow> bool" where
  "in_srange r x \<longleftrightarrow> sint (fst r) \<le> sint x \<and> sint x \<le> sint (snd r)"

lemma in_urange_full [simp]: "in_urange (0, max_word_w) x"
  by (simp add: in_urange_def)

lemma in_srange_full [simp]: "in_srange (i64_MIN, i64_MAX) x"
  using sint64_bounds [of x] by (simp add: in_srange_def)

lemma unat_as_u32: "b < 64 \<Longrightarrow> unat (as_u32 b) = unat b"
  by (simp add: as_u32_def unsigned_ucast_eq take_bit_nat_eq_self word_less_nat_alt)

lemma alu64_unsigned_mul:
  assumes "dmin \<le> x" "x \<le> dmax" "s0 \<le> y" "y \<le> s1"
  shows "in_urange (alu64_unsigned Alu_Mul (dmin, dmax) (s0, s1)) (x * y)"
proof -
  let ?ps = "products_u64 (dmin, dmax) (s0, s1)"
  have m: "uint dmin \<le> uint x" "uint x \<le> uint dmax" "uint s0 \<le> uint y" "uint y \<le> uint s1"
    using assms by (simp_all add: order_uint)
  define lo hi where "lo = fold min ?ps (2 ^ 128 - 1)" and "hi = fold max ?ps 0"
  have lo: "lo \<le> uint x * uint y" and hi: "uint x * uint y \<le> hi"
    using product_bounds [OF m] fold_min4
    unfolding lo_def hi_def products_u64_def fst_conv snd_conv by (meson order.trans)+
  have "0 \<le> lo" by (simp add: lo_def products_u64_def)
  have r: "alu64_unsigned Alu_Mul (dmin, dmax) (s0, s1) =
      (if 2 ^ 64 - 1 < hi then full_u64 else (word_of_int lo, word_of_int hi))"
    unfolding lo_def hi_def by (simp only: alu64_unsigned.simps Let_def)
  show ?thesis
  proof (cases "2 ^ 64 - 1 < hi")
    case False
    then have "uint (x * y) = uint x * uint y" using hi by (intro uint64_mult) linarith
    moreover have "uint (word_of_int lo :: u64) = lo" "uint (word_of_int hi :: u64) = hi"
      using False \<open>0 \<le> lo\<close> lo hi by (simp_all add: unsigned_of_int take_bit_int_eq_self)
    ultimately show ?thesis
      unfolding r using False lo hi by (simp add: in_urange_def word_le_def)
  next
    case True
    then show ?thesis unfolding r by simp
  qed
qed

lemma alu64_unsigned_sound:
  assumes "in_urange d x" "in_urange s y" "is_shift op \<longrightarrow> snd s < 64"
  shows "in_urange (alu64_unsigned op d s) (alu_const64 op x y)"
proof -
  obtain dmin dmax s0 s1 where [simp]: "d = (dmin, dmax)" "s = (s0, s1)"
    by (cases d, cases s)
  have m: "dmin \<le> x" "x \<le> dmax" "s0 \<le> y" "y \<le> s1"
    using assms by (simp_all add: in_urange_def)
  then have mi: "uint dmin \<le> uint x" "uint x \<le> uint dmax" "uint s0 \<le> uint y" "uint y \<le> uint s1"
    by (simp_all add: order_uint)
  have sh: "y < 64" "s1 < 64" "s0 < 64" if "is_shift op"
    using that assms(3) m by auto
  show ?thesis
  proof (cases op)
    case Alu_Add
    show ?thesis
    proof (cases "uint dmax + uint s1 < 2 ^ 64")
      case True
      then have "uint (x + y) = uint x + uint y" "uint (dmin + s0) = uint dmin + uint s0"
        "uint (dmax + s1) = uint dmax + uint s1"
        using mi by (auto intro!: uint64_add)
      then show ?thesis
        using Alu_Add mi True by (simp add: checked_add_u64_def in_urange_def word_le_def)
    qed (simp add: Alu_Add checked_add_u64_def split: option.splits)
  next
    case Alu_Sub
    show ?thesis
    proof (cases "s1 \<le> dmin")
      case True
      then have "s0 \<le> dmax" "y \<le> x" using m by auto
      then show ?thesis
        using Alu_Sub mi True by (simp add: checked_sub_u64_def in_urange_def word_le_def uint_sub_le)
    qed (simp add: Alu_Sub checked_sub_u64_def)
  next
    case Alu_And
    then show ?thesis using word_and_bounds [OF m(2,4)] by (simp add: in_urange_def)
  next
    case Alu_Or
    then show ?thesis using word_or_bounds [OF m(1,3)] by (simp add: in_urange_def)
  next
    case Alu_Mul
    then show ?thesis using alu64_unsigned_mul [OF m] by (simp only: alu_const64.simps \<open>d = _\<close> \<open>s = _\<close>)
  next
    case Alu_Div
    have "0 < s0 \<Longrightarrow> 0 < y" using m(3) by (meson order.strict_trans2)
    moreover have "0 < s0 \<Longrightarrow> max s1 1 = s1" using m(3,4) by (intro max_absorb1) (simp add: order_uint)
    ultimately show ?thesis
      using Alu_Div word_div_mono [OF m] word_gt_0 [of s0]
      by (auto simp: checked_div_def in_urange_def unwrap_or_def split: option.splits)
  next
    case Alu_Mod
    have "0 < s0 \<Longrightarrow> 0 < y" using m(3) by (meson order.strict_trans2)
    then show ?thesis
      using Alu_Mod word_mod_lt [OF m(4), of x] word_gt_0 [of s0]
      by (auto simp: checked_rem_def in_urange_def unwrap_or_def split: option.splits)
  next
    case Alu_Lsh
    then have lt: "y < 64" "unat y < 64" and k: "s0 = s1 \<Longrightarrow> unat (as_u32 s0) = unat y"
      using sh m unat_as_u32 [of s0] by (auto simp: is_shift_def word_less_nat_alt)
    show ?thesis
      using Alu_Lsh m lt k push_bit_mono [of dmin x "unat y"] push_bit_mono [of x dmax "unat y"]
      by (auto simp: in_urange_def and_63 intro: order.trans)
  next
    case Alu_Rsh
    then have lt: "y < 64" and k: "s0 = s1 \<Longrightarrow> unat (as_u32 s0) = unat y"
      using sh m unat_as_u32 [of s0] by (auto simp: is_shift_def)
    show ?thesis
      using Alu_Rsh m lt k order.trans [OF drop_bit_le m(2)]
      by (auto simp: in_urange_def and_63 drop_bit_mono)
  qed simp_all
qed

lemma sint_nonneg_iff: "0 \<le> sint w \<longleftrightarrow> \<not> bit w 63" for w :: i64
  using sint_neg_iff_bit [of w] by linarith

lemma shift64_lsh_sound:
  assumes m: "sint dmin \<le> sint x" "sint x \<le> sint dmax" and k: "k < 64"
  shows "in_srange (shift64_by_const Alu_Lsh dmin dmax k) (push_bit (unat k) x)"
proof (cases "0 \<le> sint dmin \<and> k \<noteq> 0 \<and> drop_bit (unat (64 - k)) dmin = drop_bit (unat (64 - k)) dmax")
  case True
  then have b: "dmin \<le> x" "x \<le> dmax" using signed_between64 [of dmin dmax x] m by blast+
  have n: "unat (64 - k) = 64 - unat k" "unat k \<le> 64"
    using k by (simp_all add: unat_sub word_le_nat_alt word_less_nat_alt)
  have eq: "drop_bit (64 - unat k) dmin = drop_bit (64 - unat k) dmax" using True n by simp
  note eqx = drop_bit_between [OF b eq]
  have "push_bit (unat k) dmin \<le> push_bit (unat k) x" "push_bit (unat k) x \<le> push_bit (unat k) dmax"
    using b eq eqx n(2) by (auto intro!: push_bit_block_mono)
  then show ?thesis
    using True unsigned_between64 [of "push_bit (unat k) dmax" "push_bit (unat k) dmin" "push_bit (unat k) x"]
      sint64_bounds [of "push_bit (unat k) x"]
    by (auto simp: in_srange_def Let_def order_uint)
next
  case False
  then show ?thesis using m by (auto simp: in_srange_def [of "(dmin, dmax)"] Let_def order_uint)
qed

lemma shift64_by_const_sound:
  assumes "is_shift op" "in_srange (dmin, dmax) x" "k < 64" "unat y = unat k"
  shows "in_srange (shift64_by_const op dmin dmax k) (alu_const64 op x y)"
proof -
  have m: "sint dmin \<le> sint x" "sint x \<le> sint dmax" using assms(2) by (simp_all add: in_srange_def)
  have y: "y AND 63 = y" using assms(3,4) by (intro and_63) (simp add: word_less_nat_alt)
  from assms(1) consider "op = Alu_Lsh" | "op = Alu_Rsh" | "op = Alu_Arsh" by (auto simp: is_shift_def)
  then show ?thesis
  proof cases
    case 1
    then show ?thesis using shift64_lsh_sound [OF m assms(3)] y assms(4) by simp
  next
    case 2
    have "in_srange (drop_bit (unat k) dmin, drop_bit (unat k) dmax) (drop_bit (unat k) x)" if "0 \<le> sint dmin"
      using that m by (simp add: in_srange_def sint_drop_bit_nonneg zdiv_mono1)
    then show ?thesis using 2 y assms(4) by (simp add: order_uint)
  next
    case 3
    then show ?thesis
      using m y assms(4) by (simp add: in_srange_def signed_drop_bit_sint zdiv_mono1)
  qed
qed

lemma word_or_nonneg: "0 \<le> sint x \<Longrightarrow> 0 \<le> sint y \<Longrightarrow> 0 \<le> sint (x OR y)" for x y :: i64
  by (simp add: sint_nonneg_iff bit_simps)

lemma word_xor_nonneg: "0 \<le> sint x \<Longrightarrow> 0 \<le> sint y \<Longrightarrow> 0 \<le> sint (x XOR y)" for x y :: i64
  by (simp add: sint_nonneg_iff bit_simps)

lemma word_and_nonneg: "0 \<le> sint x \<Longrightarrow> 0 \<le> sint (x AND y)" for x y :: i64
  by (simp add: sint_nonneg_iff bit_simps)

text \<open>
  The cases in which the signed family is sound. A modulus by a negative constant is excluded:
  the concrete operation divides the unsigned readings. An arithmetic shift by a range of
  amounts is sound on non-negative operands only.
\<close>

definition signed_ok :: "alu_op \<Rightarrow> i64 \<times> i64 \<Rightarrow> i64 \<times> i64 \<Rightarrow> bool" where
  "signed_ok op d s \<longleftrightarrow>
     fst d = snd d \<and> fst s = snd s \<or>
     (op = Alu_Mod \<longrightarrow> fst s \<noteq> snd s \<or> 0 \<le>s fst s) \<and>
     (op = Alu_Arsh \<longrightarrow> fst s = snd s \<or> 0 \<le>s fst d)"

lemma alu64_signed_mul:
  assumes m: "sint dmin \<le> sint x" "sint x \<le> sint dmax" "sint s0 \<le> sint y" "sint y \<le> sint s1"
  shows "in_srange (alu64_signed_range Alu_Mul (dmin, dmax) (s0, s1)) (x * y)"
proof -
  let ?ps = "products_i64 (dmin, dmax) (s0, s1)"
  define lo hi where "lo = fold min ?ps (2 ^ 127 - 1)" and "hi = fold max ?ps (- (2 ^ 127))"
  have lo: "lo \<le> sint x * sint y" and hi: "sint x * sint y \<le> hi"
    using product_bounds [OF m] fold_min4
    unfolding lo_def hi_def products_i64_def fst_conv snd_conv by (meson order.trans)+
  have r: "alu64_signed_range Alu_Mul (dmin, dmax) (s0, s1) =
      (if lo < - (2 ^ 63) \<or> 2 ^ 63 - 1 < hi then full_i64 else (word_of_int lo, word_of_int hi))"
    unfolding lo_def hi_def by (simp only: alu64_signed_range.simps Let_def)
  show ?thesis
  proof (cases "lo < - (2 ^ 63) \<or> 2 ^ 63 - 1 < hi")
    case False
    then have "sint (x * y) = sint x * sint y" using lo hi by (intro sint64_mult) linarith+
    moreover have "sint (word_of_int lo :: i64) = lo" "sint (word_of_int hi :: i64) = hi"
      using False lo hi by (simp_all add: signed_of_int signed_take_bit_int_eq_self)
    ultimately show ?thesis
      unfolding r using False lo hi by (simp add: in_srange_def)
  next
    case True
    then show ?thesis unfolding r by simp
  qed
qed

lemma alu64_signed_mod:
  assumes m: "sint s0 \<le> sint y" "sint y \<le> sint s1" and ok: "s0 \<noteq> s1 \<or> 0 \<le>s s0"
  shows "in_srange (alu64_signed_range Alu_Mod d (s0, s1)) (alu_const64 Alu_Mod x y)"
proof (cases "s0 = s1 \<and> s0 \<noteq> 0")
  case True
  then have y: "y = s0" using m by (intro sint_eqI) simp
  have pos: "0 < sint s0" using True ok sint_eqI [of s0 0] by (auto simp: order_uint less_le)
  then have u: "sint s0 = uint s0" "0 < uint s0" using sint_nonneg64 [of s0] by simp_all
  have "uint (x mod y) < uint s0" using u(2) y by (simp add: uint_mod)
  moreover from this have "sint (x mod y) = uint (x mod y)"
    using u sint64_bounds [of s0] sint64_cases [of "x mod y"] by linarith
  moreover have "sint (s0 - 1) = sint s0 - 1"
    using pos sint64_bounds [of s0] sint64_sub [of s0 1] by simp
  moreover have "sint (- (s0 - 1)) = 1 - sint s0"
    using pos sint64_bounds [of s0] sint64_sub [of 1 s0] by simp
  moreover have "saturating_sub (unsigned_abs64 s0) 1 = s0 - 1"
    using u pos by (auto simp: saturating_sub_def unsigned_abs64_def order_uint)
  moreover have "1 - uint s0 \<le> uint (x mod y)" using u(2) uint64_bounds(1) [of "x mod y"] by linarith
  moreover have "s0 \<noteq> 0" "s1 = s0" using True by auto
  ultimately show ?thesis
    using y u by (simp add: in_srange_def checked_rem_def unwrap_or_def Let_def)
qed auto

lemma alu64_signed_range_sound:
  assumes "in_srange d x" "in_srange s y" "is_shift op \<longrightarrow> 0 \<le>s fst s \<and> snd s <s 64"
    and "op = Alu_Mod \<longrightarrow> fst s \<noteq> snd s \<or> 0 \<le>s fst s"
    and "op = Alu_Arsh \<longrightarrow> fst s = snd s \<or> 0 \<le>s fst d"
  shows "in_srange (alu64_signed_range op d s) (alu_const64 op x y)"
proof -
  obtain dmin dmax s0 s1 where ds: "d = (dmin, dmax)" "s = (s0, s1)"
    by (cases d, cases s)
  have m: "sint dmin \<le> sint x" "sint x \<le> sint dmax" "sint s0 \<le> sint y" "sint y \<le> sint s1"
    using assms(1,2) by (simp_all add: in_srange_def ds)
  have shift: "y < 64" "s0 < 64" if "is_shift op"
    using that assms(3) m sint64_cases [of y] sint64_cases [of s0] unfolding ds by (auto simp: order_uint)
  have const: "in_srange (shift64_by_const op dmin dmax (ucast s0)) (alu_const64 op x y)"
    if "is_shift op" "s0 = s1"
  proof (rule shift64_by_const_sound [OF that(1)])
    have "y = s0" using that(2) m by (intro sint_eqI) simp
    then show "unat y = unat (ucast s0 :: u32)" "(ucast s0 :: u32) < 64"
      using shift [OF that(1)] unat_as_u32 [of s0] by (simp_all add: as_u32_def word_less_nat_alt)
    show "in_srange (dmin, dmax) x" using m by (simp add: in_srange_def)
  qed
  show ?thesis
  proof (cases op)
    case Alu_Add
    show ?thesis
    proof (cases "- (2 ^ 63) \<le> sint dmin + sint s0 \<and> sint dmax + sint s1 < 2 ^ 63")
      case True
      then have "sint (x + y) = sint x + sint y" "sint (dmin + s0) = sint dmin + sint s0"
        "sint (dmax + s1) = sint dmax + sint s1"
        using m by (auto intro!: sint64_add)
      then show ?thesis
        using Alu_Add m True by (simp add: checked_add_i64_def in_srange_def ds)
    qed (auto simp: Alu_Add checked_add_i64_def ds split: option.splits)
  next
    case Alu_Sub
    show ?thesis
    proof (cases "- (2 ^ 63) \<le> sint dmin - sint s1 \<and> sint dmax - sint s0 < 2 ^ 63")
      case True
      then have "sint (x - y) = sint x - sint y" "sint (dmin - s1) = sint dmin - sint s1"
        "sint (dmax - s0) = sint dmax - sint s0"
        using m by (auto intro!: sint64_sub)
      then show ?thesis
        using Alu_Sub m True by (simp add: checked_sub_i64_def in_srange_def ds)
    qed (auto simp: Alu_Sub checked_sub_i64_def ds split: option.splits)
  next
    case Alu_And
    have "0 \<le> sint x \<Longrightarrow> sint (x AND y) \<le> sint x" "0 \<le> sint y \<Longrightarrow> sint (x AND y) \<le> sint y"
      by (simp_all add: sint_le_uint word_and_le1 word_and_le2)
    then show ?thesis
      using Alu_And m word_and_nonneg [of x y] by (auto simp: in_srange_def [of "(0, _)"] ds order_uint)
  next
    case Alu_Or
    have "0 \<le> sint x \<Longrightarrow> 0 \<le> sint y \<Longrightarrow> sint x \<le> sint (x OR y)" "0 \<le> sint x \<Longrightarrow> 0 \<le> sint y \<Longrightarrow> sint y \<le> sint (x OR y)"
      by (simp_all add: sint_le_uint word_or_nonneg le_word_or1 le_word_or2)
    then show ?thesis
      using Alu_Or m sint64_bounds [of "x OR y"]
      by (auto simp: in_srange_def [of "(_, i64_MAX)"] ds order_uint)
  next
    case Alu_Xor
    then show ?thesis
      using m word_xor_nonneg [of x y] sint64_bounds [of "x XOR y"]
      by (auto simp: in_srange_def [of "(0, _)"] ds order_uint)
  next
    case Alu_Mul
    then show ?thesis using alu64_signed_mul [OF m] by (simp only: ds alu_const64.simps)
  next
    case Alu_Mod
    then show ?thesis using alu64_signed_mod [OF m(3,4)] assms(4) by (simp only: ds fst_conv snd_conv)
  next
    case Alu_Lsh
    then show ?thesis using const shift by (auto simp: ds is_shift_def)
  next
    case Alu_Rsh
    have "in_srange (0, dmax) (drop_bit (unat y) x)" if "0 \<le> sint dmin"
      using that m sint_drop_bit_nonneg [of x "unat y"] zdiv_mono2 [of "sint x" 1 "2 ^ unat y"]
      by (simp add: in_srange_def pos_imp_zdiv_nonneg_iff)
    then show ?thesis using Alu_Rsh const shift by (auto simp: ds is_shift_def order_uint and_63)
  next
    case Alu_Arsh
    have "in_srange (0, dmax) (signed_drop_bit (unat y) x)" "signed_drop_bit 63 dmin = 0" if "0 \<le> sint dmin"
    proof -
      have "sint (signed_drop_bit 63 dmin) = 0"
        using that sint64_bounds [of dmin] by (simp add: signed_drop_bit_sint)
      then show "signed_drop_bit 63 dmin = 0" by (simp only: signed_eq_0_iff)
      show "in_srange (0, dmax) (signed_drop_bit (unat y) x)"
        using that m zdiv_mono2 [of "sint x" 1 "2 ^ unat y"]
        by (simp add: in_srange_def signed_drop_bit_sint pos_imp_zdiv_nonneg_iff)
    qed
    then show ?thesis
      using Alu_Arsh const shift assms(5) by (auto simp: ds is_shift_def order_uint and_63)
  qed (simp_all add: ds)
qed

lemma alu64_signed_sound:
  assumes "in_srange d x" "in_srange s y" "is_shift op \<longrightarrow> 0 \<le>s fst s \<and> snd s <s 64" "signed_ok op d s"
  shows "in_srange (alu64_signed op d s) (alu_const64 op x y)"
proof (cases "fst d = snd d \<and> fst s = snd s")
  case True
  then have "x = fst d" "y = fst s"
    using assms(1,2) by (auto intro!: sint_eqI simp: in_srange_def)
  then show ?thesis using True by (simp add: alu64_signed_def in_srange_def Let_def)
next
  case False
  then show ?thesis
    using assms(4) alu64_signed_range_sound [OF assms(1-3)] by (auto simp: alu64_signed_def signed_ok_def)
qed

lemma alu_tnum_sound:
  assumes "tnum_wf d" "tnum_wf s" "tnum_contains d x" "tnum_contains s y"
    and "is_shift op \<longrightarrow> sint amin \<le> sint y \<and> sint y \<le> sint amax \<and> 0 \<le>s amin \<and> amax <s 64"
  shows "tnum_contains (alu_tnum op d s amin amax) (alu_const64 op x y)"
proof -
  have y: "unat (y AND 63) = unat (ucast amin :: u32)" "(ucast amin :: u32) < 64"
    if "is_shift op" "amin = amax"
  proof -
    have eq: "y = amin" using that assms(5) by (intro sint_eqI) simp
    have "amin < 64" using that assms(5) sint64_cases [of amin] by (auto simp: order_uint)
    then show "unat (y AND 63) = unat (ucast amin :: u32)" "(ucast amin :: u32) < 64"
      using eq unat_as_u32 [of amin] by (simp_all add: and_63 as_u32_def word_less_nat_alt)
  qed
  show ?thesis
    using assms(1-4) y
    by (cases op)
      (simp_all add: is_shift_def tnum_add_sound tnum_sub_sound tnum_and_sound tnum_or_sound tnum_xor_sound
        tnum_lshift_sound tnum_rshift_sound tnum_arshift_sound)
qed

lemma alu_tnum_wf: "tnum_wf d \<Longrightarrow> tnum_wf (alu_tnum op d s amin amax)"
  by (cases op) (simp_all add: wf_intros)

section \<open>The 32-bit family and the transfer function\<close>

lemma interval_mod_sound:
  assumes "sint lo \<le> v" "v \<le> sint hi" "sint hi - sint lo < 2 ^ 63"
  shows "in_urange (interval_mod lo hi) (word_of_int v)"
proof (cases "hi - lo <s 0x100000000 \<and> sint lo mod 0x100000000 \<le> sint hi mod 0x100000000")
  case True
  let ?m = "0x100000000 :: int"
  have "sint (hi - lo) = sint hi - sint lo"
    using assms by (intro sint64_sub) simp_all
  then have d: "sint hi - sint lo < ?m" using True by (simp add: order_uint)
  have "sint hi - sint lo =
      (?m * (sint hi div ?m) + sint hi mod ?m) - (?m * (sint lo div ?m) + sint lo mod ?m)"
    by (simp only: mult_div_mod_eq)
  also have "\<dots> = ?m * (sint hi div ?m - sint lo div ?m) + (sint hi mod ?m - sint lo mod ?m)"
    by (simp only: algebra_simps)
  finally have "sint hi - sint lo =
      ?m * (sint hi div ?m - sint lo div ?m) + (sint hi mod ?m - sint lo mod ?m)" .
  then have "?m * (sint hi div ?m - sint lo div ?m) < ?m" using d True by linarith
  then have "sint hi div ?m \<le> sint lo div ?m" by simp
  moreover have "sint lo div ?m \<le> sint hi div ?m" using assms by (intro zdiv_mono1) simp_all
  ultimately have "sint lo div ?m = sint hi div ?m" by simp
  from div_mod_between [OF assms(1,2) _ this]
  show ?thesis
    using True by (simp add: interval_mod_def in_urange_def word_le_def unsigned_of_int take_bit_eq_mod)
next
  case False
  then show ?thesis by (auto simp: interval_mod_def)
qed

lemma uint_ucast32: "uint (ucast w :: u64) = uint w" for w :: u32
  using uint32_bounds [of w] by (simp add: unsigned_ucast_eq take_bit_int_eq_self)

lemma sint_ucast32: "sint (ucast w :: i64) = uint w" for w :: u32
  using uint32_bounds [of w] sint64_cases [of "ucast w"] by (simp add: unsigned_ucast_eq take_bit_int_eq_self)

lemma sint_arith32:
  fixes a b :: u32
  shows "sint (ucast a + ucast b :: i64) = uint a + uint b"
    "sint (ucast a - ucast b :: i64) = uint a - uint b"
    "uint a * uint b < 2 ^ 63 \<Longrightarrow> sint (ucast a * ucast b :: i64) = uint a * uint b"
proof -
  have bounds: "- (2 ^ 63) \<le> uint a + uint b" "uint a + uint b < 2 ^ 63"
    "- (2 ^ 63) \<le> uint a - uint b" "uint a - uint b < 2 ^ 63"
    using uint32_bounds [of a] uint32_bounds [of b] by (simp_all, insert uint_ge_0 [of a] uint_ge_0 [of b], linarith+)
  show "sint (ucast a + ucast b :: i64) = uint a + uint b"
    using bounds by (intro sint64_add [of "ucast a" "ucast b", unfolded sint_ucast32]) simp_all
  show "sint (ucast a - ucast b :: i64) = uint a - uint b"
    using bounds by (intro sint64_sub [of "ucast a" "ucast b", unfolded sint_ucast32]) simp_all
  assume "uint a * uint b < 2 ^ 63"
  moreover have "- (2 ^ 63) \<le> uint a * uint b" by (rule order.trans [of _ 0]) simp_all
  ultimately show "sint (ucast a * ucast b :: i64) = uint a * uint b"
    by (intro sint64_mult [of "ucast a" "ucast b", unfolded sint_ucast32])
qed

lemma and_31: "b < 32 \<Longrightarrow> b AND 31 = b" for b :: u32
proof -
  assume "b < 32"
  then have "unat b < 2 ^ 5" by (simp add: word_less_nat_alt)
  then have "take_bit 5 b = b" by (simp add: word_unat_eq_iff unsigned_take_bit_eq take_bit_nat_eq_self)
  moreover have "b AND 31 = take_bit 5 b" by (simp add: take_bit_eq_mask mask_eq_exp_minus_1)
  ultimately show ?thesis by simp
qed

lemma signed_drop_bit_mono32:
  fixes x y :: u32
  assumes "x \<le> y"
  shows "signed_drop_bit n x \<le> signed_drop_bit n y"
proof -
  have pos: "0 \<le> sint w div 2 ^ n \<and> sint w div 2 ^ n < 2 ^ 31" if "0 \<le> sint w" for w :: u32
  proof -
    have "sint w div 2 ^ n \<le> sint w" using that zdiv_mono2 [of "sint w" 1 "2 ^ n"] by simp
    then show ?thesis using that sint32_bounds [of w] by (simp add: pos_imp_zdiv_nonneg_iff)
  qed
  have neg: "sint w div 2 ^ n < 0" if "sint w < 0" for w :: u32
    using that by (simp add: pos_imp_zdiv_neg_iff)
  have mono: "sint x div 2 ^ n \<le> sint y div 2 ^ n" if "sint x \<le> sint y"
    using that by (simp add: zdiv_mono1)
  show ?thesis
    using assms mono pos [of x] neg [of x] pos [of y] neg [of y]
      sint32_cases [of x] sint32_cases [of y]
      sint32_cases [of "signed_drop_bit n x"] sint32_cases [of "signed_drop_bit n y"]
    unfolding signed_drop_bit_sint word_le_def
    by (elim disjE conjE) linarith+
qed

lemma shift32_range_sound:
  assumes "is_shift op" "d0 \<le> x" "x \<le> d1" "s0 \<le> y" "y \<le> s1" "y < 32"
  shows "in_urange (shift32_range op (d0, d1) (s0, s1)) (alu_u32 op x y)"
proof -
  have y: "y AND 31 = y" by (rule and_31 [OF assms(6)])
  have lt: "unat y < 32" using assms(6) by (simp add: word_less_nat_alt)
  have small: "w \<le> drop_bit (unat y) max_word_w" if "w < push_bit (unat (32 - y)) 1" for w :: u32
  proof -
    have n: "unat (32 - y) = 32 - unat y"
      using assms(6) by (simp add: unat_sub word_le_nat_alt word_less_nat_alt)
    have "push_bit (32 - unat y) (1 :: u32) = of_nat (2 ^ (32 - unat y))"
      by (simp add: push_bit_eq_mult)
    then have "unat (push_bit (32 - unat y) 1 :: u32) = 2 ^ (32 - unat y) mod 2 ^ 32"
      by (simp only: unsigned_of_nat take_bit_eq_mod) simp
    moreover have "2 ^ (32 - unat y) mod 2 ^ 32 \<le> (2::nat) ^ (32 - unat y)" by simp
    ultimately have "unat w + 1 \<le> 2 ^ (32 - unat y)"
      using that n by (simp add: word_less_nat_alt)
    then have "(unat w + 1) * 2 ^ unat y \<le> 2 ^ (32 - unat y) * 2 ^ unat y" by (rule mult_le_mono1)
    also have "\<dots> = 2 ^ 32" using lt by (simp flip: power_add)
    finally have "unat w * 2 ^ unat y + 2 ^ unat y \<le> 2 ^ 32" by (simp add: add_mult_distrib)
    moreover have "(1::nat) \<le> 2 ^ unat y" by simp
    ultimately have "unat w * 2 ^ unat y \<le> 2 ^ 32 - 1" by linarith
    then have "unat w \<le> (2 ^ 32 - 1) div 2 ^ unat y" by (simp add: less_eq_div_iff_mult_less_eq)
    then show ?thesis
      unfolding word_le_nat_alt unat_drop_bit unsigned_minus_1_eq_mask mask_eq_exp_minus_1 by simp
  qed
  from assms(1) consider "op = Alu_Lsh" | "op = Alu_Rsh" | "op = Alu_Arsh" by (auto simp: is_shift_def)
  then show ?thesis
  proof cases
    case 1
    then show ?thesis
      using assms y small push_bit_mono [of d0 x "unat y"] push_bit_mono [of x d1 "unat y"] small [of d1]
      by (auto simp: in_urange_def)
  next
    case 2
    then show ?thesis
      using assms y drop_bit_mono [of _ _ "unat y"] order.trans [OF drop_bit_le assms(3)] by (auto simp: in_urange_def)
  next
    case 3
    then show ?thesis
      using assms y signed_drop_bit_mono32 by (auto simp: in_urange_def)
  qed
qed

lemma alu32_range_sound:
  assumes "in_urange d x" "in_urange s y" "is_shift op \<longrightarrow> y < 32"
    and "op = Alu_Mul \<longrightarrow> uint (snd d) * uint (snd s) < 2 ^ 63"
  shows "in_urange (alu32_range op d s) (alu_u32 op x y)"
proof -
  obtain d0 d1 s0 s1 where ds: "d = (d0, d1)" "s = (s0, s1)"
    by (cases d, cases s)
  have m: "d0 \<le> x" "x \<le> d1" "s0 \<le> y" "y \<le> s1"
    using assms by (simp_all add: in_urange_def ds)
  then have mi: "uint d0 \<le> uint x" "uint x \<le> uint d1" "uint s0 \<le> uint y" "uint y \<le> uint s1"
    by (simp_all add: order_uint)
  have pos: "0 < s0 \<Longrightarrow> 0 < y" using m(3) by (meson order.strict_trans2)
  have lt: "uint w < 4294967296" for w :: u32 using uint32_bounds [of w] by simp
  have width: "uint d1 + uint s1 - (uint d0 + uint s0) < 9223372036854775808"
    "uint d1 - uint s0 - (uint d0 - uint s1) < 9223372036854775808"
    using lt [of d1] lt [of s1] uint_ge_0 [of d0] uint_ge_0 [of s0] by linarith+
  have shift: "in_urange (alu32_range op d s) (alu_u32 op x y)" if "is_shift op"
    using shift32_range_sound [OF that m] assms(3) that
    by (auto simp: is_shift_def ds simp del: shift32_range.simps alu_u32.simps)
  show ?thesis
  proof (cases op)
    case Alu_Add
    have "in_urange (interval_mod (ucast d0 + ucast s0) (ucast d1 + ucast s1)) (word_of_int (uint x + uint y))"
      using mi width by (intro interval_mod_sound) (simp_all add: sint_arith32)
    then show ?thesis using Alu_Add by (simp add: ds)
  next
    case Alu_Sub
    have "in_urange (interval_mod (ucast d0 - ucast s1) (ucast d1 - ucast s0)) (word_of_int (uint x - uint y))"
      using mi width by (intro interval_mod_sound) (simp_all add: sint_arith32)
    then show ?thesis using Alu_Sub by (simp add: ds)
  next
    case Alu_And
    then show ?thesis using word_and_bounds [OF m(2,4)] by (simp add: in_urange_def ds)
  next
    case Alu_Or
    then show ?thesis using word_or_bounds [OF m(1,3)] by (simp add: in_urange_def ds)
  next
    case Alu_Mul
    have hi: "uint d1 * uint s1 < 2 ^ 63" using Alu_Mul assms(4) by (simp add: ds)
    have le: "uint d0 * uint s0 \<le> uint x * uint y" "uint x * uint y \<le> uint d1 * uint s1"
      using mi by (simp_all add: mult_mono)
    then have lo: "uint d0 * uint s0 < 2 ^ 63" using hi by linarith
    have "sint (ucast d1 * ucast s1 :: i64) - sint (ucast d0 * ucast s0 :: i64) < 2 ^ 63"
      unfolding sint_arith32(3) [OF hi] sint_arith32(3) [OF lo]
      using hi mult_nonneg_nonneg [OF uint_ge_0 [of d0] uint_ge_0 [of s0]] by linarith
    then have "in_urange (interval_mod (ucast d0 * ucast s0) (ucast d1 * ucast s1)) (word_of_int (uint x * uint y))"
      using le by (intro interval_mod_sound) (simp_all only: sint_arith32(3) [OF hi] sint_arith32(3) [OF lo])
    then show ?thesis using Alu_Mul by (simp add: ds)
  next
    case Alu_Div
    have "0 < s0 \<Longrightarrow> max s1 1 = s1" using m(3,4) by (intro max_absorb1) (simp add: order_uint)
    then show ?thesis
      using pos Alu_Div word_div_mono [OF m] word_gt_0 [of s0]
      by (auto simp: checked_div_def in_urange_def unwrap_or_def ds split: option.splits)
  next
    case Alu_Mod
    have "s0 \<noteq> 0 \<Longrightarrow> saturating_sub s1 1 = s1 - 1"
      using m(3,4) word_gt_0 [of s0] by (auto simp: saturating_sub_def order_uint)
    then show ?thesis
      using pos Alu_Mod word_mod_lt [OF m(4), of x] word_gt_0 [of s0]
      by (auto simp: checked_rem_def in_urange_def unwrap_or_def ds split: option.splits)
  next
    case Alu_Lsh
    then show ?thesis using shift by (simp only: is_shift_def simp_thms)
  next
    case Alu_Rsh
    then show ?thesis using shift by (simp only: is_shift_def simp_thms)
  next
    case Alu_Arsh
    then show ?thesis using shift by (simp only: is_shift_def simp_thms)
  qed simp_all
qed

lemma as_u32_add: "as_u32 (x + y) = as_u32 x + as_u32 y"
  by (simp add: as_u32_def word_uint_eq_iff low32_uint uint_word_ariths mod_mod_cancel mod_simps)

lemma as_u32_sub: "as_u32 (x - y) = as_u32 x - as_u32 y"
  by (simp add: as_u32_def word_uint_eq_iff low32_uint uint_word_ariths mod_mod_cancel mod_simps)

lemma as_u32_bits:
  "as_u32 (x AND y) = as_u32 x AND as_u32 y" "as_u32 (x OR y) = as_u32 x OR as_u32 y"
  "as_u32 (x XOR y) = as_u32 x XOR as_u32 y" "as_u32 (push_bit n x) = push_bit n (as_u32 x)"
  by (rule bit_word_eqI; auto simp: as_u32_def bit_simps)+

lemma as_u32_drop_bit:
  assumes "x < 2 ^ 32"
  shows "as_u32 (drop_bit n x) = drop_bit n (as_u32 x)"
proof -
  have "uint x < 2 ^ 32" using assms by (simp add: word_less_def)
  moreover have "uint x div 2 ^ n \<le> uint x" using zdiv_mono2 [of "uint x" 1 "2 ^ n"] by simp
  ultimately show ?thesis
    by (simp add: as_u32_def word_uint_eq_iff low32_uint uint_drop_bit mod_pos_pos_trivial
        pos_imp_zdiv_nonneg_iff)
qed

lemma signed_drop_bit_nonneg: "\<not> bit w (LENGTH('a) - 1) \<Longrightarrow> signed_drop_bit n w = drop_bit n w" for w :: "'a::len word"
  by (rule bit_word_eqI) (auto simp: bit_signed_drop_bit_iff bit_drop_bit_eq dest: bit_imp_le_length)

lemma as_u32_signed_drop_bit:
  assumes "x < 2 ^ 31"
  shows "as_u32 (signed_drop_bit n x) = signed_drop_bit n (as_u32 x)"
proof -
  have u: "uint x < 2 ^ 31" using assms by (simp add: word_less_def)
  have "\<not> bit x i" if "31 \<le> i" for i
  proof -
    have "uint x < 2 ^ i" using u power_increasing [OF that, of "2::int"] by linarith
    then have "\<not> bit (uint x) i" by (metis bit_take_bit_iff less_irrefl take_bit_int_eq_self uint_ge_0)
    then show ?thesis using bit_imp_le_length [of x i] by (auto simp: bit_uint_iff)
  qed
  then have "signed_drop_bit n x = drop_bit n x" "signed_drop_bit n (as_u32 x) = drop_bit n (as_u32 x)"
    by (intro signed_drop_bit_nonneg; simp add: as_u32_def bit_simps)+
  moreover have "x < 2 ^ 32" using u by (simp add: word_less_def)
  ultimately show ?thesis by (simp add: as_u32_drop_bit)
qed

text \<open>
  The cases in which the 32-bit path is sound. The tracked number of a right shift is computed
  on the 64-bit operand and truncated afterwards, which is right only when the shifted-in bits
  are zero; the product of the upper ends is taken in \<open>i64\<close>.
\<close>

definition alu32_ok :: "alu_op \<Rightarrow> scalar_bounds \<Rightarrow> scalar_bounds \<Rightarrow> bool" where
  "alu32_ok op d s \<longleftrightarrow>
     (op = Alu_Mul \<longrightarrow> uint (u32_max d) * uint (u32_max s) < 2 ^ 63) \<and>
     (op = Alu_Rsh \<longrightarrow> smin s \<noteq> smax s \<or> umax d < 2 ^ 32) \<and>
     (op = Alu_Arsh \<longrightarrow> smin s \<noteq> smax s \<or> umax d < 2 ^ 31)"

fun alu_ok :: "alu_op \<Rightarrow> alu_width \<Rightarrow> scalar_bounds \<Rightarrow> scalar_bounds \<Rightarrow> bool" where
  "alu_ok op W64 d s = signed_ok op (scalar_signed d) (scalar_signed s)"
| "alu_ok op W32 d s = alu32_ok op d s"

lemma tnum_subreg_unknown: "tnum_contains (tnum_subreg tnum_unknown) (as_u64 w)"
  using bit_imp_le_length [of w]
  by (fastforce simp: tnum_contains_iff tnum_subreg_def tnum_unknown_def as_u64_def as_u32_def bit_simps)

lemma alu32_low:
  assumes "alu32_ok op d s" "scalar_mem d x" "scalar_mem s y"
    and shift: "is_shift op \<longrightarrow> 0 \<le>s smin s \<and> smax s <s 32"
    and "alu_tnum op (stnum d) (stnum s) (smin s) (smax s) \<noteq> tnum_unknown"
  shows "as_u32 (alu_const64 op x y) = alu_u32 op (as_u32 x) (as_u32 y)"
proof -
  have x: "x \<le> umax d" using scalar_memD(2) [OF assms(2)] by (simp add: in_range_defs)
  have y: "unat (y AND 63) = unat (as_u32 y AND 31)" if "is_shift op"
  proof -
    have "uint y < 32"
      using that shift scalar_memD(1) [OF assms(3)] sint_nonneg64 [of y] by (auto simp: in_range_defs order_uint)
    then have "y < 64" "as_u32 y < 32" by (simp_all add: word_less_def as_u32_def low32_uint)
    then show ?thesis by (simp add: and_63 and_31 unat_as_u32)
  qed
  show ?thesis
    using assms(1,5) y x
    by (cases op)
      (auto simp: alu32_ok_def is_shift_def as_u32_add as_u32_sub as_u32_bits
        intro!: as_u32_drop_bit as_u32_signed_drop_bit split: if_splits)
qed

lemma alu32_tnum_sound:
  assumes "scalar_wf d" "scalar_wf s" "scalar_mem d x" "scalar_mem s y" "alu32_ok op d s"
    and shift: "is_shift op \<longrightarrow> 0 \<le>s smin s \<and> smax s <s 32"
  shows "tnum_contains (tnum_subreg (alu_tnum op (stnum d) (stnum s) (smin s) (smax s))) (alu_const32 op x y)"
proof (cases "alu_tnum op (stnum d) (stnum s) (smin s) (smax s) = tnum_unknown")
  case True
  then show ?thesis by (simp add: alu_const32_def tnum_subreg_unknown)
next
  case False
  have "tnum_contains (alu_tnum op (stnum d) (stnum s) (smin s) (smax s)) (alu_const64 op x y)"
    using assms(1,2) scalar_memD [OF assms(3)] scalar_memD [OF assms(4)] shift
    by (intro alu_tnum_sound) (auto simp: scalar_wf_def in_range_defs order_uint)
  from tnum_subreg_sound [OF this] show ?thesis
    unfolding alu_const32_def alu32_low [OF assms(5,3,4) shift False] .
qed

lemma in_signed_srange: "in_signed b x \<longleftrightarrow> in_srange (scalar_signed b) x"
  by (simp add: in_signed_def in_srange_def scalar_signed_def)

lemma in_unsigned_urange: "in_unsigned b x \<longleftrightarrow> in_urange (scalar_unsigned b) x"
  by (simp add: in_unsigned_def in_urange_def scalar_unsigned_def)

lemma alu_bounds_mem64:
  "scalar_mem64 (alu_bounds sr ur t d) x \<longleftrightarrow> in_srange sr x \<and> in_urange ur x \<and> tnum_contains t x"
  by (simp add: scalar_mem64_def alu_bounds_def in_range_defs in_srange_def in_urange_def)

lemma scalar_wf_alu_bounds: "tnum_wf t \<Longrightarrow> scalar_wf (alu_bounds sr ur t d)"
  by (simp add: scalar_wf_def alu_bounds_def)

lemma link_mem [simp]:
  "scalar_mem (apply_linking op width r d s) x \<longleftrightarrow> scalar_mem r x"
  "scalar_wf (apply_linking op width r d s) \<longleftrightarrow> scalar_wf r"
  by (simp_all add: apply_linking_def clear_link_def Let_def scalar_wf_def scalar_mem_def
      scalar_mem64_def in_range_defs)

lemma apply_alu64_sound:
  assumes "scalar_wf d" "scalar_wf s" "scalar_mem d x" "scalar_mem s y"
    and "signed_ok op (scalar_signed d) (scalar_signed s)"
    and shift: "is_shift op \<longrightarrow> 0 \<le>s smin s \<and> smax s <s 64"
  shows "scalar_mem64 (alu_bounds (alu64_signed op (scalar_signed d) (scalar_signed s))
      (alu64_unsigned op (scalar_unsigned d) (if is_shift op then (smin s, smax s) else scalar_unsigned s))
      (alu_tnum op (stnum d) (stnum s) (smin s) (smax s)) b) (alu_const64 op x y)"
proof -
  note mem = scalar_memD [OF assms(3)] scalar_memD [OF assms(4)]
  have "in_srange (alu64_signed op (scalar_signed d) (scalar_signed s)) (alu_const64 op x y)"
    using mem assms(5) shift by (intro alu64_signed_sound) (simp_all add: in_signed_srange, simp add: scalar_signed_def)
  moreover have "in_urange (alu64_unsigned op (scalar_unsigned d)
      (if is_shift op then (smin s, smax s) else scalar_unsigned s)) (alu_const64 op x y)"
  proof (cases "is_shift op")
    case True
    then have "smin s \<le> y" "y \<le> smax s" "smax s < 64"
      using shift mem(7) signed_between64 [of "smin s" "smax s" y] sint64_cases [of "smax s"]
      by (auto simp: in_range_defs order_uint)
    then show ?thesis
      using True mem(2) by (intro alu64_unsigned_sound) (simp_all add: in_unsigned_urange in_urange_def)
  next
    case False
    then show ?thesis using mem(2,8) by (intro alu64_unsigned_sound) (simp_all add: in_unsigned_urange)
  qed
  moreover have "tnum_contains (alu_tnum op (stnum d) (stnum s) (smin s) (smax s)) (alu_const64 op x y)"
    using assms(1,2) mem shift by (intro alu_tnum_sound) (auto simp: scalar_wf_def in_range_defs order_uint)
  ultimately show ?thesis by (simp only: alu_bounds_mem64)
qed

lemma apply_alu32_sound:
  assumes "scalar_wf d" "scalar_wf s" "scalar_mem d x" "scalar_mem s y" "alu32_ok op d s"
    and shift: "is_shift op \<longrightarrow> 0 \<le>s smin s \<and> smax s <s 32"
    and r: "alu32_range op (u32_min d, u32_max d) (u32_min s, u32_max s) = (rmin, rmax)"
  shows "scalar_mem64 (alu_bounds (ucast rmin, ucast rmax) (ucast rmin, ucast rmax)
      (tnum_subreg (alu_tnum op (stnum d) (stnum s) (smin s) (smax s))) b) (alu_const32 op x y)"
proof -
  note mem = scalar_memD [OF assms(3)] scalar_memD [OF assms(4)]
  have "as_u32 y < 32" if "is_shift op"
    using that shift mem(7) sint_nonneg64 [of y]
    by (auto simp: in_range_defs order_uint as_u32_def low32_uint)
  then have "in_urange (rmin, rmax) (alu_u32 op (as_u32 x) (as_u32 y))"
    unfolding r [symmetric] using mem assms(5)
    by (intro alu32_range_sound) (simp_all add: in_urange_def in_range_defs as_u32_def alu32_ok_def)
  then have "in_urange (ucast rmin, ucast rmax) (alu_const32 op x y)"
    "in_srange (ucast rmin, ucast rmax) (alu_const32 op x y)"
    by (simp_all add: in_urange_def in_srange_def alu_const32_def as_u64_def word_le_def sint_ucast32
        uint_ucast32)
  then show ?thesis using alu32_tnum_sound [OF assms(1-6)] by (simp only: alu_bounds_mem64)
qed

lemma apply_alu_mem:
  assumes "scalar_wf d" "scalar_wf s" "scalar_mem d x" "scalar_mem s y" "alu_ok op width d s"
  shows "scalar_mem (apply_alu op width d s) (alu_value op width x y)"
proof -
  have "smin s <s 0 \<or> bitness width \<le>s smax s \<or> 0 \<le>s smin s \<and> smax s <s bitness width"
    by (auto simp: order_uint)
  then consider (shift) "is_shift op" "smin s <s 0 \<or> bitness width \<le>s smax s"
    | (const) "is_shift op \<longrightarrow> 0 \<le>s smin s \<and> smax s <s bitness width" "scalar_is_constant d" "scalar_is_constant s"
    | (range) "is_shift op \<longrightarrow> 0 \<le>s smin s \<and> smax s <s bitness width" "\<not> (scalar_is_constant d \<and> scalar_is_constant s)"
    by blast
  then show ?thesis
  proof cases
    case shift
    then show ?thesis by (simp add: apply_alu_def apply_alu_inner_def)
  next
    case const
    have "x = smin d" "y = smin s"
      using scalar_is_constant_mem(1) const(2,3) scalar_memD(6) assms(3,4) by blast+
    moreover have "\<not> (is_shift op \<and> (smin s <s 0 \<or> bitness width \<le>s smax s))"
      using const(1) by (auto simp: order_uint)
    ultimately show ?thesis
      using const(2,3) by (cases width) (simp_all add: apply_alu_def apply_alu_inner_def)
  next
    case range
    then have ng: "\<not> (is_shift op \<and> (smin s <s 0 \<or> bitness width \<le>s smax s))"
      by (auto simp: order_uint)
    have wf: "tnum_wf (alu_tnum op (stnum d) (stnum s) (smin s) (smax s))"
      using assms(1) by (simp add: alu_tnum_wf scalar_wf_def)
    show ?thesis
    proof (cases width)
      case W64
      have "apply_alu_inner op W64 d s = synced (alu_bounds (alu64_signed op (scalar_signed d) (scalar_signed s))
          (alu64_unsigned op (scalar_unsigned d) (if is_shift op then (smin s, smax s) else scalar_unsigned s))
          (alu_tnum op (stnum d) (stnum s) (smin s) (smax s)) d)"
        using range(2) ng W64 unfolding apply_alu_inner_def Let_def by auto
      then show ?thesis
        using synced_sound [OF scalar_wf_alu_bounds [OF wf] apply_alu64_sound [OF assms(1-4)]] W64 assms(5) range(1)
        by (simp add: apply_alu_def)
    next
      case W32
      obtain rmin rmax where r: "alu32_range op (u32_min d, u32_max d) (u32_min s, u32_max s) = (rmin, rmax)"
        by fastforce
      have "apply_alu_inner op W32 d s = synced (alu_bounds (ucast rmin, ucast rmax) (ucast rmin, ucast rmax)
          (tnum_subreg (alu_tnum op (stnum d) (stnum s) (smin s) (smax s))) d)"
        using range(2) ng W32 r unfolding apply_alu_inner_def Let_def by auto
      then show ?thesis
        using synced_sound [OF scalar_wf_alu_bounds [OF tnum_wf_subreg [OF wf]] apply_alu32_sound [OF assms(1-4) _ _ r]]
          W32 assms(5) range(1)
        by (simp add: apply_alu_def)
    qed
  qed
qed

lemma apply_alu_wf [wf_intros]:
  assumes "scalar_wf d"
  shows "scalar_wf (apply_alu op width d s)"
proof -
  have "tnum_wf (alu_tnum op (stnum d) (stnum s) (smin s) (smax s))"
    using assms by (simp add: alu_tnum_wf scalar_wf_def)
  then have "scalar_wf (apply_alu_inner op width d s)"
    unfolding apply_alu_inner_def Let_def
    by (auto simp: wf_intros scalar_wf_alu_bounds split: alu_width.splits prod.splits)
  then show ?thesis by (simp add: apply_alu_def)
qed

section \<open>Sequences of transfers\<close>

text \<open>
  The contract of a sound transfer function: an abstract and a concrete step on an accumulator
  that keep well-formedness and membership wherever the side condition holds. A straight-line
  sequence of such steps is then sound.
\<close>

locale sound_transfer =
  fixes wf :: "'a \<Rightarrow> bool"
    and mem :: "'a \<Rightarrow> 'c \<Rightarrow> bool"
    and ok :: "'o \<Rightarrow> 'a \<Rightarrow> 'a \<Rightarrow> bool"
    and astep :: "'o \<Rightarrow> 'a \<Rightarrow> 'a \<Rightarrow> 'a"
    and cstep :: "'o \<Rightarrow> 'c \<Rightarrow> 'c \<Rightarrow> 'c"
  assumes step_wf: "wf d \<Longrightarrow> wf (astep i d s)"
    and step_sound: "wf d \<Longrightarrow> wf s \<Longrightarrow> mem d x \<Longrightarrow> mem s y \<Longrightarrow> ok i d s \<Longrightarrow> mem (astep i d s) (cstep i x y)"
begin

fun arun :: "('o \<times> 'a) list \<Rightarrow> 'a \<Rightarrow> 'a" where
  "arun [] d = d"
| "arun ((i, s) # is) d = arun is (astep i d s)"

fun crun :: "('o \<times> 'c) list \<Rightarrow> 'c \<Rightarrow> 'c" where
  "crun [] x = x"
| "crun ((i, y) # is) x = crun is (cstep i x y)"

fun run_ok :: "('o \<times> 'a) list \<Rightarrow> 'a \<Rightarrow> bool" where
  "run_ok [] d \<longleftrightarrow> True"
| "run_ok ((i, s) # is) d \<longleftrightarrow> wf s \<and> ok i d s \<and> run_ok is (astep i d s)"

lemma run_sound:
  assumes "list_all2 (\<lambda>(i, s) (j, y). i = j \<and> mem s y) as cs" "run_ok as d" "wf d" "mem d x"
  shows "mem (arun as d) (crun cs x)"
  using assms
proof (induction as cs arbitrary: d x rule: list_all2_induct)
  case Nil
  then show ?case by simp
next
  case (Cons a as c cs)
  then show ?case
    by (cases a; cases c) (auto simp: step_wf step_sound)
qed

end

definition alu_step :: "alu_op \<times> alu_width \<Rightarrow> scalar_bounds \<Rightarrow> scalar_bounds \<Rightarrow> scalar_bounds" where
  "alu_step i d s = apply_alu (fst i) (snd i) d s"

definition alu_cstep :: "alu_op \<times> alu_width \<Rightarrow> u64 \<Rightarrow> u64 \<Rightarrow> u64" where
  "alu_cstep i x y = alu_value (fst i) (snd i) x y"

definition alu_step_ok :: "alu_op \<times> alu_width \<Rightarrow> scalar_bounds \<Rightarrow> scalar_bounds \<Rightarrow> bool" where
  "alu_step_ok i d s \<longleftrightarrow> alu_ok (fst i) (snd i) d s"

interpretation alu: sound_transfer scalar_wf scalar_mem alu_step_ok alu_step alu_cstep
  by unfold_locales (simp_all add: alu_step_def alu_cstep_def alu_step_ok_def apply_alu_wf apply_alu_mem)

section \<open>Properties\<close>

text \<open>
  C4: the transfer function of every ALU operation, in both widths, covers the concrete result of
  every pair of members of its operands, on the operands \<open>alu_ok\<close> admits, and keeps the scalar well
  formed. (\<open>alu_ok\<close> excludes the operand shapes on which the code loses values; the three lemmas after
  it show that each of these exclusions is needed.)
\<close>

theorem apply_alu_correct:
  assumes "scalar_wf d" "scalar_wf s" "scalar_mem d x" "scalar_mem s y" "alu_ok op width d s"
  shows "scalar_mem (apply_alu op width d s) (alu_value op width x y) \<and> scalar_wf (apply_alu op width d s)"
  using assms by (simp add: apply_alu_mem apply_alu_wf)

theorem apply_alu_correct_witness:
  "scalar_mem (apply_alu Alu_Add W64 (scalar_from_signed (-4) 10) (scalar_from_signed 1 2)) (7 + 2)"
proof -
  have "scalar_wf (scalar_from_signed (-4) 10)" "scalar_wf (scalar_from_signed 1 2)"
    "scalar_mem (scalar_from_signed (-4) 10) 7" "scalar_mem (scalar_from_signed 1 2) 2"
    "alu_ok Alu_Add W64 (scalar_from_signed (-4) 10) (scalar_from_signed 1 2)"
    by code_simp+
  then have "scalar_mem (apply_alu Alu_Add W64 (scalar_from_signed (-4) 10) (scalar_from_signed 1 2))
      (alu_value Alu_Add W64 7 2)"
    using apply_alu_correct by blast
  then show ?thesis by simp
qed


lemma arsh32_loses_values:
  "scalar_mem (scalar_from_signed 0 0xFFFFFFFF) 0x80000000 \<and>
   \<not> scalar_mem (apply_alu Alu_Arsh W32 (scalar_from_signed 0 0xFFFFFFFF) (scalar_constant 1))
      (alu_value Alu_Arsh W32 0x80000000 1)"
  by code_simp

lemma mod64_loses_values:
  "scalar_mem (scalar_from_signed 0 10) 7 \<and>
   \<not> scalar_mem (apply_alu Alu_Mod W64 (scalar_from_signed 0 10) (scalar_constant (-3)))
      (alu_value Alu_Mod W64 7 (-3))"
  by code_simp



end
