(* ===== verification/Branch.thy ===== *)
theory Branch
  imports Alu
begin

text \<open>
  Conditional branches of \<open>src/src/exec.rs\<close>: the refinement of the operand bounds on the two
  sides of a comparison (\<open>refine_cmp\<close>), the static verdicts (\<open>is_branch_taken\<close>,
  \<open>jset_verdict\<close>, \<open>jmp32_verdict\<close>) and the branch target. The \<open>WrapInt\<close> trait of the
  sources, with its implementations for \<open>i64\<close> and \<open>u64\<close>, is the locale \<open>wrap_int\<close> with its two
  interpretations; the generic functions take the order as an argument. The concrete meaning of
  a comparison is the scalar case of \<open>concrete_cond\<close> in \<open>src/src/concrete.rs\<close>.
\<close>

section \<open>Comparisons\<close>

datatype ord_op = Ord_Gt | Ord_Ge | Ord_Lt | Ord_Le

datatype cond_op =
  Cond_Eq | Cond_Ne | Cond_Ugt | Cond_Uge | Cond_Ult | Cond_Ule
  | Cond_Sgt | Cond_Sge | Cond_Slt | Cond_Sle

datatype jmp32_op =
  J32_Eq | J32_Ne | J32_Gt | J32_Ge | J32_Lt | J32_Le | J32_Sgt | J32_Sge | J32_Slt | J32_Sle

datatype branch_verdict = AlwaysTaken | AlwaysNotTaken | Verdict_Unknown

fun cond_ord :: "cond_op \<Rightarrow> ord_op option" where
  "cond_ord Cond_Ugt = Some Ord_Gt"
| "cond_ord Cond_Sgt = Some Ord_Gt"
| "cond_ord Cond_Uge = Some Ord_Ge"
| "cond_ord Cond_Sge = Some Ord_Ge"
| "cond_ord Cond_Ult = Some Ord_Lt"
| "cond_ord Cond_Slt = Some Ord_Lt"
| "cond_ord Cond_Ule = Some Ord_Le"
| "cond_ord Cond_Sle = Some Ord_Le"
| "cond_ord Cond_Eq = None"
| "cond_ord Cond_Ne = None"

fun cond_is_signed :: "cond_op \<Rightarrow> bool" where
  "cond_is_signed op \<longleftrightarrow> op = Cond_Sgt \<or> op = Cond_Sge \<or> op = Cond_Slt \<or> op = Cond_Sle"

fun cond_symbol :: "cond_op \<Rightarrow> string" where
  "cond_symbol Cond_Eq = ''==''"
| "cond_symbol Cond_Ne = ''!=''"
| "cond_symbol Cond_Ugt = ''>''"
| "cond_symbol Cond_Sgt = ''>''"
| "cond_symbol Cond_Uge = ''>=''"
| "cond_symbol Cond_Sge = ''>=''"
| "cond_symbol Cond_Ult = ''<''"
| "cond_symbol Cond_Slt = ''<''"
| "cond_symbol Cond_Ule = ''<=''"
| "cond_symbol Cond_Sle = ''<=''"

fun concrete_cond :: "cond_op \<Rightarrow> u64 \<Rightarrow> u64 \<Rightarrow> bool" where
  "concrete_cond Cond_Eq d s \<longleftrightarrow> d = s"
| "concrete_cond Cond_Ne d s \<longleftrightarrow> d \<noteq> s"
| "concrete_cond Cond_Ugt d s \<longleftrightarrow> s < d"
| "concrete_cond Cond_Uge d s \<longleftrightarrow> s \<le> d"
| "concrete_cond Cond_Ult d s \<longleftrightarrow> d < s"
| "concrete_cond Cond_Ule d s \<longleftrightarrow> d \<le> s"
| "concrete_cond Cond_Sgt d s \<longleftrightarrow> s <s d"
| "concrete_cond Cond_Sge d s \<longleftrightarrow> s \<le>s d"
| "concrete_cond Cond_Slt d s \<longleftrightarrow> d <s s"
| "concrete_cond Cond_Sle d s \<longleftrightarrow> d \<le>s s"

definition branch_target :: "u32 \<Rightarrow> i16 \<Rightarrow> u32" where
  "branch_target pc off = pc + 1 + scast off"

section \<open>Refinement of one interval family\<close>

text \<open>The generic functions over \<open>WrapInt\<close>: the order \<open>le\<close> is the one of the instance.\<close>

definition max_by :: "('a \<Rightarrow> 'a \<Rightarrow> bool) \<Rightarrow> 'a \<Rightarrow> 'a \<Rightarrow> 'a" where
  "max_by le a b = (if le a b then b else a)"

definition min_by :: "('a \<Rightarrow> 'a \<Rightarrow> bool) \<Rightarrow> 'a \<Rightarrow> 'a \<Rightarrow> 'a" where
  "min_by le a b = (if le a b then a else b)"

type_synonym range64 = "u64 \<times> u64"
type_synonym refined_family = "(range64 \<times> range64) \<times> (range64 \<times> range64)"

fun refine_ordered :: "(u64 \<Rightarrow> u64 \<Rightarrow> bool) \<Rightarrow> ord_op \<Rightarrow> range64 \<Rightarrow> range64 \<Rightarrow> refined_family" where
  "refine_ordered le Ord_Gt (d0, d1) (s0, s1) =
     (((max_by le d0 (s0 + 1), d1), (s0, min_by le s1 (d1 - 1))),
      ((d0, min_by le d1 s1), (max_by le s0 d0, s1)))"
| "refine_ordered le Ord_Ge (d0, d1) (s0, s1) =
     (((max_by le d0 s0, d1), (s0, min_by le s1 d1)),
      ((d0, min_by le d1 (s0 - 1)), (max_by le s0 (d0 + 1), s1)))"
| "refine_ordered le Ord_Lt (d0, d1) (s0, s1) =
     (((d0, min_by le d1 (s1 - 1)), (max_by le s0 (d0 + 1), s1)),
      ((max_by le d0 s0, d1), (s0, min_by le s1 d1)))"
| "refine_ordered le Ord_Le (d0, d1) (s0, s1) =
     (((d0, min_by le d1 s1), (max_by le s0 d0, s1)),
      ((max_by le d0 (s0 + 1), d1), (s0, min_by le s1 (d1 - 1))))"

fun exclude_interval ::
  "(u64 \<Rightarrow> u64 \<Rightarrow> bool) \<Rightarrow> u64 \<Rightarrow> u64 \<Rightarrow> range64 \<Rightarrow> range64 \<Rightarrow> range64 option" where
  "exclude_interval le MINV MAXV (a0, a1) (b0, b1) =
     (if le b0 a0 \<and> le a1 b1 then Some (MAXV, MINV)
      else if le b0 a0 then Some (b1 + 1, a1)
      else if le a1 b1 then Some (a0, b0 - 1)
      else None)"

fun ordered_verdict :: "(u64 \<Rightarrow> u64 \<Rightarrow> bool) \<Rightarrow> ord_op \<Rightarrow> range64 \<Rightarrow> range64 \<Rightarrow> branch_verdict" where
  "ordered_verdict le Ord_Gt (d0, d1) (s0, s1) =
     (if \<not> le d0 s1 then AlwaysTaken else if le d1 s0 then AlwaysNotTaken else Verdict_Unknown)"
| "ordered_verdict le Ord_Ge (d0, d1) (s0, s1) =
     (if le s1 d0 then AlwaysTaken else if \<not> le s0 d1 then AlwaysNotTaken else Verdict_Unknown)"
| "ordered_verdict le Ord_Lt (d0, d1) (s0, s1) =
     (if \<not> le s0 d1 then AlwaysTaken else if le s1 d0 then AlwaysNotTaken else Verdict_Unknown)"
| "ordered_verdict le Ord_Le (d0, d1) (s0, s1) =
     (if le d1 s0 then AlwaysTaken else if \<not> le d0 s1 then AlwaysNotTaken else Verdict_Unknown)"

fun ranges_disjoint :: "(u64 \<Rightarrow> u64 \<Rightarrow> bool) \<Rightarrow> range64 \<Rightarrow> range64 \<Rightarrow> bool" where
  "ranges_disjoint le (a0, a1) (b0, b1) \<longleftrightarrow> \<not> le b0 a1 \<or> \<not> le a0 b1"

section \<open>Refinement of the scalar bounds\<close>

type_synonym refined_pair = "scalar_bounds \<times> scalar_bounds"
type_synonym refined_branches = "refined_pair \<times> refined_pair"

fun with_signed :: "scalar_bounds \<Rightarrow> range64 \<Rightarrow> scalar_bounds" where
  "with_signed b (r0, r1) = b\<lparr>smin := r0, smax := r1\<rparr>"

fun with_unsigned :: "scalar_bounds \<Rightarrow> range64 \<Rightarrow> scalar_bounds" where
  "with_unsigned b (r0, r1) = b\<lparr>umin := r0, umax := r1\<rparr>"

definition exclude_bounds :: "scalar_bounds \<Rightarrow> scalar_bounds \<Rightarrow> scalar_bounds" where
  "exclude_bounds a b =
     (if \<not> scalar_is_constant b then a
      else
        let s = unwrap_or (exclude_interval (\<le>s) i64_MIN i64_MAX (scalar_signed a) (smin b, smin b)) (scalar_signed a);
            u = unwrap_or (exclude_interval (\<le>) 0 max_word_w (scalar_unsigned a) (umin b, umin b)) (scalar_unsigned a)
        in \<lparr>smin = fst s, smax = snd s, umin = fst u, umax = snd u,
            s32_min = i32_MIN, s32_max = i32_MAX, u32_min = 0, u32_max = max_word_w,
            stnum = stnum a, precise = False, sid = 0, delta = 0\<rparr>)"

definition bounds_inter :: "scalar_bounds \<Rightarrow> scalar_bounds \<Rightarrow> scalar_bounds" where
  "bounds_inter dst src =
     \<lparr>smin = s_max (smin dst) (smin src), smax = s_min (smax dst) (smax src),
      umin = max (umin dst) (umin src), umax = min (umax dst) (umax src),
      s32_min = i32_MIN, s32_max = i32_MAX, u32_min = 0, u32_max = max_word_w,
      stnum = tnum_intersect (stnum dst) (stnum src), precise = False, sid = 0, delta = 0\<rparr>"

definition refine_eq :: "scalar_bounds \<Rightarrow> scalar_bounds \<Rightarrow> refined_branches" where
  "refine_eq dst src =
     (let inter = synced (bounds_inter dst src)
      in ((inter, inter), (synced (exclude_bounds dst src), synced (exclude_bounds src dst))))"

definition refine_ne :: "scalar_bounds \<Rightarrow> scalar_bounds \<Rightarrow> refined_branches" where
  "refine_ne dst src =
     (let inter = synced (bounds_inter dst src)
      in ((synced (exclude_bounds dst src), synced (exclude_bounds src dst)), (inter, inter)))"

definition refine_cmp :: "cond_op \<Rightarrow> scalar_bounds \<Rightarrow> scalar_bounds \<Rightarrow> refined_branches" where
  "refine_cmp op dst src =
     (case cond_ord op of
        None \<Rightarrow> if op = Cond_Eq then refine_eq dst src else refine_ne dst src
      | Some ord \<Rightarrow>
          if cond_is_signed op then
            let ((td, ts), (fd, fs)) = refine_ordered (\<le>s) ord (scalar_signed dst) (scalar_signed src)
            in ((synced (with_signed dst td), synced (with_signed src ts)),
                (synced (with_signed dst fd), synced (with_signed src fs)))
          else
            let ((td, ts), (fd, fs)) = refine_ordered (\<le>) ord (scalar_unsigned dst) (scalar_unsigned src)
            in ((synced (with_unsigned dst td), synced (with_unsigned src ts)),
                (synced (with_unsigned dst fd), synced (with_unsigned src fs))))"

section \<open>Static verdicts\<close>

definition same_constant :: "scalar_bounds \<Rightarrow> scalar_bounds \<Rightarrow> bool" where
  "same_constant dst src \<longleftrightarrow>
     scalar_is_constant dst \<and> scalar_is_constant src \<and> smin dst = smin src \<and> umin dst = umin src"

definition bounds_disjoint :: "scalar_bounds \<Rightarrow> scalar_bounds \<Rightarrow> bool" where
  "bounds_disjoint dst src \<longleftrightarrow>
     ranges_disjoint (\<le>s) (scalar_signed dst) (scalar_signed src) \<or>
     ranges_disjoint (\<le>) (scalar_unsigned dst) (scalar_unsigned src)"

definition is_branch_taken :: "cond_op \<Rightarrow> scalar_bounds \<Rightarrow> scalar_bounds \<Rightarrow> branch_verdict" where
  "is_branch_taken op dst src =
     (case cond_ord op of
        None \<Rightarrow>
          if op = Cond_Eq then
            (if same_constant dst src then AlwaysTaken
             else if bounds_disjoint dst src then AlwaysNotTaken
             else Verdict_Unknown)
          else
            (if same_constant dst src then AlwaysNotTaken
             else if bounds_disjoint dst src then AlwaysTaken
             else Verdict_Unknown)
      | Some ord \<Rightarrow>
          if cond_is_signed op
          then ordered_verdict (\<le>s) ord (scalar_signed dst) (scalar_signed src)
          else ordered_verdict (\<le>) ord (scalar_unsigned dst) (scalar_unsigned src))"

definition jset_verdict :: "scalar_bounds \<Rightarrow> scalar_bounds \<Rightarrow> bool option" where
  "jset_verdict dst src =
     (if scalar_is_constant dst \<and> scalar_is_constant src then Some (umin dst AND umin src \<noteq> 0)
      else
        let d1 = tvalue (stnum dst) AND NOT (tmask (stnum dst));
            s1 = tvalue (stnum src) AND NOT (tmask (stnum src))
        in if d1 AND s1 \<noteq> 0 then Some True
           else
             let dp = tvalue (stnum dst) OR tmask (stnum dst);
                 sp = tvalue (stnum src) OR tmask (stnum src)
             in if dp AND sp = 0 then Some False else None)"

fun jmp32_cmp :: "jmp32_op \<Rightarrow> u32 \<Rightarrow> u32 \<Rightarrow> bool" where
  "jmp32_cmp J32_Eq d s \<longleftrightarrow> d = s"
| "jmp32_cmp J32_Ne d s \<longleftrightarrow> d \<noteq> s"
| "jmp32_cmp J32_Gt d s \<longleftrightarrow> s < d"
| "jmp32_cmp J32_Ge d s \<longleftrightarrow> s \<le> d"
| "jmp32_cmp J32_Lt d s \<longleftrightarrow> d < s"
| "jmp32_cmp J32_Le d s \<longleftrightarrow> d \<le> s"
| "jmp32_cmp J32_Sgt d s \<longleftrightarrow> s <s d"
| "jmp32_cmp J32_Sge d s \<longleftrightarrow> s \<le>s d"
| "jmp32_cmp J32_Slt d s \<longleftrightarrow> d <s s"
| "jmp32_cmp J32_Sle d s \<longleftrightarrow> d \<le>s s"

definition jmp32_verdict :: "scalar_bounds \<Rightarrow> scalar_bounds \<Rightarrow> jmp32_op \<Rightarrow> bool option" where
  "jmp32_verdict dst src op =
     (if \<not> scalar_is_constant dst \<or> \<not> scalar_is_constant src then None
      else Some (jmp32_cmp op (as_u32 (umin dst)) (as_u32 (umin src))))"

text \<open>The bounds of the fall-through side of \<open>jset dst, imm\<close> (\<open>jset_not_taken\<close>).\<close>

definition jset_cleared :: "scalar_bounds \<Rightarrow> i32 \<Rightarrow> scalar_bounds" where
  "jset_cleared b imm = apply_alu Alu_And W64 b (scalar_constant (scast (NOT imm)))"

section \<open>The trait and its two instances\<close>

locale wrap_int =
  fixes rd :: "u64 \<Rightarrow> int"
    and le :: "u64 \<Rightarrow> u64 \<Rightarrow> bool"
    and MINV :: u64
    and MAXV :: u64
  assumes le_rd: "le a b \<longleftrightarrow> rd a \<le> rd b"
    and rd_inj: "rd a = rd b \<Longrightarrow> a = b"
    and rd_min: "rd MINV \<le> rd a"
    and rd_max: "rd a \<le> rd MAXV"
    and rd_succ: "rd a < rd MAXV \<Longrightarrow> rd (a + 1) = rd a + 1"
    and rd_pred: "rd MINV < rd a \<Longrightarrow> rd (a - 1) = rd a - 1"
begin

definition inr :: "range64 \<Rightarrow> u64 \<Rightarrow> bool" where
  "inr r x \<longleftrightarrow> rd (fst r) \<le> rd x \<and> rd x \<le> rd (snd r)"

fun cmp :: "ord_op \<Rightarrow> u64 \<Rightarrow> u64 \<Rightarrow> bool" where
  "cmp Ord_Gt x y \<longleftrightarrow> rd y < rd x"
| "cmp Ord_Ge x y \<longleftrightarrow> rd y \<le> rd x"
| "cmp Ord_Lt x y \<longleftrightarrow> rd x < rd y"
| "cmp Ord_Le x y \<longleftrightarrow> rd x \<le> rd y"

lemma rd_max_by: "rd (max_by le a b) = max (rd a) (rd b)"
  by (simp add: max_by_def le_rd)

lemma rd_min_by: "rd (min_by le a b) = min (rd a) (rd b)"
  by (simp add: min_by_def le_rd)

lemma succ_le: "rd a < rd x \<Longrightarrow> rd (a + 1) \<le> rd x"
  using rd_succ [of a] rd_max [of x] by simp

lemma pred_ge: "rd x < rd a \<Longrightarrow> rd x \<le> rd (a - 1)"
  using rd_pred [of a] rd_min [of x] by simp

lemma refine_true:
  assumes "inr d x" "inr s y" "cmp op x y" "refine_ordered le op d s = ((td, ts), f)"
  shows "inr td x \<and> inr ts y"
proof -
  obtain d0 d1 s0 s1 where ds: "d = (d0, d1)" "s = (s0, s1)" by (cases d, cases s)
  show ?thesis
    using assms succ_le [of s0 x] succ_le [of d0 y] pred_ge [of y d1] pred_ge [of x s1]
    by (cases op) (auto simp: inr_def ds rd_max_by rd_min_by)
qed

lemma refine_false:
  assumes "inr d x" "inr s y" "\<not> cmp op x y" "refine_ordered le op d s = (t, (fd, fs))"
    and "op = Ord_Ge \<longrightarrow> fst s = snd s"
  shows "inr fd x \<and> inr fs y"
proof -
  obtain d0 d1 s0 s1 where ds: "d = (d0, d1)" "s = (s0, s1)" by (cases d, cases s)
  show ?thesis
    using assms succ_le [of s0 x] succ_le [of d0 y] pred_ge [of y d1] pred_ge [of x s1]
    by (cases op) (auto simp: inr_def ds rd_max_by rd_min_by)
qed

lemma exclude_sound:
  assumes "inr a x" "x \<noteq> c"
  shows "inr (unwrap_or (exclude_interval le MINV MAXV a (c, c)) a) x"
proof -
  have "rd x \<noteq> rd c" using assms(2) rd_inj by blast
  then show ?thesis
    using assms(1) succ_le [of c x] pred_ge [of x c]
    by (cases a) (auto simp: inr_def unwrap_or_def le_rd)
qed

lemma verdict_taken:
  "inr d x \<Longrightarrow> inr s y \<Longrightarrow> ordered_verdict le op d s = AlwaysTaken \<Longrightarrow> cmp op x y"
  by (cases op; cases d; cases s) (auto simp: inr_def le_rd split: if_splits)

lemma verdict_not_taken:
  "inr d x \<Longrightarrow> inr s y \<Longrightarrow> ordered_verdict le op d s = AlwaysNotTaken \<Longrightarrow> \<not> cmp op x y"
  by (cases op; cases d; cases s) (auto simp: inr_def le_rd split: if_splits)

lemma disjoint_neq: "ranges_disjoint le d s \<Longrightarrow> inr d x \<Longrightarrow> inr s y \<Longrightarrow> x \<noteq> y"
  by (cases d; cases s) (auto simp: inr_def le_rd)

end

interpretation sgn: wrap_int sint "(\<le>s)" i64_MIN i64_MAX
proof
  fix a b :: u64
  show "a \<le>s b \<longleftrightarrow> sint a \<le> sint b" by (rule word_sle_eq)
  show "sint a = sint b \<Longrightarrow> a = b" by (rule sint_eqI)
  show "sint i64_MIN \<le> sint a" "sint a \<le> sint i64_MAX" using sint64_bounds [of a] by simp_all
  show "sint (a + 1) = sint a + 1" if "sint a < sint i64_MAX"
    using that sint64_bounds [of a] by (intro sint64_add [of a 1, simplified]) simp_all
  show "sint (a - 1) = sint a - 1" if "sint i64_MIN < sint a"
    using that sint64_bounds [of a] by (intro sint64_sub [of a 1, simplified]) simp_all
qed

interpretation usgn: wrap_int uint "(\<le>)" 0 max_word_w
proof
  fix a b :: u64
  have m: "uint (max_word_w :: u64) = 2 ^ 64 - 1" by (simp add: unsigned_minus_1_eq_mask mask_eq_exp_minus_1)
  show "a \<le> b \<longleftrightarrow> uint a \<le> uint b" by (rule word_le_def)
  show "uint a = uint b \<Longrightarrow> a = b" by (simp add: word_uint_eq_iff)
  show "uint (0::u64) \<le> uint a" "uint a \<le> uint (max_word_w :: u64)" using uint64_bounds [of a] m by simp_all
  show "uint (a + 1) = uint a + 1" if "uint a < uint (max_word_w :: u64)"
    using that m by (intro uint64_add [of a 1, simplified]) simp_all
  show "uint (a - 1) = uint a - 1" if "uint (0::u64) < uint a"
    using that by (subst uint_sub_le) (simp_all add: word_le_def)
qed

section \<open>Soundness of the refinement and of the verdicts\<close>

lemma in_signed_inr: "in_signed b x \<longleftrightarrow> sgn.inr (scalar_signed b) x"
  by (simp add: in_signed_def sgn.inr_def scalar_signed_def)

lemma in_unsigned_inr: "in_unsigned b x \<longleftrightarrow> usgn.inr (scalar_unsigned b) x"
  by (simp add: in_unsigned_def usgn.inr_def scalar_unsigned_def word_le_def)

lemma concrete_cond_ord:
  assumes "cond_ord op = Some ord"
  shows "concrete_cond op x y \<longleftrightarrow> (if cond_is_signed op then sgn.cmp ord x y else usgn.cmp ord x y)"
  using assms by (cases op) (auto simp: order_uint)

lemma cond_ord_None: "cond_ord op = None \<longleftrightarrow> op = Cond_Eq \<or> op = Cond_Ne"
  by (cases op) simp_all

lemma with_signed_sound:
  assumes "scalar_wf b" "scalar_mem64 b x" "sgn.inr r x"
  shows "scalar_mem (synced (with_signed b r)) x"
  using assms
  by (cases r) (auto intro!: synced_sound simp: scalar_wf_def scalar_mem64_def in_range_defs sgn.inr_def)

lemma with_unsigned_sound:
  assumes "scalar_wf b" "scalar_mem64 b x" "usgn.inr r x"
  shows "scalar_mem (synced (with_unsigned b r)) x"
  using assms
  by (cases r) (auto intro!: synced_sound simp: scalar_wf_def scalar_mem64_def in_range_defs usgn.inr_def
      word_le_def)

lemma bounds_inter_sound:
  assumes "scalar_wf a" "scalar_wf b" "scalar_mem64 a x" "scalar_mem64 b x"
  shows "scalar_mem (synced (bounds_inter a b)) x"
  using assms
  by (intro synced_sound)
    (simp_all add: bounds_inter_def scalar_wf_def wf_intros scalar_mem64_def in_range_defs tnum_intersect_sound)

lemma exclude_bounds_sound:
  assumes "scalar_wf a" "scalar_mem64 a x" "scalar_mem64 b y" "x \<noteq> y"
  shows "scalar_mem (synced (exclude_bounds a b)) x"
proof (cases "scalar_is_constant b")
  case True
  let ?s = "unwrap_or (exclude_interval (\<le>s) i64_MIN i64_MAX (scalar_signed a) (smin b, smin b)) (scalar_signed a)"
  let ?u = "unwrap_or (exclude_interval (\<le>) 0 max_word_w (scalar_unsigned a) (umin b, umin b)) (scalar_unsigned a)"
  have y: "y = smin b" "y = umin b" using scalar_is_constant_mem [OF True assms(3)] by simp_all
  have "sgn.inr ?s x" "usgn.inr ?u x"
    using assms(2,4) y
    by (auto intro!: sgn.exclude_sound usgn.exclude_sound simp: scalar_mem64_def in_signed_inr in_unsigned_inr
        simp del: exclude_interval.simps)
  then show ?thesis
    using True assms(1,2) unfolding exclude_bounds_def Let_def
    by (intro synced_sound)
      (simp_all add: scalar_wf_def scalar_mem64_def in_range_defs sgn.inr_def usgn.inr_def word_le_def
        del: exclude_interval.simps)
next
  case False
  then show ?thesis using assms by (simp add: exclude_bounds_def synced_sound)
qed

text \<open>
  The false side of \<open>>=\<close> is sound when the source range of the compared family is a single
  value: the equation bounds the destination by the lower end of the source.
\<close>

definition refine_ok :: "cond_op \<Rightarrow> scalar_bounds \<Rightarrow> bool" where
  "refine_ok op src \<longleftrightarrow>
     (op = Cond_Uge \<longrightarrow> umin src = umax src) \<and> (op = Cond_Sge \<longrightarrow> smin src = smax src)"

lemma refine_cmp_ordered:
  assumes "cond_ord op = Some ord" "cond_is_signed op"
    and "refine_ordered (\<le>s) ord (scalar_signed dst) (scalar_signed src) = ((td, ts), (fd, fs))"
  shows "refine_cmp op dst src =
    ((synced (with_signed dst td), synced (with_signed src ts)),
     (synced (with_signed dst fd), synced (with_signed src fs)))"
  using assms by (simp add: refine_cmp_def del: cond_is_signed.simps)

lemma refine_cmp_ordered_unsigned:
  assumes "cond_ord op = Some ord" "\<not> cond_is_signed op"
    and "refine_ordered (\<le>) ord (scalar_unsigned dst) (scalar_unsigned src) = ((td, ts), (fd, fs))"
  shows "refine_cmp op dst src =
    ((synced (with_unsigned dst td), synced (with_unsigned src ts)),
     (synced (with_unsigned dst fd), synced (with_unsigned src fs)))"
  using assms by (simp add: refine_cmp_def del: cond_is_signed.simps)

lemma refine_cmp_mem:
  assumes wf: "scalar_wf dst" "scalar_wf src"
    and mem: "scalar_mem64 dst x" "scalar_mem64 src y"
    and r: "refine_cmp op dst src = ((td, ts), (fd, fs))"
  shows "concrete_cond op x y \<Longrightarrow> scalar_mem td x \<and> scalar_mem ts y"
    and "\<not> concrete_cond op x y \<Longrightarrow> refine_ok op src \<Longrightarrow> scalar_mem fd x \<and> scalar_mem fs y"
proof -
  have m: "sgn.inr (scalar_signed dst) x" "sgn.inr (scalar_signed src) y"
    "usgn.inr (scalar_unsigned dst) x" "usgn.inr (scalar_unsigned src) y"
    using mem by (simp_all add: scalar_mem64_def in_signed_inr in_unsigned_inr)
  have "(concrete_cond op x y \<longrightarrow> scalar_mem td x \<and> scalar_mem ts y) \<and>
      (\<not> concrete_cond op x y \<longrightarrow> refine_ok op src \<longrightarrow> scalar_mem fd x \<and> scalar_mem fs y)"
  proof (cases "cond_ord op")
    case None
    then consider "op = Cond_Eq" | "op = Cond_Ne" by (auto simp: cond_ord_None)
    then show ?thesis
      using r wf mem exclude_bounds_sound [OF wf(1) mem] exclude_bounds_sound [OF wf(2) mem(2,1)]
        bounds_inter_sound [OF wf mem(1), of] mem
      by cases (auto simp: refine_cmp_def refine_eq_def refine_ne_def Let_def)
  next
    case (Some ord)
    show ?thesis
    proof (cases "cond_is_signed op")
      case True
      obtain a b c d where ro: "refine_ordered (\<le>s) ord (scalar_signed dst) (scalar_signed src) = ((a, b), (c, d))"
        by (metis surj_pair)
      note eq = refine_cmp_ordered [OF Some True ro]
      have ok: "refine_ok op src \<Longrightarrow> ord = Ord_Ge \<longrightarrow> fst (scalar_signed src) = snd (scalar_signed src)"
        using Some True by (cases op) (auto simp: refine_ok_def scalar_signed_def)
      show ?thesis
        using r eq sgn.refine_true [OF m(1,2) _ ro] sgn.refine_false [OF m(1,2) _ ro] ok
          with_signed_sound [OF wf(1) mem(1), of a] with_signed_sound [OF wf(2) mem(2), of b]
          with_signed_sound [OF wf(1) mem(1), of c] with_signed_sound [OF wf(2) mem(2), of d]
        by (auto simp: concrete_cond_ord [OF Some] True simp del: cond_is_signed.simps)
    next
      case False
      obtain a b c d where ro: "refine_ordered (\<le>) ord (scalar_unsigned dst) (scalar_unsigned src) = ((a, b), (c, d))"
        by (metis surj_pair)
      note eq = refine_cmp_ordered_unsigned [OF Some False ro]
      have ok: "refine_ok op src \<Longrightarrow> ord = Ord_Ge \<longrightarrow> fst (scalar_unsigned src) = snd (scalar_unsigned src)"
        using Some False by (cases op) (auto simp: refine_ok_def scalar_unsigned_def)
      show ?thesis
        using r eq usgn.refine_true [OF m(3,4) _ ro] usgn.refine_false [OF m(3,4) _ ro] ok
          with_unsigned_sound [OF wf(1) mem(1), of a] with_unsigned_sound [OF wf(2) mem(2), of b]
          with_unsigned_sound [OF wf(1) mem(1), of c] with_unsigned_sound [OF wf(2) mem(2), of d]
        by (auto simp: concrete_cond_ord [OF Some] False simp del: cond_is_signed.simps)
    qed
  qed
  then show "concrete_cond op x y \<Longrightarrow> scalar_mem td x \<and> scalar_mem ts y"
    and "\<not> concrete_cond op x y \<Longrightarrow> refine_ok op src \<Longrightarrow> scalar_mem fd x \<and> scalar_mem fs y"
    by blast+
qed

lemma same_constant_eq:
  "same_constant dst src \<Longrightarrow> scalar_mem64 dst x \<Longrightarrow> scalar_mem64 src y \<Longrightarrow> x = y"
  using scalar_is_constant_mem by (auto simp: same_constant_def)

lemma bounds_disjoint_neq:
  "bounds_disjoint dst src \<Longrightarrow> scalar_mem64 dst x \<Longrightarrow> scalar_mem64 src y \<Longrightarrow> x \<noteq> y"
  using sgn.disjoint_neq [of "scalar_signed dst" "scalar_signed src" x y]
    usgn.disjoint_neq [of "scalar_unsigned dst" "scalar_unsigned src" x y]
  by (auto simp: bounds_disjoint_def scalar_mem64_def in_signed_inr in_unsigned_inr simp del: ranges_disjoint.simps)

lemma is_branch_taken_mem:
  assumes mem: "scalar_mem64 dst x" "scalar_mem64 src y"
  shows "is_branch_taken op dst src = AlwaysTaken \<Longrightarrow> concrete_cond op x y"
    and "is_branch_taken op dst src = AlwaysNotTaken \<Longrightarrow> \<not> concrete_cond op x y"
proof -
  have m: "sgn.inr (scalar_signed dst) x" "sgn.inr (scalar_signed src) y"
    "usgn.inr (scalar_unsigned dst) x" "usgn.inr (scalar_unsigned src) y"
    using mem by (simp_all add: scalar_mem64_def in_signed_inr in_unsigned_inr)
  have "(is_branch_taken op dst src = AlwaysTaken \<longrightarrow> concrete_cond op x y) \<and>
      (is_branch_taken op dst src = AlwaysNotTaken \<longrightarrow> \<not> concrete_cond op x y)"
  proof (cases "cond_ord op")
    case None
    then consider "op = Cond_Eq" | "op = Cond_Ne" by (auto simp: cond_ord_None)
    then show ?thesis
      using same_constant_eq [OF _ mem] bounds_disjoint_neq [OF _ mem]
      by cases (auto simp: is_branch_taken_def)
  next
    case (Some ord)
    then show ?thesis
      using sgn.verdict_taken [OF m(1,2)] sgn.verdict_not_taken [OF m(1,2)]
        usgn.verdict_taken [OF m(3,4)] usgn.verdict_not_taken [OF m(3,4)]
      by (auto simp: is_branch_taken_def concrete_cond_ord [OF Some] simp del: cond_is_signed.simps)
  qed
  then show "is_branch_taken op dst src = AlwaysTaken \<Longrightarrow> concrete_cond op x y"
    and "is_branch_taken op dst src = AlwaysNotTaken \<Longrightarrow> \<not> concrete_cond op x y"
    by blast+
qed

lemma tnum_bits_mem:
  assumes "tnum_contains t x"
  shows "bit (tvalue t AND NOT (tmask t)) i \<Longrightarrow> bit x i"
    and "bit x i \<Longrightarrow> bit (tvalue t OR tmask t) i"
  using assms bit_imp_le_length [of "tvalue t" i] tnum_contains_upper [OF assms, of i]
  by (auto simp: tnum_contains_iff bit_simps)

lemma jset_verdict_mem:
  assumes "scalar_mem64 dst x" "scalar_mem64 src y" "jset_verdict dst src = Some b"
  shows "b \<longleftrightarrow> x AND y \<noteq> 0"
proof (cases "scalar_is_constant dst \<and> scalar_is_constant src")
  case True
  then show ?thesis
    using assms scalar_is_constant_mem(2) by (auto simp: jset_verdict_def)
next
  case False
  have t: "tnum_contains (stnum dst) x" "tnum_contains (stnum src) y"
    using assms(1,2) by (simp_all add: scalar_mem64_def)
  let ?k = "\<lambda>t. tvalue t AND NOT (tmask t)" and ?p = "\<lambda>t. tvalue t OR tmask t"
  have one: "x AND y \<noteq> 0" if ne: "?k (stnum dst) AND ?k (stnum src) \<noteq> 0"
  proof -
    obtain i where "bit (?k (stnum dst) AND ?k (stnum src)) i"
      using ne by (metis bit_eqI bit_0_eq bot_apply bot_bool_def)
    then have "bit (?k (stnum dst)) i" "bit (?k (stnum src)) i" by (simp_all only: bit_and_iff)
    then have "bit (x AND y) i" using tnum_bits_mem(1) [OF t(1)] tnum_bits_mem(1) [OF t(2)]
      by (simp only: bit_and_iff)
    then show ?thesis by auto
  qed
  have zero: "x AND y = 0" if z: "?p (stnum dst) AND ?p (stnum src) = 0"
  proof (rule bit_eqI)
    fix i
    have "\<not> bit (?p (stnum dst) AND ?p (stnum src)) i" using z by simp
    then show "bit (x AND y) i \<longleftrightarrow> bit 0 i"
      using tnum_bits_mem(2) [OF t(1), of i] tnum_bits_mem(2) [OF t(2), of i] by (auto simp: bit_and_iff)
  qed
  show ?thesis
    using assms(3) one zero unfolding jset_verdict_def if_not_P [OF False] Let_def
    by (auto split: if_splits)
qed

lemma jmp32_verdict_mem:
  assumes "scalar_mem64 dst x" "scalar_mem64 src y" "jmp32_verdict dst src op = Some b"
  shows "b \<longleftrightarrow> jmp32_cmp op (as_u32 x) (as_u32 y)"
  using assms scalar_is_constant_mem(2) by (auto simp: jmp32_verdict_def split: if_splits)

lemma scast_not32: "(scast (NOT w) :: u64) = NOT (scast w)" for w :: i32
  by (rule bit_word_eqI) (auto simp: bit_simps)

lemma jset_cleared_mem:
  assumes "scalar_wf b" "scalar_mem b x" "x AND scast imm = 0"
  shows "scalar_mem (jset_cleared b imm) x"
proof -
  have "x AND NOT (scast imm) = x"
    by (rule bit_word_eqI) (use assms(3) in \<open>auto simp: bit_eq_iff bit_simps\<close>)
  moreover have "scalar_mem (jset_cleared b imm) (alu_value Alu_And W64 x (scast (NOT imm)))"
    unfolding jset_cleared_def using assms(1,2)
    by (intro apply_alu_mem) (simp_all add: wf_intros signed_ok_def)
  ultimately show ?thesis by (simp add: scast_not32)
qed

section \<open>Properties\<close>




text \<open>
  C20: a static branch verdict is right for every pair of members: a branch judged always taken holds,
  a branch judged never taken fails.
\<close>

theorem is_branch_taken_correct:
  assumes "scalar_mem64 dst x" "scalar_mem64 src y"
  shows "(is_branch_taken op dst src = AlwaysTaken \<longrightarrow> concrete_cond op x y) \<and>
    (is_branch_taken op dst src = AlwaysNotTaken \<longrightarrow> \<not> concrete_cond op x y)"
  using is_branch_taken_mem [OF assms] by blast

theorem is_branch_taken_correct_witness: "concrete_cond Cond_Sgt 20 3"
proof -
  have "scalar_mem64 (scalar_from_signed 10 30) 20" "scalar_mem64 (scalar_from_signed 0 5) 3"
    "is_branch_taken Cond_Sgt (scalar_from_signed 10 30) (scalar_from_signed 0 5) = AlwaysTaken"
    by code_simp+
  then show ?thesis using is_branch_taken_correct by blast
qed

text \<open>
  C32: the verdicts of the bit-test branch and of the 32-bit compares decide the concrete condition on
  every pair of members (the low halves, for the 32-bit compares).
\<close>

theorem test_verdicts_correct:
  assumes "scalar_mem64 dst x" "scalar_mem64 src y"
  shows "(\<forall>b. jset_verdict dst src = Some b \<longrightarrow> b = (x AND y \<noteq> 0)) \<and>
    (\<forall>b. jmp32_verdict dst src op = Some b \<longrightarrow> b = jmp32_cmp op (as_u32 x) (as_u32 y))"
  using jset_verdict_mem [OF assms] jmp32_verdict_mem [OF assms] by blast

theorem test_verdicts_correct_witness: "(8 :: u64) AND 3 = 0"
proof -
  have "scalar_mem64 (scalar_constant 8) 8" "scalar_mem64 (scalar_constant 3) 3" by code_simp+
  moreover have "jset_verdict (scalar_constant 8) (scalar_constant 3) = Some False" by code_simp
  ultimately show ?thesis using test_verdicts_correct by blast
qed

text \<open>
  On the branch where a bit test failed, clearing the tested bits keeps every value that can be
  there.
\<close>

theorem jset_cleared_correct:
  assumes "scalar_wf b" "scalar_mem b x" "x AND scast imm = 0"
  shows "scalar_mem (jset_cleared b imm) x"
  using assms by (rule jset_cleared_mem)

theorem jset_cleared_correct_witness: "scalar_mem (jset_cleared scalar_unknown 6) 9"
proof -
  have "scalar_wf scalar_unknown" "scalar_mem scalar_unknown 9" "(9 :: u64) AND scast (6 :: i32) = 0"
    by code_simp+
  then show ?thesis by (rule jset_cleared_correct)
qed

end
