(* ===== verification/Insn.thy ===== *)
theory Insn
  imports Branch
begin

text \<open>
  The instruction set and the decoder of \<open>src/src/insn.rs\<close>. The enum \<open>BpfInsn\<close> is the datatype
  \<open>bpf_insn\<close>: its constructors are those of the sources, where the ten binary ALU operations
  that exist in both widths (\<open>AddImm\<close>, \<open>Add32Imm\<close>, ...) share the constructors \<open>AluImm\<close> and
  \<open>AluReg\<close> with the operation and the width as arguments, the ten compares (\<open>Jeq\<close>, \<open>JeqImm\<close>, ...)
  share \<open>CondReg\<close> and \<open>CondImm\<close>, and \<open>Neg\<close>, \<open>Neg32\<close> are one constructor with the width. The
  opcode constants are the tables that list them; a byte string is a list of \<open>u8\<close>.
\<close>

section \<open>Data\<close>

datatype mem_size = Size_B | Size_H | Size_W | Size_DW

fun mem_bytes :: "mem_size \<Rightarrow> nat" where
  "mem_bytes Size_B = 1"
| "mem_bytes Size_H = 2"
| "mem_bytes Size_W = 4"
| "mem_bytes Size_DW = 8"

datatype mul_high = Mul_Low | UnsignedHigh | SignedHigh

definition mul_high_from_off :: "i16 \<Rightarrow> mul_high option" where
  "mul_high_from_off off =
     (if off = 0 then Some Mul_Low else if off = 1 then Some UnsignedHigh
      else if off = 2 then Some SignedHigh else None)"

fun mul_high_to_off :: "mul_high \<Rightarrow> i16" where
  "mul_high_to_off Mul_Low = 0"
| "mul_high_to_off UnsignedHigh = 1"
| "mul_high_to_off SignedHigh = 2"

datatype atomic_op = Atomic_Add | Atomic_Or | Atomic_And | Atomic_Xor | Atomic_Xchg | Atomic_Cmpxchg

definition atomic_from_imm :: "i32 \<Rightarrow> atomic_op option" where
  "atomic_from_imm imm =
     (let k = imm AND 0xf0 in
      if k = 0x00 then Some Atomic_Add
      else if k = 0x40 then Some Atomic_Or
      else if k = 0x50 then Some Atomic_And
      else if k = 0xa0 then Some Atomic_Xor
      else if k = 0xe0 then Some Atomic_Xchg
      else if k = 0xf0 then Some Atomic_Cmpxchg
      else None)"

fun atomic_to_imm :: "atomic_op \<Rightarrow> i32" where
  "atomic_to_imm Atomic_Add = 0x00"
| "atomic_to_imm Atomic_Or = 0x40"
| "atomic_to_imm Atomic_And = 0x50"
| "atomic_to_imm Atomic_Xor = 0xa0"
| "atomic_to_imm Atomic_Xchg = 0xe0"
| "atomic_to_imm Atomic_Cmpxchg = 0xf0"

definition requires_fetch :: "atomic_op \<Rightarrow> bool" where
  "requires_fetch op \<longleftrightarrow> op = Atomic_Xchg \<or> op = Atomic_Cmpxchg"

datatype bin_op =
  Bin_Add | Bin_Sub | Bin_And | Bin_Or | Bin_Xor | Bin_Lsh | Bin_Rsh | Bin_Arsh | Bin_Div | Bin_Mod

datatype (plugins only: code size) bpf_insn =
    MovImm u8 i32
  | MovReg u8 u8
  | Mov32Imm u8 i32
  | Mov32Reg u8 u8
  | MulImm u8 i32 mul_high
  | MulReg u8 u8 mul_high
  | Mul32Imm u8 i32
  | Mul32Reg u8 u8
  | AluImm bin_op alu_width u8 i32
  | AluReg bin_op alu_width u8 u8
  | NegInsn alu_width u8
  | LdMem u8 u8 i16 mem_size bool
  | StMem u8 u8 i16 mem_size
  | StMemImm i32 u8 i16 mem_size
  | LdImm64 u8 u64
  | LdMapFd u8 u32 u32 u32 u8
  | LdMapValue u8 u32 u32 u32 u32
  | LdImm64Second u32
  | CondReg cond_op u8 u8 i16
  | CondImm cond_op u8 i32 i16
  | Jmp i16
  | Jset u8 u8 i16
  | JsetImm u8 i32 i16
  | Jmp32 u8 "u8 option" "i32 option" i16 jmp32_op
  | Atomic u8 u8 i16 mem_size atomic_op bool
  | LdAbs mem_size i32
  | LdInd u8 mem_size i32
  | Call i32
  | CallSub i32
  | CallKfunc i32
  | Exit

fun is_conditional_branch :: "bpf_insn \<Rightarrow> bool" where
  "is_conditional_branch (CondReg op dst src off) \<longleftrightarrow> True"
| "is_conditional_branch (CondImm op dst imm off) \<longleftrightarrow> True"
| "is_conditional_branch (Jset dst src off) \<longleftrightarrow> True"
| "is_conditional_branch (JsetImm dst imm off) \<longleftrightarrow> True"
| "is_conditional_branch (Jmp32 dst src imm off op) \<longleftrightarrow> True"
| "is_conditional_branch _ \<longleftrightarrow> False"

fun is_control_flow :: "bpf_insn \<Rightarrow> bool" where
  "is_control_flow Exit \<longleftrightarrow> True"
| "is_control_flow (Jmp off) \<longleftrightarrow> True"
| "is_control_flow i \<longleftrightarrow> is_conditional_branch i"

datatype decode_error =
    UnknownOpcode u8
  | Unsupported u8 string
  | InvalidRegister u8
  | ReservedFields string
  | InvalidInstructionLength nat
  | LdImm64Truncated
  | DivisionByZero

section \<open>Opcodes\<close>

definition alu_imm_codes :: "(u8 \<times> bin_op \<times> alu_width) list" where
  "alu_imm_codes =
     [(0x07, Bin_Add, W64), (0x17, Bin_Sub, W64), (0x57, Bin_And, W64), (0x47, Bin_Or, W64),
      (0xa7, Bin_Xor, W64), (0x67, Bin_Lsh, W64), (0x77, Bin_Rsh, W64), (0xc7, Bin_Arsh, W64),
      (0x37, Bin_Div, W64), (0x97, Bin_Mod, W64),
      (0x04, Bin_Add, W32), (0x14, Bin_Sub, W32), (0x54, Bin_And, W32), (0x44, Bin_Or, W32),
      (0xa4, Bin_Xor, W32), (0x64, Bin_Lsh, W32), (0x74, Bin_Rsh, W32), (0xc4, Bin_Arsh, W32),
      (0x34, Bin_Div, W32), (0x94, Bin_Mod, W32)]"

definition alu_reg_codes :: "(u8 \<times> bin_op \<times> alu_width) list" where
  "alu_reg_codes =
     [(0x0f, Bin_Add, W64), (0x1f, Bin_Sub, W64), (0x5f, Bin_And, W64), (0x4f, Bin_Or, W64),
      (0xaf, Bin_Xor, W64), (0x6f, Bin_Lsh, W64), (0x7f, Bin_Rsh, W64), (0xcf, Bin_Arsh, W64),
      (0x3f, Bin_Div, W64), (0x9f, Bin_Mod, W64),
      (0x0c, Bin_Add, W32), (0x1c, Bin_Sub, W32), (0x5c, Bin_And, W32), (0x4c, Bin_Or, W32),
      (0xac, Bin_Xor, W32), (0x6c, Bin_Lsh, W32), (0x7c, Bin_Rsh, W32), (0xcc, Bin_Arsh, W32),
      (0x3c, Bin_Div, W32), (0x9c, Bin_Mod, W32)]"

text \<open>MOV, MUL and NEG: the opcodes of the ALU classes outside the two tables.\<close>

abbreviation "MOV_IMM \<equiv> (0xb7 :: u8)"
abbreviation "MOV_REG \<equiv> (0xbf :: u8)"
abbreviation "MOV32_IMM \<equiv> (0xb4 :: u8)"
abbreviation "MOV32_REG \<equiv> (0xbc :: u8)"
abbreviation "MUL_IMM \<equiv> (0x27 :: u8)"
abbreviation "MUL_REG \<equiv> (0x2f :: u8)"
abbreviation "MUL32_IMM \<equiv> (0x24 :: u8)"
abbreviation "MUL32_REG \<equiv> (0x2c :: u8)"
abbreviation "NEG \<equiv> (0x87 :: u8)"
abbreviation "NEG32 \<equiv> (0x84 :: u8)"
abbreviation "LD_IMM64 \<equiv> (0x18 :: u8)"
abbreviation "JMP \<equiv> (0x05 :: u8)"
abbreviation "JSET \<equiv> (0x4d :: u8)"
abbreviation "JSET_IMM \<equiv> (0x45 :: u8)"
abbreviation "CALL \<equiv> (0x85 :: u8)"
abbreviation "EXIT \<equiv> (0x95 :: u8)"
abbreviation "ATOMIC_W \<equiv> (0xc3 :: u8)"
abbreviation "ATOMIC_DW \<equiv> (0xdb :: u8)"

definition cond_reg_codes :: "(u8 \<times> cond_op) list" where
  "cond_reg_codes =
     [(0x1d, Cond_Eq), (0x5d, Cond_Ne), (0x2d, Cond_Ugt), (0x3d, Cond_Uge), (0xad, Cond_Ult),
      (0xbd, Cond_Ule), (0x6d, Cond_Sgt), (0x7d, Cond_Sge), (0xcd, Cond_Slt), (0xdd, Cond_Sle)]"

definition cond_imm_codes :: "(u8 \<times> cond_op) list" where
  "cond_imm_codes =
     [(0x15, Cond_Eq), (0x55, Cond_Ne), (0x25, Cond_Ugt), (0x35, Cond_Uge), (0xa5, Cond_Ult),
      (0xb5, Cond_Ule), (0x65, Cond_Sgt), (0x75, Cond_Sge), (0xc5, Cond_Slt), (0xd5, Cond_Sle)]"

definition jmp32_reg_codes :: "(u8 \<times> jmp32_op) list" where
  "jmp32_reg_codes =
     [(0x1e, J32_Eq), (0x5e, J32_Ne), (0x2e, J32_Gt), (0x3e, J32_Ge), (0xae, J32_Lt), (0xbe, J32_Le),
      (0x6e, J32_Sgt), (0x7e, J32_Sge), (0xce, J32_Slt), (0xde, J32_Sle)]"

definition jmp32_imm_codes :: "(u8 \<times> jmp32_op) list" where
  "jmp32_imm_codes =
     [(0x16, J32_Eq), (0x56, J32_Ne), (0x26, J32_Gt), (0x36, J32_Ge), (0xa6, J32_Lt), (0xb6, J32_Le),
      (0x66, J32_Sgt), (0x76, J32_Sge), (0xc6, J32_Slt), (0xd6, J32_Sle)]"

definition is_supported_alu :: "u8 \<Rightarrow> bool" where
  "is_supported_alu op \<longleftrightarrow>
     op \<in> {MOV_IMM, MOV_REG, MOV32_IMM, MOV32_REG, MUL_IMM, MUL_REG, MUL32_IMM, MUL32_REG, NEG, NEG32} \<or>
     map_of alu_imm_codes op \<noteq> None \<or> map_of alu_reg_codes op \<noteq> None"

definition unsupported_reason :: "u8 \<Rightarrow> string option" where
  "unsupported_reason op =
     (let c = op AND 0x07 in
      if c = 0x00 then Some ''BPF_LD legacy absolute/indirect loads are not implemented''
      else if c = 0x02 then Some ''BPF_ST (store-immediate) is not implemented''
      else if c = 0x06 then Some ''BPF_JMP32 (32-bit compares) is not implemented''
      else if c = 0x01 then Some ''only 8-byte loads from the stack frame are implemented''
      else if c = 0x03 then Some ''only 8-byte stores to the stack frame are implemented''
      else if c = 0x04 \<or> c = 0x07 then
        (let h = op AND 0xf0 in
         if h = 0xd0 then Some ''BPF_END is not implemented''
         else if h = 0xb0 then Some ''32-bit MOV (BPF_ALU | BPF_MOV) is not implemented''
         else None)
      else if c = 0x05 then
        (if op = 0x45 \<or> op = 0x4d then Some ''BPF_JSET is not implemented''
         else if op = 0x0d then Some ''indirect jumps (BPF_JA|BPF_X) are not implemented''
         else None)
      else None)"

section \<open>The decoder\<close>

definition i16_from_le :: "u8 \<Rightarrow> u8 \<Rightarrow> i16" where
  "i16_from_le a b = ucast a OR push_bit 8 (ucast b)"

definition u32_from_le :: "u8 \<Rightarrow> u8 \<Rightarrow> u8 \<Rightarrow> u8 \<Rightarrow> u32" where
  "u32_from_le a b c d =
     ucast a OR push_bit 8 (ucast b) OR push_bit 16 (ucast c) OR push_bit 24 (ucast d)"

text \<open>The source bit of the opcode and the field rule the ALU and jump classes share.\<close>

definition is_x :: "u8 \<Rightarrow> bool" where
  "is_x op \<longleftrightarrow> op AND 0x08 \<noteq> 0"

definition operand_fields_ok :: "u8 \<Rightarrow> u8 \<Rightarrow> i32 \<Rightarrow> bool" where
  "operand_fields_ok op src imm \<longleftrightarrow> \<not> (is_x op \<and> imm \<noteq> 0 \<or> \<not> is_x op \<and> src \<noteq> 0)"

definition alu_insn :: "u8 \<Rightarrow> u8 \<Rightarrow> u8 \<Rightarrow> i32 \<Rightarrow> mul_high \<Rightarrow> bpf_insn" where
  "alu_insn op dst src imm high =
     (if op = MOV_IMM then MovImm dst imm
      else if op = MOV_REG then MovReg dst src
      else if op = MOV32_IMM then Mov32Imm dst imm
      else if op = MOV32_REG then Mov32Reg dst src
      else if op = MUL_IMM then MulImm dst imm high
      else if op = MUL_REG then MulReg dst src high
      else if op = MUL32_IMM then Mul32Imm dst imm
      else if op = MUL32_REG then Mul32Reg dst src
      else if op = NEG then NegInsn W64 dst
      else if op = NEG32 then NegInsn W32 dst
      else case map_of alu_imm_codes op of
        Some (b, w) \<Rightarrow> AluImm b w dst imm
      | None \<Rightarrow> (case map_of alu_reg_codes op of Some (b, w) \<Rightarrow> AluReg b w dst src | None \<Rightarrow> undefined))"

definition parse_alu :: "u8 \<Rightarrow> u8 \<Rightarrow> u8 \<Rightarrow> i16 \<Rightarrow> i32 \<Rightarrow> (decode_error, bpf_insn) res" where
  "parse_alu op dst src off imm =
     (let mul64 = (op = MUL_IMM \<or> op = MUL_REG);
          high = (if mul64 then mul_high_from_off off else if off = 0 then Some Mul_Low else None)
      in if \<not> operand_fields_ok op src imm \<or> high = None then
           Err (ReservedFields (if op = MOV_IMM \<or> op = MOV_REG then ''BPF_MOV uses reserved fields''
                                else ''BPF_ALU uses reserved fields''))
         else if op \<in> {0x37, 0x97, 0x34, 0x94} \<and> imm = 0 then Err DivisionByZero
         else Ok (alu_insn op dst src imm (the high)))"

definition parse_cond :: "u8 \<Rightarrow> u8 \<Rightarrow> u8 \<Rightarrow> i16 \<Rightarrow> i32 \<Rightarrow> (decode_error, bpf_insn) res" where
  "parse_cond op dst src off imm =
     (if \<not> operand_fields_ok op src imm then Err (ReservedFields ''BPF_JMP uses reserved fields'')
      else Ok (case map_of cond_reg_codes op of
        Some c \<Rightarrow> CondReg c dst src off
      | None \<Rightarrow> (case map_of cond_imm_codes op of Some c \<Rightarrow> CondImm c dst imm off | None \<Rightarrow> undefined)))"

definition parse_jset :: "u8 \<Rightarrow> u8 \<Rightarrow> u8 \<Rightarrow> i16 \<Rightarrow> i32 \<Rightarrow> (decode_error, bpf_insn) res" where
  "parse_jset op dst src off imm =
     (if \<not> operand_fields_ok op src imm then Err (ReservedFields ''BPF_JMP uses reserved fields'')
      else Ok (if is_x op then Jset dst src off else JsetImm dst imm off))"

definition jmp32_nibble :: "u8 \<Rightarrow> jmp32_op" where
  "jmp32_nibble op =
     (let h = op AND 0xf0 in
      if h = 0x10 then J32_Eq else if h = 0x20 then J32_Gt else if h = 0x30 then J32_Ge
      else if h = 0x50 then J32_Ne else if h = 0x60 then J32_Sgt else if h = 0x70 then J32_Sge
      else if h = 0xa0 then J32_Lt else if h = 0xb0 then J32_Le else if h = 0xc0 then J32_Slt
      else if h = 0xd0 then J32_Sle else undefined)"

definition parse_jmp32 :: "u8 \<Rightarrow> u8 \<Rightarrow> u8 \<Rightarrow> i16 \<Rightarrow> i32 \<Rightarrow> (decode_error, bpf_insn) res" where
  "parse_jmp32 op dst src off imm =
     (if \<not> operand_fields_ok op src imm then Err (ReservedFields ''BPF_JMP32 uses reserved fields'')
      else Ok (Jmp32 dst (if is_x op then Some src else None) (if is_x op then None else Some imm) off
                 (jmp32_nibble op)))"

definition size_of_code :: "u8 \<Rightarrow> mem_size" where
  "size_of_code op =
     (let k = drop_bit 3 op AND 0x3 in
      if k = 0 then Size_W else if k = 1 then Size_H else if k = 2 then Size_B else Size_DW)"

definition parse_packet :: "u8 \<Rightarrow> u8 \<Rightarrow> u8 \<Rightarrow> i32 \<Rightarrow> (decode_error, bpf_insn) res" where
  "parse_packet op dst src imm =
     (if dst \<noteq> 0 then Err (ReservedFields ''BPF_LD ABS/IND uses reserved fields'')
      else if op < 0x40 then
        (if src \<noteq> 0 then Err (ReservedFields ''BPF_LD ABS uses reserved fields'')
         else Ok (LdAbs (size_of_code op) imm))
      else Ok (LdInd src (size_of_code op) imm))"

definition parse_call :: "u8 \<Rightarrow> u8 \<Rightarrow> i16 \<Rightarrow> i32 \<Rightarrow> (decode_error, bpf_insn) res" where
  "parse_call dst src off imm =
     (if dst \<noteq> 0 \<or> off \<noteq> 0 then Err (ReservedFields ''BPF_CALL uses reserved fields'')
      else if src = 0 then Ok (Call imm)
      else if src = 1 then Ok (CallSub imm)
      else if src = 2 then Ok (CallKfunc imm)
      else Err (ReservedFields ''BPF_CALL uses reserved fields''))"

definition is_mem_code :: "u8 \<Rightarrow> bool" where
  "is_mem_code op \<longleftrightarrow>
     op AND 0xe0 = 0x60 \<and> 1 \<le> op AND 0x07 \<and> op AND 0x07 \<le> 3 \<or> op AND 0xe0 = 0x80 \<and> op AND 0x07 = 1"

definition parse_mem :: "u8 \<Rightarrow> u8 \<Rightarrow> u8 \<Rightarrow> i16 \<Rightarrow> i32 \<Rightarrow> (decode_error, bpf_insn) res" where
  "parse_mem op dst src off imm =
     (if imm \<noteq> 0 \<and> op AND 0x07 \<noteq> 2 then Err (ReservedFields ''memory access uses reserved fields'')
      else
        let k = op AND 0x07 in
        if k = 1 then Ok (LdMem dst src off (size_of_code op) (op AND 0xe0 = 0x80))
        else if k = 2 then Ok (StMemImm imm dst off (size_of_code op))
        else if k = 3 then Ok (StMem src dst off (size_of_code op))
        else Err (Unsupported op ''memory access with an unsupported modifier''))"

definition parse_atomic :: "u8 \<Rightarrow> u8 \<Rightarrow> u8 \<Rightarrow> i16 \<Rightarrow> i32 \<Rightarrow> (decode_error, bpf_insn) res" where
  "parse_atomic op dst src off imm =
     (if imm AND 0x0e \<noteq> 0 then Err (ReservedFields ''BPF_ATOMIC uses reserved fields'')
      else case atomic_from_imm imm of
        None \<Rightarrow> Err (Unsupported op ''unknown atomic operation'')
      | Some aop \<Rightarrow>
          let fetch = (imm AND 0x01 \<noteq> 0)
          in if requires_fetch aop \<and> \<not> fetch
             then Err (ReservedFields ''BPF_ATOMIC uses reserved fields'')
             else Ok (Atomic dst src off (if op = ATOMIC_W then Size_W else Size_DW) aop fetch))"

definition parse_op :: "u8 \<Rightarrow> u8 \<Rightarrow> u8 \<Rightarrow> i16 \<Rightarrow> i32 \<Rightarrow> (decode_error, bpf_insn) res" where
  "parse_op op dst src off imm =
     (if is_supported_alu op then parse_alu op dst src off imm
      else if map_of cond_reg_codes op \<noteq> None \<or> map_of cond_imm_codes op \<noteq> None
        then parse_cond op dst src off imm
      else if op = JSET \<or> op = JSET_IMM then parse_jset op dst src off imm
      else if map_of jmp32_reg_codes op \<noteq> None \<or> map_of jmp32_imm_codes op \<noteq> None
        then parse_jmp32 op dst src off imm
      else if op \<in> {0x20, 0x28, 0x30, 0x40, 0x48, 0x50} then parse_packet op dst src imm
      else if op = JMP then
        (if src \<noteq> 0 \<or> dst \<noteq> 0 \<or> imm \<noteq> 0 then Err (ReservedFields ''BPF_JA uses reserved fields'')
         else Ok (Jmp off))
      else if op = CALL then parse_call dst src off imm
      else if op = EXIT then
        (if src \<noteq> 0 \<or> dst \<noteq> 0 \<or> imm \<noteq> 0 then Err (ReservedFields ''BPF_EXIT uses reserved fields'')
         else Ok Exit)
      else if op = LD_IMM64 then Err LdImm64Truncated
      else if is_mem_code op then parse_mem op dst src off imm
      else if op = ATOMIC_W \<or> op = ATOMIC_DW then parse_atomic op dst src off imm
      else case unsupported_reason op of
        Some reason \<Rightarrow> Err (Unsupported op reason)
      | None \<Rightarrow> Err (UnknownOpcode op))"

definition parse_insn :: "u8 list \<Rightarrow> (decode_error, bpf_insn) res" where
  "parse_insn bytes =
     (case bytes of
        [b0, b1, b2, b3, b4, b5, b6, b7] \<Rightarrow>
          let dst = b1 AND 0x0F;
              src = drop_bit 4 b1 AND 0x0F
          in if 10 < dst then Err (InvalidRegister dst)
             else if 10 < src then Err (InvalidRegister src)
             else parse_op b0 dst src (i16_from_le b2 b3) (u32_from_le b4 b5 b6 b7)
      | _ \<Rightarrow> Err (InvalidInstructionLength (length bytes)))"

definition parse_ldimm64 :: "u8 list \<Rightarrow> u8 list \<Rightarrow> (decode_error, bpf_insn) res" where
  "parse_ldimm64 first second =
     (case first of
        [f0, f1, f2, f3, f4, f5, f6, f7] \<Rightarrow>
          (case second of
             [s0, s1, s2, s3, s4, s5, s6, s7] \<Rightarrow>
               let dst = f1 AND 0x0F;
                   src = drop_bit 4 f1 AND 0x0F;
                   imm_lo = u32_from_le f4 f5 f6 f7;
                   imm_hi = u32_from_le s4 s5 s6 s7
               in if 10 < dst then Err (InvalidRegister dst)
                  else if i16_from_le f2 f3 \<noteq> 0 then Err (ReservedFields ''BPF_LD uses reserved fields'')
                  else if s0 \<noteq> 0 \<or> s1 \<noteq> 0 \<or> i16_from_le s2 s3 \<noteq> 0
                    then Err (ReservedFields ''invalid second part of bpf_ldimm64 insn'')
                  else if src = 0 then Ok (LdImm64 dst (push_bit 32 (ucast imm_hi) OR ucast imm_lo))
                  else if src = 1 then
                    (if imm_hi \<noteq> 0
                     then Err (ReservedFields ''BPF_PSEUDO_MAP_FD uses the second slot as a reserved field'')
                     else Ok (LdMapFd dst imm_lo 0 0 0))
                  else if src = 2 then Ok (LdMapValue dst imm_lo imm_hi 0 0)
                  else Err (Unsupported 0x18 ''unknown ldimm64 pseudo class'')
           | _ \<Rightarrow> Err (InvalidInstructionLength (length second)))
      | _ \<Rightarrow> Err (InvalidInstructionLength (length first)))"

text \<open>\<open>as_chunks\<close> of the standard library: the full chunks of eight bytes and the remainder.\<close>

fun as_chunks8 :: "u8 list \<Rightarrow> u8 list list \<times> u8 list" where
  "as_chunks8 (b0 # b1 # b2 # b3 # b4 # b5 # b6 # b7 # bs) =
     (case as_chunks8 bs of (cs, r) \<Rightarrow> ([b0, b1, b2, b3, b4, b5, b6, b7] # cs, r))"
| "as_chunks8 bs = ([], bs)"

definition slot_imm :: "u8 list \<Rightarrow> u32" where
  "slot_imm c = u32_from_le (c ! 4) (c ! 5) (c ! 6) (c ! 7)"

definition map_err :: "('e \<Rightarrow> 'f) \<Rightarrow> ('e, 'a) res \<Rightarrow> ('f, 'a) res" where
  "map_err f m = (case m of Inl e \<Rightarrow> Inl (f e) | Inr x \<Rightarrow> Inr x)"

text \<open>The loop of \<open>decode_program\<close>: the slot index and the chunks from it on.\<close>

fun decode_chunks :: "nat \<Rightarrow> u8 list list \<Rightarrow> (nat \<times> decode_error, bpf_insn list) res" where
  "decode_chunks idx [] = Ok []"
| "decode_chunks idx (c # cs) =
     (if c ! 0 = LD_IMM64 then
        (case cs of
           [] \<Rightarrow> Err (idx, LdImm64Truncated)
         | second # rest \<Rightarrow>
             rbind (map_err (Pair idx) (parse_ldimm64 c second)) (\<lambda>i.
             rbind (decode_chunks (idx + 2) rest) (\<lambda>is.
             Ok (i # LdImm64Second (slot_imm second) # is))))
      else
        rbind (map_err (Pair idx) (parse_insn c)) (\<lambda>i.
        rbind (decode_chunks (idx + 1) cs) (\<lambda>is. Ok (i # is))))"

definition decode_program :: "u8 list \<Rightarrow> (nat \<times> decode_error, bpf_insn list) res" where
  "decode_program bytes =
     (case as_chunks8 bytes of (chunks, remainder) \<Rightarrow>
        rbind (decode_chunks 0 chunks) (\<lambda>insns.
        if remainder \<noteq> [] then Err (length chunks, InvalidInstructionLength (length remainder))
        else Ok insns))"

end
