(* ===== verification/Cfg.thy ===== *)
theory Cfg
  imports Reg_State Insn
begin

text \<open>
  The control-flow pass of \<open>src/src/cfg.rs\<close>: subprogram discovery, the depth-first search that
  rejects dead code and malformed jumps and reports the loop heads, and the static stack budget of
  the call chains. Index arithmetic is done in 32 bits and wraps, as the release build does; an
  index out of the program is the value \<open>Cfg_Panic\<close>. The formatted messages are the constructors of
  \<open>cfg_msg\<close> with the values they print.
\<close>

section \<open>Subprograms\<close>

datatype cfg_msg =
    Call_Out_Of_Program u32
  | Recursive_Call u32
  | Call_Too_Deep nat
  | Stack_Too_Large nat nat
  | Jump_Crosses u32 u32 u32
  | Branch_Crosses u32 u32 u32
  | Not_An_Entry u32 "u32 list"
  | Falls_Through u32 u32
  | Mid_Ldimm64 u32
  | Empty_Program
  | No_Terminator u32 u32
  | Unreachable
  | Unresolved_Frame
  | Not_A_Subprogram

datatype cfg_error = Cfg_Fail "cfg_msg failure" | Cfg_Panic

abbreviation reject :: "u32 \<Rightarrow> cfg_msg \<Rightarrow> (cfg_error, 'a) res" where
  "reject pc m \<equiv> Err (Cfg_Fail (Failure pc m))"

definition call_target :: "u32 \<Rightarrow> i32 \<Rightarrow> u32" where
  "call_target pc off = pc + 1 + off"

fun collect_entries :: "nat \<Rightarrow> (nat \<times> bpf_insn) list \<Rightarrow> u32 list \<Rightarrow> (cfg_error, u32 list) res" where
  "collect_entries n [] starts = Ok starts"
| "collect_entries n ((pc, CallSub off) # is) starts =
     (let target = call_target (of_nat pc) off in
      if n \<le> unat target then reject (of_nat pc) (Call_Out_Of_Program target)
      else collect_entries n is (if target \<in> set starts then starts else starts @ [target]))"
| "collect_entries n ((pc, i) # is) starts = collect_entries n is starts"

definition add_subprog :: "bpf_insn list \<Rightarrow> (cfg_error, u32 list) res" where
  "add_subprog insns =
     rbind (collect_entries (length insns) (enumerate 0 insns) [0]) (\<lambda>starts. Ok (sort starts))"

definition find_subprog_range :: "u32 \<Rightarrow> u32 list \<Rightarrow> u32 \<Rightarrow> u32 \<times> u32" where
  "find_subprog_range idx sp cnt =
     (unwrap_or (find (\<lambda>s. s \<le> idx) (rev sp)) 0, unwrap_or (find (\<lambda>s. idx < s) sp) cnt)"

section \<open>Static stack depth\<close>

definition round8 :: "nat \<Rightarrow> nat" where
  "round8 n = (n + 7) div 8 * 8"

definition stack_use :: "int \<Rightarrow> mem_size \<Rightarrow> nat" where
  "stack_use off sz = round8 (nat (max (- off + int (mem_bytes sz)) 0))"

fun stack_access :: "bpf_insn \<Rightarrow> (u8 \<times> i16 \<times> mem_size) option" where
  "stack_access (LdMem dst base off sz sx) = Some (base, off, sz)"
| "stack_access (StMem src base off sz) = Some (base, off, sz)"
| "stack_access (StMemImm imm base off sz) = Some (base, off, sz)"
| "stack_access _ = None"

fun direct_depth :: "bpf_insn list \<Rightarrow> nat list \<Rightarrow> nat \<Rightarrow> (cfg_error, nat) res" where
  "direct_depth insns [] d = Ok d"
| "direct_depth insns (pc # pcs) d =
     (if length insns \<le> pc then Err Cfg_Panic
      else case stack_access (insns ! pc) of
        Some (base, off, sz) \<Rightarrow>
          direct_depth insns pcs (if base = 10 then max d (stack_use (sint off) sz) else d)
      | None \<Rightarrow> direct_depth insns pcs d)"

fun next_start :: "u32 list \<Rightarrow> u32 \<Rightarrow> u32" where
  "next_start [] cnt = cnt"
| "next_start (s # ss) cnt = s"

fun depths_from :: "bpf_insn list \<Rightarrow> u32 list \<Rightarrow> (cfg_error, nat list) res" where
  "depths_from insns [] = Ok []"
| "depths_from insns (start # rest) =
     rbind (direct_depth insns [unat start ..< unat (next_start rest (of_nat (length insns)))] 0)
       (\<lambda>d. rbind (depths_from insns rest) (\<lambda>ds. Ok (d # ds)))"

definition direct_stack_depths :: "bpf_insn list \<Rightarrow> u32 list \<Rightarrow> (cfg_error, nat list) res" where
  "direct_stack_depths insns sp = depths_from insns sp"

definition subprog_pcs :: "bpf_insn list \<Rightarrow> u32 list \<Rightarrow> nat \<Rightarrow> nat list" where
  "subprog_pcs insns sp idx =
     (let (start, end_pc) = find_subprog_range (sp ! idx) sp (of_nat (length insns)) in
      [unat start ..< unat end_pc])"

fun callee_at :: "bpf_insn \<Rightarrow> u32 list \<Rightarrow> nat \<Rightarrow> nat option" where
  "callee_at (CallSub off) sp pc = position (\<lambda>s. s = call_target (of_nat pc) off) sp"
| "callee_at i sp pc = None"

function visit_chain ::
  "bpf_insn list \<Rightarrow> u32 list \<Rightarrow> nat list \<Rightarrow> nat list \<Rightarrow> nat list \<Rightarrow> (cfg_error, unit) res" where
  "visit_chain insns sp depth chain [] = Ok ()"
| "visit_chain insns sp depth chain (pc # pcs) =
     (if length insns \<le> pc then Err Cfg_Panic
      else case callee_at (insns ! pc) sp pc of
        None \<Rightarrow> visit_chain insns sp depth chain pcs
      | Some callee \<Rightarrow>
          if callee \<in> set chain then reject (of_nat pc) (Recursive_Call (sp ! callee))
          else let chain' = chain @ [callee]; total = sum_list (map (\<lambda>c. depth ! c) chain') in
            if MAX_CALL_FRAMES < length chain'
            then reject (of_nat pc) (Call_Too_Deep (length chain' - 1))
            else if STACK_SIZE < total
            then reject (of_nat pc) (Stack_Too_Large (length chain') total)
            else case visit_chain insns sp depth chain' (subprog_pcs insns sp callee) of
                Inl e \<Rightarrow> Inl e
              | Inr _ \<Rightarrow> visit_chain insns sp depth chain pcs)"
  by pat_completeness auto

termination
  by (relation "measures [\<lambda>(insns, sp, depth, chain, pcs). Suc MAX_CALL_FRAMES - length chain,
      \<lambda>(insns, sp, depth, chain, pcs). length pcs]") auto

definition check_stack_call_chains ::
  "bpf_insn list \<Rightarrow> u32 list \<Rightarrow> nat list \<Rightarrow> (cfg_error, unit) res" where
  "check_stack_call_chains insns sp depth =
     visit_chain insns sp depth [0] (subprog_pcs insns sp 0)"

definition check_combined_stack_depth :: "bpf_insn list \<Rightarrow> u32 list \<Rightarrow> (cfg_error, unit) res" where
  "check_combined_stack_depth insns sp =
     rbind (direct_stack_depths insns sp) (check_stack_call_chains insns sp)"

definition frame_subprog_entry :: "verifier_state \<Rightarrow> u8 \<Rightarrow> bpf_insn list \<Rightarrow> u32 option" where
  "frame_subprog_entry s frameno insns =
     (if frameno = 0 then Some 0
      else if curframe s < frameno then None
      else
        let return_pc =
          (if frameno = curframe s then Some (ret_pc s)
           else if unat frameno < length (saved s)
             then map_option fr_ret_pc (saved s ! unat frameno) else None) in
        (case return_pc of
           None \<Rightarrow> None
         | Some rp \<Rightarrow>
             if rp = 0 \<or> length insns \<le> unat (rp - 1) then None
             else (case insns ! unat (rp - 1) of
                     CallSub off \<Rightarrow> Some (call_target (rp - 1) off)
                   | _ \<Rightarrow> None)))"

fun depth_of_states ::
  "bpf_insn list \<Rightarrow> u32 list \<Rightarrow> u32 \<Rightarrow> u8 \<times> i16 \<times> mem_size \<Rightarrow> verifier_state list \<Rightarrow> nat list \<Rightarrow>
   (cfg_error, nat list) res" where
  "depth_of_states insns sp pc acc [] depth = Ok depth"
| "depth_of_states insns sp pc (base, off, sz) (s # ss) depth =
     (if length (regs s) \<le> unat base then Err Cfg_Panic
      else case regs s ! unat base of
        PtrToStack mn mx al frameno \<Rightarrow>
          (case frame_subprog_entry s frameno insns of
             None \<Rightarrow> reject pc Unresolved_Frame
           | Some entry \<Rightarrow>
               (case position (\<lambda>start. start = entry) sp of
                  None \<Rightarrow> reject pc Not_A_Subprogram
                | Some idx \<Rightarrow>
                    depth_of_states insns sp pc (base, off, sz) ss
                      (depth[idx := max (depth ! idx) (stack_use (sint mn + sint off) sz)])))
      | _ \<Rightarrow> depth_of_states insns sp pc (base, off, sz) ss depth)"

fun depth_of_table ::
  "bpf_insn list \<Rightarrow> u32 list \<Rightarrow> (u32 \<times> verifier_state list) list \<Rightarrow> nat list \<Rightarrow>
   (cfg_error, nat list) res" where
  "depth_of_table insns sp [] depth = Ok depth"
| "depth_of_table insns sp ((pc, ss) # rest) depth =
     (case (if unat pc < length insns then stack_access (insns ! unat pc) else None) of
        None \<Rightarrow> depth_of_table insns sp rest depth
      | Some acc \<Rightarrow>
          rbind (depth_of_states insns sp pc acc ss depth) (depth_of_table insns sp rest))"

definition check_combined_stack_depth_with_states ::
  "bpf_insn list \<Rightarrow> u32 list \<Rightarrow> (u32 \<times> verifier_state list) list \<Rightarrow> (cfg_error, unit) res" where
  "check_combined_stack_depth_with_states insns sp states =
     rbind (direct_stack_depths insns sp)
       (\<lambda>depth. rbind (depth_of_table insns sp states depth) (check_stack_call_chains insns sp))"

section \<open>The search\<close>

datatype visit_state = NotVisited | Discovering | Explored

fun is_ldimm64_second :: "bpf_insn \<Rightarrow> bool" where
  "is_ldimm64_second (LdImm64Second v) \<longleftrightarrow> True"
| "is_ldimm64_second _ \<longleftrightarrow> False"

definition check_ldimm64_target :: "u32 \<Rightarrow> u32 \<Rightarrow> bpf_insn list \<Rightarrow> (cfg_error, unit) res" where
  "check_ldimm64_target idx target insns =
     (if unat target < length insns \<and> is_ldimm64_second (insns ! unat target)
      then reject idx (Mid_Ldimm64 target) else Ok ())"

fun calls_to :: "u32 \<Rightarrow> nat \<times> bpf_insn \<Rightarrow> bool" where
  "calls_to start (pc, CallSub off) \<longleftrightarrow> call_target (of_nat pc) off = start"
| "calls_to start _ \<longleftrightarrow> False"

fun branch_off :: "bpf_insn \<Rightarrow> i16" where
  "branch_off (CondReg op dst src off) = off"
| "branch_off (CondImm op dst imm off) = off"
| "branch_off (Jset dst src off) = off"
| "branch_off (JsetImm dst imm off) = off"
| "branch_off (Jmp32 dst src imm off op) = off"
| "branch_off _ = 0"

definition successors ::
  "u32 \<Rightarrow> bpf_insn list \<Rightarrow> u32 list \<Rightarrow> u32 \<Rightarrow> u32 \<Rightarrow> (cfg_error, u32 list) res" where
  "successors idx insns sp start end_pc =
     (case insns ! unat idx of
        Exit \<Rightarrow>
          Ok (if start = 0 then []
              else map (\<lambda>(pc, i). of_nat pc + 1) (filter (calls_to start) (enumerate 0 insns)))
      | Jmp off \<Rightarrow>
          (let target = branch_target idx off in
           if target < start \<or> end_pc \<le> target
           then reject idx (Jump_Crosses target start end_pc)
           else rbind (check_ldimm64_target idx target insns) (\<lambda>_. Ok [target]))
      | CallSub off \<Rightarrow>
          (let target = call_target idx off in
           if target \<in> set sp then Ok [target] else reject idx (Not_An_Entry target sp))
      | i \<Rightarrow>
          (if is_conditional_branch i
           then let target = branch_target idx (branch_off i) in
             if target < start \<or> end_pc \<le> target
             then reject idx (Branch_Crosses target start end_pc)
             else rbind (check_ldimm64_target idx target insns) (\<lambda>_. Ok [target, idx + 1])
           else Ok [idx + 1]))"

definition visit_insn :: "u32 \<Rightarrow> bpf_insn list \<Rightarrow> u32 list \<Rightarrow> (cfg_error, u32 list) res" where
  "visit_insn idx insns sp =
     (let (start, end_pc) = find_subprog_range idx sp (of_nat (length insns)) in
      if length insns \<le> unat idx then Err Cfg_Panic
      else rbind (successors idx insns sp start end_pc) (\<lambda>nexts.
        if idx + 1 \<in> set nexts \<and> end_pc \<le> idx + 1
        then reject idx (Falls_Through start end_pc) else Ok nexts))"

fun ends_control :: "bpf_insn \<Rightarrow> bool" where
  "ends_control Exit \<longleftrightarrow> True"
| "ends_control (Jmp off) \<longleftrightarrow> True"
| "ends_control _ \<longleftrightarrow> False"

fun check_ends :: "bpf_insn list \<Rightarrow> u32 list \<Rightarrow> (cfg_error, unit) res" where
  "check_ends insns [] = Ok ()"
| "check_ends insns (start # rest) =
     (let end_pc = next_start rest (of_nat (length insns)) in
      if length insns \<le> unat (end_pc - 1) then Err Cfg_Panic
      else if ends_control (insns ! unat (end_pc - 1)) then check_ends insns rest
      else reject (end_pc - 1) (No_Terminator start end_pc))"

definition out_degree :: "bpf_insn list \<Rightarrow> u32 list \<Rightarrow> u32 \<Rightarrow> nat" where
  "out_degree insns sp idx = (case visit_insn idx insns sp of Inl e \<Rightarrow> 0 | Inr nexts \<Rightarrow> length nexts)"

function dfs ::
  "bpf_insn list \<Rightarrow> u32 list \<Rightarrow> visit_state list \<Rightarrow> (u32 \<times> nat) list \<Rightarrow> u32 list \<Rightarrow>
   (cfg_error, visit_state list \<times> u32 list) res" where
  "dfs insns sp st [] heads = Ok (st, heads)"
| "dfs insns sp st ((idx, child) # stk) heads =
     (case visit_insn idx insns sp of
        Inl e \<Rightarrow> Inl e
      | Inr nexts \<Rightarrow>
          if child < length nexts
          then let nxt = nexts ! child; stk' = (idx, Suc child) # stk in
            if length st \<le> unat nxt then Err Cfg_Panic
            else (case st ! unat nxt of
                NotVisited \<Rightarrow> dfs insns sp (st[unat nxt := Discovering]) ((nxt, 0) # stk') heads
              | Discovering \<Rightarrow>
                  dfs insns sp st stk' (if nxt \<in> set heads then heads else heads @ [nxt])
              | Explored \<Rightarrow> dfs insns sp st stk' heads)
          else if length st \<le> unat idx then Err Cfg_Panic
          else dfs insns sp (st[unat idx := Explored]) stk heads)"
  by pat_completeness auto

definition unvisited :: "visit_state list \<Rightarrow> nat" where
  "unvisited st = length (filter (\<lambda>v. v = NotVisited) st)"

definition work_left :: "bpf_insn list \<Rightarrow> u32 list \<Rightarrow> (u32 \<times> nat) list \<Rightarrow> nat" where
  "work_left insns sp stk = sum_list (map (\<lambda>(idx, child). Suc (out_degree insns sp idx - child)) stk)"

lemma filter_update_length:
  "n < length xs \<Longrightarrow>
   length (filter P (xs[n := x])) + (if P (xs ! n) then 1 else 0) = length (filter P xs) + (if P x then 1 else 0)"
proof (induction xs arbitrary: n)
  case (Cons y ys)
  show ?case
  proof (cases n)
    case (Suc m)
    then show ?thesis using Cons.IH [of m] Cons.prems by (simp split: if_splits)
  qed simp
qed simp

lemma unvisited_discover:
  "n < length st \<Longrightarrow> st ! n = NotVisited \<Longrightarrow> unvisited (st[n := Discovering]) < unvisited st"
  using filter_update_length [of n st "\<lambda>v. v = NotVisited" Discovering] by (simp add: unvisited_def)

lemma unvisited_explore:
  "n < length st \<Longrightarrow> unvisited (st[n := Explored]) \<le> unvisited st"
  using filter_update_length [of n st "\<lambda>v. v = NotVisited" Explored]
  by (simp add: unvisited_def split: if_splits)

termination dfs
proof (relation "measures [\<lambda>(insns, sp, st, stk, heads). unvisited st,
      \<lambda>(insns, sp, st, stk, heads). work_left insns sp stk]", goal_cases)
  case (5 insns sp st idx child stk heads nexts)
  then show ?case
    using unvisited_explore [of "unat idx" st] by (auto simp: work_left_def)
qed (auto simp: unvisited_discover work_left_def out_degree_def)

definition check_cfg :: "bpf_insn list \<Rightarrow> u32 list \<Rightarrow> (cfg_error, u32 list) res" where
  "check_cfg insns sp =
     (if insns = [] then reject 0 Empty_Program
      else rbind (check_ends insns sp) (\<lambda>_.
        rbind (dfs insns sp ((replicate (length insns) NotVisited)[0 := Discovering]) [(0, 0)] [])
          (\<lambda>(st, heads).
            case position (\<lambda>v. v = NotVisited) st of
              Some i \<Rightarrow> reject (of_nat i) Unreachable
            | None \<Rightarrow> Ok heads)))"

end
