(* ===== verification/Cfg_Search.thy ===== *)
theory Cfg_Search
  imports Cfg
begin

text \<open>
  Correctness of the search of \<open>Cfg\<close>: the invariant \<open>dfs_inv\<close> of its stack and colours, what an
  accepted program satisfies (every instruction reachable, every successor inside the program, every
  cycle cut by a reported loop head), and that no index is out of range on the entries
  \<open>add_subprog\<close> returns.
\<close>

section \<open>Correctness of the search\<close>

definition cfg_edge :: "bpf_insn list \<Rightarrow> u32 list \<Rightarrow> u32 \<Rightarrow> u32 \<Rightarrow> bool" where
  "cfg_edge insns sp u v \<longleftrightarrow> (\<exists>nexts. visit_insn u insns sp = Ok nexts \<and> v \<in> set nexts)"

definition in_state :: "visit_state list \<Rightarrow> visit_state \<Rightarrow> u32 \<Rightarrow> bool" where
  "in_state st q v \<longleftrightarrow> unat v < length st \<and> st ! unat v = q"

definition child_done :: "visit_state list \<Rightarrow> u32 list \<Rightarrow> u32 \<Rightarrow> bool" where
  "child_done st heads v \<longleftrightarrow> v \<in> set heads \<or> in_state st Explored v"

fun stk_ok ::
  "bpf_insn list \<Rightarrow> u32 list \<Rightarrow> visit_state list \<Rightarrow> u32 list \<Rightarrow> u32 option \<Rightarrow> (u32 \<times> nat) list \<Rightarrow> bool" where
  "stk_ok insns sp st heads up [] \<longleftrightarrow> True"
| "stk_ok insns sp st heads up ((i, c) # rest) \<longleftrightarrow>
     (\<forall>nexts k. visit_insn i insns sp = Ok nexts \<longrightarrow> k < c \<longrightarrow> k < length nexts \<longrightarrow>
        child_done st heads (nexts ! k) \<or> up = Some (nexts ! k)) \<and>
     (\<forall>a. up = Some a \<longrightarrow> cfg_edge insns sp i a) \<and>
     stk_ok insns sp st heads (Some i) rest"

definition back_free :: "bpf_insn list \<Rightarrow> u32 list \<Rightarrow> visit_state list \<Rightarrow> u32 list \<Rightarrow> (u32 \<times> u32) set" where
  "back_free insns sp st heads =
     {(u, v). in_state st Explored u \<and> cfg_edge insns sp u v \<and> v \<notin> set heads}"

definition dfs_inv ::
  "bpf_insn list \<Rightarrow> u32 list \<Rightarrow> visit_state list \<Rightarrow> (u32 \<times> nat) list \<Rightarrow> u32 list \<Rightarrow> bool" where
  "dfs_inv insns sp st stk heads \<longleftrightarrow>
     length st = length insns \<and>
     distinct (map fst stk) \<and>
     (\<forall>v. in_state st Discovering v \<longleftrightarrow> v \<in> fst ` set stk) \<and>
     stk_ok insns sp st heads None stk \<and>
     (\<forall>v. in_state st Explored v \<longrightarrow>
        (\<exists>nexts. visit_insn v insns sp = Ok nexts \<and> (\<forall>w \<in> set nexts. child_done st heads w))) \<and>
     (\<forall>v. in_state st Discovering v \<or> in_state st Explored v \<longrightarrow> (cfg_edge insns sp)\<^sup>*\<^sup>* 0 v) \<and>
     (\<forall>h \<in> set heads. (cfg_edge insns sp)\<^sup>+\<^sup>+ h h \<and> (in_state st Discovering h \<or> in_state st Explored h)) \<and>
     acyclic (back_free insns sp st heads)"

lemma in_state_update:
  "unat a < length st \<Longrightarrow>
   in_state (st[unat a := q]) r v \<longleftrightarrow> (if v = a then q = r else in_state st r v)"
  by (auto simp: in_state_def nth_list_update word_unat_eq_iff)

lemma stk_ok_mono:
  "stk_ok insns sp st heads up stk \<Longrightarrow> (\<And>v. child_done st heads v \<Longrightarrow> child_done st' heads' v) \<Longrightarrow>
   stk_ok insns sp st' heads' up stk"
  by (induction stk arbitrary: up) (auto, blast)

lemma stk_ok_pop:
  "stk_ok insns sp st heads (Some i) stk \<Longrightarrow> (\<And>v. child_done st heads v \<Longrightarrow> child_done st' heads v) \<Longrightarrow>
   child_done st' heads i \<Longrightarrow> stk_ok insns sp st' heads None stk"
proof (cases stk)
  case (Cons p rest)
  assume a: "stk_ok insns sp st heads (Some i) stk"
    and mono: "\<And>v. child_done st heads v \<Longrightarrow> child_done st' heads v" and i: "child_done st' heads i"
  obtain j d where p: "p = (j, d)" by (cases p)
  have "stk_ok insns sp st' heads (Some j) rest"
    using a Cons p stk_ok_mono [of insns sp st heads "Some j" rest st' heads] mono by simp
  then show ?thesis
    using a Cons p i mono by fastforce
qed simp

lemma stk_ok_path:
  "stk_ok insns sp st heads up ((i, c) # rest) \<Longrightarrow> v \<in> fst ` set ((i, c) # rest) \<Longrightarrow>
   (cfg_edge insns sp)\<^sup>*\<^sup>* v i"
proof (induction rest arbitrary: up i c)
  case (Cons p rest)
  obtain j d where p: "p = (j, d)" by (cases p)
  show ?case
  proof (cases "v = i")
    case False
    then have "(cfg_edge insns sp)\<^sup>*\<^sup>* v j" using Cons.IH [of "Some i" j d] Cons.prems p by auto
    moreover have "cfg_edge insns sp j i" using Cons.prems(1) p by auto
    ultimately show ?thesis by (rule rtranclp.rtrancl_into_rtrancl)
  qed simp
qed simp

lemma back_free_same:
  "(\<And>v. in_state st' Explored v = in_state st Explored v) \<Longrightarrow> back_free insns sp st' heads = back_free insns sp st heads"
  by (simp add: back_free_def)

lemma acyclic_no_entry:
  assumes "acyclic r" "\<And>u v. (u, v) \<in> s \<Longrightarrow> (u, v) \<in> r \<or> u = i" "\<And>u. (u, i) \<notin> s"
  shows "acyclic s"
proof (rule acyclicI, rule allI, rule notI)
  fix x assume "(x, x) \<in> s\<^sup>+"
  moreover have "(a, b) \<in> s\<^sup>+ \<Longrightarrow> b \<noteq> i" for a b
    by (erule tranclE) (use assms(3) in auto)
  moreover have "(a, b) \<in> s\<^sup>+ \<Longrightarrow> a \<noteq> i \<Longrightarrow> (a, b) \<in> r\<^sup>+" for a b
  proof (induction rule: trancl.induct)
    case (trancl_into_trancl a b c)
    then show ?case using assms(2) calculation(2) by (meson trancl.trancl_into_trancl)
  qed (use assms(2) in blast)
  ultimately show False using assms(1) unfolding acyclic_def by blast
qed

lemma stk_ok_step:
  assumes "stk_ok insns sp st heads None ((i, c) # stk)" "visit_insn i insns sp = Ok nexts"
    "\<And>v. child_done st heads v \<Longrightarrow> child_done st' heads' v"
    "child_done st' heads' (nexts ! c)"
  shows "stk_ok insns sp st' heads' None ((i, Suc c) # stk)"
  using assms stk_ok_mono [of insns sp st heads "Some i" stk st' heads']
  by (auto simp: less_Suc_eq)

lemma stk_ok_push:
  assumes "stk_ok insns sp st heads None ((i, c) # stk)" "visit_insn i insns sp = Ok nexts"
    "c < length nexts" "\<And>v. child_done st heads v \<Longrightarrow> child_done st' heads v"
  shows "stk_ok insns sp st' heads None ((nexts ! c, 0) # (i, Suc c) # stk)"
  using assms stk_ok_mono [of insns sp st heads "Some i" stk st' heads]
  by (auto simp: less_Suc_eq cfg_edge_def)

lemma dfs_inv_advance:
  assumes inv: "dfs_inv insns sp st ((i, c) # stk) heads" and v: "visit_insn i insns sp = Ok nexts"
    and c: "c < length nexts" and ex: "in_state st Explored (nexts ! c)"
  shows "dfs_inv insns sp st ((i, Suc c) # stk) heads"
proof -
  have "stk_ok insns sp st heads None ((i, Suc c) # stk)"
    by (rule stk_ok_step [OF _ v]) (use inv ex in \<open>auto simp: dfs_inv_def child_done_def\<close>)
  then show ?thesis using inv unfolding dfs_inv_def by (simp del: stk_ok.simps) blast
qed

lemma dfs_invD:
  assumes "dfs_inv insns sp st stk heads"
  shows "length st = length insns" "distinct (map fst stk)"
    and "in_state st Discovering v \<longleftrightarrow> v \<in> fst ` set stk"
    and "stk_ok insns sp st heads None stk"
    and "in_state st Explored v \<Longrightarrow>
      \<exists>nexts. visit_insn v insns sp = Ok nexts \<and> (\<forall>w \<in> set nexts. child_done st heads w)"
    and "in_state st Discovering v \<or> in_state st Explored v \<Longrightarrow> (cfg_edge insns sp)\<^sup>*\<^sup>* 0 v"
    and "h \<in> set heads \<Longrightarrow> (cfg_edge insns sp)\<^sup>+\<^sup>+ h h"
    and "h \<in> set heads \<Longrightarrow> in_state st Discovering h \<or> in_state st Explored h"
    and "acyclic (back_free insns sp st heads)"
  using assms unfolding dfs_inv_def by blast+

lemma dfs_inv_head:
  assumes inv: "dfs_inv insns sp st ((i, c) # stk) heads" and v: "visit_insn i insns sp = Ok nexts"
    and c: "c < length nexts" and q: "in_state st Discovering (nexts ! c)"
    and set: "set heads' = insert (nexts ! c) (set heads)"
  shows "dfs_inv insns sp st ((i, Suc c) # stk) heads'"
proof -
  let ?h = "nexts ! c"
  note D = dfs_invD [OF inv]
  have mono: "child_done st heads v \<Longrightarrow> child_done st heads' v" for v
    using set by (auto simp: child_done_def)
  have stk: "stk_ok insns sp st heads' None ((i, Suc c) # stk)"
    by (rule stk_ok_step [OF D(4) v mono]) (simp_all add: child_done_def set)
  have "?h \<in> fst ` set ((i, c) # stk)" using D(3) q by blast
  then have "(cfg_edge insns sp)\<^sup>*\<^sup>* ?h i" by (rule stk_ok_path [OF D(4)])
  moreover have "cfg_edge insns sp i ?h" using v c by (auto simp: cfg_edge_def)
  ultimately have cyc: "(cfg_edge insns sp)\<^sup>+\<^sup>+ ?h ?h" by (rule rtranclp_into_tranclp1)
  have "back_free insns sp st heads' \<subseteq> back_free insns sp st heads"
    using set by (auto simp: back_free_def)
  then have acyc: "acyclic (back_free insns sp st heads')" by (rule acyclic_subset [OF D(9)])
  show ?thesis
    unfolding dfs_inv_def
  proof (intro conjI allI ballI impI)
    show "\<exists>nexts. visit_insn w insns sp = Ok nexts \<and> (\<forall>x \<in> set nexts. child_done st heads' x)"
      if "in_state st Explored w" for w
      using D(5) [OF that] mono by blast
    show "(cfg_edge insns sp)\<^sup>+\<^sup>+ h h" if "h \<in> set heads'" for h
      using that cyc D(7) [of h] unfolding set by (elim insertE) simp_all
    show "in_state st Discovering h \<or> in_state st Explored h" if "h \<in> set heads'" for h
      using that q D(8) [of h] unfolding set by (elim insertE) simp_all
    show "in_state st Discovering w \<longleftrightarrow> w \<in> fst ` set ((i, Suc c) # stk)" for w
      using D(3) by simp
    show "distinct (map fst ((i, Suc c) # stk))" using D(2) by simp
  qed (fact D(1) stk acyc D(6))+
qed

lemma dfs_inv_discover:
  assumes inv: "dfs_inv insns sp st ((i, c) # stk) heads" and v: "visit_insn i insns sp = Ok nexts"
    and c: "c < length nexts" and q: "in_state st NotVisited (nexts ! c)"
  shows "dfs_inv insns sp (st[unat (nexts ! c) := Discovering]) ((nexts ! c, 0) # (i, Suc c) # stk) heads"
    (is "dfs_inv insns sp ?st _ heads")
proof -
  let ?n = "nexts ! c"
  have n: "unat ?n < length st" using q by (simp add: in_state_def)
  have ex: "in_state ?st Explored w = in_state st Explored w" for w
    using n q by (simp add: in_state_update) (simp add: in_state_def)
  have di: "in_state ?st Discovering w \<longleftrightarrow> w = ?n \<or> in_state st Discovering w" for w
    using n by (auto simp: in_state_update)
  have cd: "child_done ?st heads w = child_done st heads w" for w by (simp add: child_done_def ex)
  have stk: "stk_ok insns sp ?st heads None ((?n, 0) # (i, Suc c) # stk)"
    by (rule stk_ok_push [OF _ v c]) (use inv cd in \<open>auto simp: dfs_inv_def\<close>)
  have edge: "cfg_edge insns sp i ?n" using v c by (auto simp: cfg_edge_def)
  have "(cfg_edge insns sp)\<^sup>*\<^sup>* 0 i" using inv by (simp add: dfs_inv_def del: stk_ok.simps)
  then have reach: "(cfg_edge insns sp)\<^sup>*\<^sup>* 0 ?n" using edge by (rule rtranclp.rtrancl_into_rtrancl)
  have new: "?n \<notin> fst ` set ((i, c) # stk)"
    using inv q by (metis dfs_inv_def in_state_def visit_state.distinct(1))
  have bf: "back_free insns sp ?st heads = back_free insns sp st heads" by (rule back_free_same) (rule ex)
  show ?thesis
    using inv stk reach new bf unfolding dfs_inv_def ex di cd by (simp del: stk_ok.simps) blast
qed

lemma dfs_inv_finish:
  assumes inv: "dfs_inv insns sp st ((i, c) # stk) heads" and v: "visit_insn i insns sp = Ok nexts"
    and c: "length nexts \<le> c"
  shows "dfs_inv insns sp (st[unat i := Explored]) stk heads" (is "dfs_inv insns sp ?st _ heads")
proof -
  have q: "in_state st Discovering i" using inv by (simp add: dfs_inv_def)
  then have n: "unat i < length st" by (simp add: in_state_def)
  have ex: "in_state ?st Explored w \<longleftrightarrow> w = i \<or> in_state st Explored w" for w
    using n by (auto simp: in_state_update)
  have di: "in_state ?st Discovering w \<longleftrightarrow> w \<noteq> i \<and> in_state st Discovering w" for w
    using n by (auto simp: in_state_update)
  have mono: "child_done st heads w \<Longrightarrow> child_done ?st heads w" for w by (auto simp: child_done_def ex)
  have stk: "stk_ok insns sp ?st heads None stk"
    using inv stk_ok_pop [of insns sp st heads i stk ?st] mono ex by (auto simp: dfs_inv_def child_done_def)
  have kids: "\<forall>w \<in> set nexts. child_done st heads w"
    using inv v c by (fastforce simp: dfs_inv_def in_set_conv_nth)
  have noi: "\<not> in_state st Explored i" using q by (simp add: in_state_def)
  have acyc: "acyclic (back_free insns sp ?st heads)"
  proof (rule acyclic_no_entry)
    show "acyclic (back_free insns sp st heads)" using inv by (simp add: dfs_inv_def)
    show "(u, w) \<in> back_free insns sp ?st heads \<Longrightarrow> (u, w) \<in> back_free insns sp st heads \<or> u = i" for u w
      by (auto simp: back_free_def ex)
    show "(u, i) \<notin> back_free insns sp ?st heads" for u
    proof
      assume "(u, i) \<in> back_free insns sp ?st heads"
      then have u: "u = i \<or> in_state st Explored u" "cfg_edge insns sp u i" "i \<notin> set heads"
        by (auto simp: back_free_def ex)
      then have "child_done st heads i"
        using kids v inv by (auto simp: dfs_inv_def cfg_edge_def)
      then show False using u(3) noi by (simp add: child_done_def)
    qed
  qed
  have fin: "\<exists>nexts. visit_insn w insns sp = Ok nexts \<and> (\<forall>x \<in> set nexts. child_done ?st heads x)"
    if "in_state ?st Explored w" for w
    using that v kids mono inv by (auto simp: ex dfs_inv_def)
  show ?thesis
    unfolding dfs_inv_def
  proof (intro conjI)
    show "\<forall>w. in_state ?st Explored w \<longrightarrow>
        (\<exists>nexts. visit_insn w insns sp = Ok nexts \<and> (\<forall>x \<in> set nexts. child_done ?st heads x))"
      using fin by blast
    show "\<forall>w. in_state ?st Discovering w \<longleftrightarrow> w \<in> fst ` set stk"
      using inv by (auto simp: di dfs_inv_def)
  qed (use inv stk acyc q in \<open>auto simp: dfs_inv_def ex di\<close>)
qed

lemma dfs_step:
  assumes "visit_insn i insns sp = Ok nexts" "c < length nexts"
  shows "in_state st NotVisited (nexts ! c) \<Longrightarrow> dfs insns sp st ((i, c) # stk) heads =
      dfs insns sp (st[unat (nexts ! c) := Discovering]) ((nexts ! c, 0) # (i, Suc c) # stk) heads"
    and "in_state st Discovering (nexts ! c) \<Longrightarrow> dfs insns sp st ((i, c) # stk) heads =
      dfs insns sp st ((i, Suc c) # stk) (if nexts ! c \<in> set heads then heads else heads @ [nexts ! c])"
    and "in_state st Explored (nexts ! c) \<Longrightarrow> dfs insns sp st ((i, c) # stk) heads =
      dfs insns sp st ((i, Suc c) # stk) heads"
  using assms by (auto simp: in_state_def Let_def simp del: dfs.simps(2) simp: dfs.simps(2) [of insns sp st i c stk heads])

lemma dfs_inv_final:
  "dfs insns sp st stk heads = Ok (st', heads') \<Longrightarrow> dfs_inv insns sp st stk heads \<Longrightarrow>
   dfs_inv insns sp st' [] heads'"
proof (induction insns sp st stk heads rule: dfs.induct)
  case (2 insns sp st i c stk heads)
  obtain nexts where v: "visit_insn i insns sp = Ok nexts"
    using "2.prems"(1) by (auto split: sum.splits)
  show ?case
  proof (cases "c < length nexts")
    case True
    then have n: "unat (nexts ! c) < length st"
      using "2.prems"(1) v by (auto simp: Let_def split: if_splits)
    then have n': "\<not> length st \<le> unat (nexts ! c)" by simp
    consider "in_state st NotVisited (nexts ! c)" | "in_state st Discovering (nexts ! c)"
      | "in_state st Explored (nexts ! c)"
      using n by (cases "st ! unat (nexts ! c)") (auto simp: in_state_def)
    then show ?thesis
    proof cases
      case 1
      show ?thesis
        by (rule "2.IH"(1) [OF v True refl refl n'])
          (use 1 "2.prems"(1) dfs_step(1) [OF v True 1] dfs_inv_discover [OF "2.prems"(2) v True 1]
            in \<open>simp_all add: in_state_def del: dfs.simps\<close>)
    next
      case 2
      show ?thesis
        by (rule "2.IH"(2) [OF v True refl refl n'])
          (use 2 "2.prems"(1) dfs_step(2) [OF v True 2] dfs_inv_head [OF "2.prems"(2) v True 2]
            in \<open>auto simp add: in_state_def simp del: dfs.simps\<close>)
    next
      case 3
      show ?thesis
        by (rule "2.IH"(3) [OF v True refl refl n'])
          (use 3 "2.prems"(1) dfs_step(3) [OF v True 3] dfs_inv_advance [OF "2.prems"(2) v True 3]
            in \<open>simp_all add: in_state_def del: dfs.simps\<close>)
    qed
  next
    case False
    then show ?thesis
      using 2 v dfs_inv_finish [OF "2.prems"(2) v] by (simp split: if_splits)
  qed
qed simp

definition wf_subprogs :: "bpf_insn list \<Rightarrow> u32 list \<Rightarrow> bool" where
  "wf_subprogs insns sp \<longleftrightarrow>
     sp \<noteq> [] \<and> hd sp = 0 \<and> sorted_wrt (<) sp \<and> (\<forall>s \<in> set sp. unat s < length insns) \<and>
     length insns < 2 ^ 32"

lemma collect_entries_spec:
  "collect_entries n is starts = Ok r \<Longrightarrow> distinct starts \<Longrightarrow> \<forall>s \<in> set starts. unat s < n \<Longrightarrow>
   distinct r \<and> (\<forall>s \<in> set r. unat s < n) \<and> set starts \<subseteq> set r \<and>
   (\<forall>(pc, i) \<in> set is. \<forall>off. i = CallSub off \<longrightarrow> call_target (of_nat pc) off \<in> set r)"
proof (induction n "is" starts rule: collect_entries.induct)
  case (2 n pc off "is" starts)
  let ?t = "call_target (of_nat pc) off"
  let ?starts = "if ?t \<in> set starts then starts else starts @ [?t]"
  have n: "unat ?t < n" and r: "collect_entries n is ?starts = Ok r"
    using "2.prems"(1) by (simp_all add: Let_def not_le split: if_splits)
  have "distinct ?starts" "\<forall>s \<in> set ?starts. unat s < n" "?t \<in> set ?starts" "set starts \<subseteq> set ?starts"
    using "2.prems"(2,3) n by auto
  then show ?case using "2.IH" [OF refl _ r] n by (simp del: set_append) blast
qed auto

lemma add_subprog_spec:
  assumes "add_subprog insns = Ok sp" "insns \<noteq> []"
  shows "distinct sp" "sorted sp" "\<forall>s \<in> set sp. unat s < length insns" "0 \<in> set sp"
    and "\<forall>(pc, i) \<in> set (enumerate 0 insns). \<forall>off. i = CallSub off \<longrightarrow> call_target (of_nat pc) off \<in> set sp"
proof -
  obtain r where r: "collect_entries (length insns) (enumerate 0 insns) [0] = Ok r" "sp = sort r"
    using assms(1) by (auto simp: add_subprog_def rbind_def split: sum.splits)
  have "distinct [0::u32]" "\<forall>s \<in> set [0::u32]. unat s < length insns" using assms(2) by simp_all
  note c = collect_entries_spec [OF r(1) this]
  show "distinct sp" "sorted sp" "\<forall>s \<in> set sp. unat s < length insns" "0 \<in> set sp"
    "\<forall>(pc, i) \<in> set (enumerate 0 insns). \<forall>off. i = CallSub off \<longrightarrow> call_target (of_nat pc) off \<in> set sp"
    using c r(2) by simp_all
qed

lemma add_subprog_wf:
  assumes "add_subprog insns = Ok sp" "insns \<noteq> []" "length insns < 2 ^ 32"
  shows "wf_subprogs insns sp"
proof -
  note s = add_subprog_spec [OF assms(1,2)]
  obtain x xs where sp: "sp = x # xs" using s(4) by (cases sp) auto
  have "x \<le> 0" using s(2,4) sp by auto
  then have "hd sp = 0" using sp by simp
  moreover have "sorted_wrt (<) sp" using s(1,2) by (simp add: strict_sorted_iff)
  ultimately show ?thesis
    using s(3) sp assms(3) by (simp add: wf_subprogs_def)
qed

lemma add_subprog_calls:
  assumes "add_subprog insns = Ok sp" "pc < length insns" "insns ! pc = CallSub off"
  shows "call_target (of_nat pc) off \<in> set sp"
proof -
  have "(pc, CallSub off) \<in> set (enumerate 0 insns)"
    using assms(2,3) by (auto simp: in_set_enumerate_eq)
  moreover have "insns \<noteq> []" using assms(2) by auto
  ultimately show ?thesis using add_subprog_spec(5) [OF assms(1)] by blast
qed

lemma unat_of_nat32: "n < 2 ^ 32 \<Longrightarrow> unat (of_nat n :: u32) = n"
  by (simp add: unat_of_nat)

lemma find_range_wf:
  assumes wf: "wf_subprogs insns sp" and idx: "unat idx < length insns"
    and r: "find_subprog_range idx sp (of_nat (length insns)) = (s, e)"
  shows "s \<in> set sp" "s \<le> idx" "idx < e" "unat e \<le> length insns"
proof -
  have z: "0 \<in> set (rev sp)" using wf by (cases sp) (simp_all add: wf_subprogs_def)
  obtain t where t: "find (\<lambda>s. s \<le> idx) (rev sp) = Some t"
    using z by (cases "find (\<lambda>s. s \<le> idx) (rev sp)") (auto simp: find_None_iff)
  then obtain n where n: "n < length (rev sp)" "rev sp ! n \<le> idx" "t = rev sp ! n"
    by (auto simp: find_Some_iff)
  have "t \<in> set (rev sp)" using n by (metis nth_mem)
  with n have "t \<in> set sp" "t \<le> idx" by simp_all
  then show "s \<in> set sp" "s \<le> idx" using r t by (auto simp: find_subprog_range_def unwrap_or_def)
  have len: "unat (of_nat (length insns) :: u32) = length insns"
    using wf by (simp add: wf_subprogs_def unat_of_nat32)
  show "idx < e"
  proof (cases "find (\<lambda>s. idx < s) sp")
    case None
    then show ?thesis using r idx len
      by (auto simp: find_subprog_range_def unwrap_or_def word_less_nat_alt)
  next
    case (Some x)
    then have "idx < x" by (auto simp: find_Some_iff)
    then show ?thesis using r Some by (auto simp: find_subprog_range_def unwrap_or_def)
  qed
  show "unat e \<le> length insns"
  proof (cases "find (\<lambda>s. idx < s) sp")
    case None
    then show ?thesis using r len by (auto simp: find_subprog_range_def unwrap_or_def)
  next
    case (Some x)
    then have "x \<in> set sp" by (auto simp: find_Some_iff)
    then show ?thesis using r wf Some
      by (auto simp: find_subprog_range_def unwrap_or_def wf_subprogs_def intro: less_imp_le)
  qed
qed

lemma check_ends_last:
  assumes "check_ends insns sp = Ok ()" "sp \<noteq> []" "insns \<noteq> []" "length insns < 2 ^ 32"
  shows "ends_control (last insns)"
  using assms
proof (induction sp)
  case (Cons s rest)
  show ?case
  proof (cases rest)
    case Nil
    have "of_nat (length insns) - (1::u32) = of_nat (length insns - 1)"
      using Cons.prems(3) by (simp add: of_nat_diff Suc_leI)
    then have "unat (of_nat (length insns) - (1::u32)) = length insns - 1"
      using Cons.prems(4) by (simp add: unat_of_nat32)
    then show ?thesis using Cons.prems(1,3) Nil by (auto simp: Let_def last_conv_nth split: if_splits)
  next
    case (Cons t ts)
    then show ?thesis using Cons.IH Cons.prems by (auto simp: Let_def split: if_splits)
  qed
qed simp

lemma calls_toD: "calls_to s (pc, i) \<Longrightarrow> \<exists>off. i = CallSub off"
  by (cases i) simp_all

lemma succ_unat32: "n < 2 ^ 32 - 1 \<Longrightarrow> unat (of_nat n + 1 :: u32) = Suc n"
  using unat_of_nat32 [of "Suc n"] by (simp add: add.commute)

lemma exit_returns:
  assumes "ends_control (last insns)" "length insns < 2 ^ 32"
    and "v \<in> set (map (\<lambda>(pc, i). of_nat pc + 1) (filter (calls_to s) (enumerate 0 insns)))"
  shows "unat (v::u32) < length insns"
proof -
  obtain pc i where p: "(pc, i) \<in> set (enumerate 0 insns)" "calls_to s (pc, i)" "v = of_nat pc + 1"
    using assms(3) by auto
  obtain off where off: "insns ! pc = CallSub off" and pc: "pc < length insns"
    using p calls_toD by (fastforce simp: in_set_enumerate_eq)
  have "pc \<noteq> length insns - 1"
    using assms(1) off pc by (cases insns rule: rev_cases) auto
  then have "Suc pc < length insns" using pc by simp
  then show ?thesis using p(3) assms(2) succ_unat32 [of pc] by simp
qed

lemma check_ldimm64_Ok [simp]:
  "check_ldimm64_target idx t insns = Ok u \<longleftrightarrow>
   \<not> (unat t < length insns \<and> is_ldimm64_second (insns ! unat t))"
  by (auto simp: check_ldimm64_target_def)

lemma successors_inside:
  assumes ok: "successors idx insns sp s e = Ok nexts"
    and wf: "wf_subprogs insns sp" and ends: "ends_control (last insns)"
    and e: "unat e \<le> length insns" and v: "v \<in> set nexts"
  shows "unat v < length insns \<or> v = idx + 1"
proof (cases "insns ! unat idx = Exit")
  case True
  then show ?thesis
    using ok v exit_returns [OF ends, of v s] wf by (auto simp: successors_def wf_subprogs_def split: if_splits)
next
  case False
  have below: "t < e \<Longrightarrow> unat t < length insns" for t using e by (simp add: word_less_nat_alt)
  show ?thesis
    using ok v False below wf
    by (auto simp: successors_def wf_subprogs_def Let_def not_le rbind_Ok_iff split: bpf_insn.splits if_splits)
qed

lemma visit_insn_inside:
  assumes ok: "visit_insn idx insns sp = Ok nexts"
    and wf: "wf_subprogs insns sp" and ends: "ends_control (last insns)" and v: "v \<in> set nexts"
  shows "unat v < length insns"
proof -
  obtain s e where r: "find_subprog_range idx sp (of_nat (length insns)) = (s, e)" by (cases "find_subprog_range idx sp (of_nat (length insns))")
  have idx: "unat idx < length insns" and su: "successors idx insns sp s e = Ok nexts"
    and ft: "idx + 1 \<in> set nexts \<Longrightarrow> idx + 1 < e"
    using ok r by (auto simp: visit_insn_def rbind_Ok_iff not_le split: if_splits)
  have e: "unat e \<le> length insns" by (rule find_range_wf(4) [OF wf idx r])
  show ?thesis
    using successors_inside [OF su wf ends e v] ft v e by (auto simp: word_less_nat_alt)
qed

lemma visit_insn_no_panic:
  "unat idx < length insns \<Longrightarrow> visit_insn idx insns sp \<noteq> Err Cfg_Panic"
  by (auto simp: visit_insn_def rbind_Err_iff successors_def Let_def check_ldimm64_target_def
      split: prod.splits if_splits bpf_insn.splits)

lemma dfs_no_panic:
  "length st = length insns \<Longrightarrow> \<forall>(i, c) \<in> set stk. unat i < length insns \<Longrightarrow>
   wf_subprogs insns sp \<Longrightarrow> ends_control (last insns) \<Longrightarrow>
   dfs insns sp st stk heads \<noteq> Err Cfg_Panic"
proof (induction insns sp st stk heads rule: dfs.induct)
  case (2 insns sp st i c stk heads)
  have i: "unat i < length insns" using "2.prems"(2) by simp
  show ?case
  proof (cases "visit_insn i insns sp")
    case (Inl e)
    then show ?thesis using visit_insn_no_panic [OF i, of sp] by auto
  next
    case v: (Inr nexts)
    show ?thesis
    proof (cases "c < length nexts")
      case True
      have n: "unat (nexts ! c) < length insns"
        using visit_insn_inside [OF v "2.prems"(3,4)] True by simp
      then have n': "\<not> length st \<le> unat (nexts ! c)" using "2.prems"(1) by simp
      show ?thesis
        using "2.IH"(1) [OF v True refl refl n'] "2.IH"(2) [OF v True refl refl n']
          "2.IH"(3) [OF v True refl refl n'] "2.prems" v True n n'
        by (cases "st ! unat (nexts ! c)") (simp_all del: dfs.simps(2) add: Let_def dfs.simps(2) [of insns sp st i c stk heads])
    next
      case False
      then show ?thesis
        using "2.IH"(4) [OF v False] "2.prems" v i by simp
    qed
  qed
qed simp

lemma check_ends_no_panic:
  assumes "\<forall>s \<in> set sp. unat s < length insns" "0 \<notin> set (tl sp)" "insns \<noteq> []" "length insns < 2 ^ 32"
  shows "check_ends insns sp \<noteq> Err Cfg_Panic"
  using assms
proof (induction sp)
  case (Cons s rest)
  let ?e = "next_start rest (of_nat (length insns))"
  have "?e \<noteq> 0 \<and> unat ?e \<le> length insns"
  proof (cases rest)
    case Nil
    then show ?thesis
      using Cons.prems(3,4) unat_of_nat32 [of "length insns"] by auto
  next
    case (Cons t ts)
    then show ?thesis using Cons.prems by auto
  qed
  then have "unat ?e \<noteq> 0" "unat ?e \<le> length insns" by (simp_all add: unat_eq_0)
  then have "unat ?e - 1 < length insns" by linarith
  then have "unat (?e - 1) < length insns" using \<open>unat ?e \<noteq> 0\<close> by (simp add: unat_minus_one unat_eq_0)
  moreover have "0 \<notin> set (tl rest)" using Cons.prems(2) by (cases rest) auto
  ultimately show ?case using Cons.IH Cons.prems by (auto simp: Let_def)
qed simp

lemma check_cfg_inv:
  assumes "check_cfg insns sp = Ok heads"
  obtains st where "dfs_inv insns sp st [] heads" "NotVisited \<notin> set st"
proof -
  have ne: "insns \<noteq> []" using assms by (auto simp: check_cfg_def)
  obtain st where st: "dfs insns sp ((replicate (length insns) NotVisited)[0 := Discovering]) [(0, 0)] [] = Ok (st, heads)"
    and nv: "position (\<lambda>v. v = NotVisited) st = None"
    using assms ne by (auto simp: check_cfg_def rbind_Ok_iff split: option.splits)
  let ?st = "(replicate (length insns) NotVisited)[0 := Discovering]"
  have q: "in_state ?st q v \<longleftrightarrow> unat v < length insns \<and> q = (if v = 0 then Discovering else NotVisited)" for q v
    using ne by (auto simp: in_state_def nth_list_update unat_eq_0)
  have bf: "back_free insns sp ?st [] = {}" by (auto simp: back_free_def q split: if_splits)
  have "dfs_inv insns sp ?st [(0, 0)] []"
    unfolding dfs_inv_def q bf using ne by (auto simp: acyclic_def)
  then have "dfs_inv insns sp st [] heads" by (rule dfs_inv_final [OF st])
  then show ?thesis using that nv by (auto simp: position_None_iff)
qed

lemma check_cfg_explored:
  assumes "check_cfg insns sp = Ok heads"
  obtains st where "dfs_inv insns sp st [] heads"
    and "\<And>v. in_state st Explored v \<longleftrightarrow> unat v < length insns"
proof -
  obtain st where inv: "dfs_inv insns sp st [] heads" and nv: "NotVisited \<notin> set st"
    using check_cfg_inv [OF assms] .
  have len: "length st = length insns" by (rule dfs_invD(1) [OF inv])
  have "in_state st Explored v" if "unat v < length insns" for v
  proof -
    have "st ! unat v \<noteq> NotVisited" using nv that len by (metis nth_mem)
    moreover have "\<not> in_state st Discovering v" using dfs_invD(3) [OF inv] by simp
    ultimately show ?thesis using that len by (cases "st ! unat v") (simp_all add: in_state_def)
  qed
  then have "in_state st Explored v \<longleftrightarrow> unat v < length insns" for v
    using len by (auto simp: in_state_def)
  with inv show ?thesis by (rule that)
qed

lemma check_cfg_closed:
  assumes ok: "check_cfg insns sp = Ok heads" and v: "unat v < length insns"
  shows "(cfg_edge insns sp)\<^sup>*\<^sup>* 0 v"
    and "\<exists>nexts. visit_insn v insns sp = Ok nexts \<and> (\<forall>w \<in> set nexts. unat w < length insns)"
proof -
  obtain st where inv: "dfs_inv insns sp st [] heads"
    and st: "\<And>v. in_state st Explored v \<longleftrightarrow> unat v < length insns"
    using check_cfg_explored [OF ok] by blast
  show "(cfg_edge insns sp)\<^sup>*\<^sup>* 0 v" using dfs_invD(6) [OF inv] st v by blast
  have "child_done st heads w \<Longrightarrow> unat w < length insns" for w
    using dfs_invD(3,8) [OF inv] st by (auto simp: child_done_def)
  then show "\<exists>nexts. visit_insn v insns sp = Ok nexts \<and> (\<forall>w \<in> set nexts. unat w < length insns)"
    using dfs_invD(5) [OF inv] st v by blast
qed

lemma cfg_edge_inside: "cfg_edge insns sp u v \<Longrightarrow> unat u < length insns"
  by (auto simp: cfg_edge_def visit_insn_def split: if_splits prod.splits)

lemma check_cfg_heads:
  assumes ok: "check_cfg insns sp = Ok heads"
  shows "acyclic {(u, v). cfg_edge insns sp u v \<and> v \<notin> set heads}"
    and "h \<in> set heads \<Longrightarrow> (cfg_edge insns sp)\<^sup>+\<^sup>+ h h"
proof -
  obtain st where inv: "dfs_inv insns sp st [] heads"
    and st: "\<And>v. in_state st Explored v \<longleftrightarrow> unat v < length insns"
    using check_cfg_explored [OF ok] by blast
  have "{(u, v). cfg_edge insns sp u v \<and> v \<notin> set heads} = back_free insns sp st heads"
    using cfg_edge_inside by (auto simp: back_free_def st)
  then show "acyclic {(u, v). cfg_edge insns sp u v \<and> v \<notin> set heads}"
    using dfs_invD(9) [OF inv] by simp
  show "h \<in> set heads \<Longrightarrow> (cfg_edge insns sp)\<^sup>+\<^sup>+ h h" by (rule dfs_invD(7) [OF inv])
qed

lemma check_cfg_no_panic:
  assumes sub: "add_subprog insns = Ok sp" and len: "length insns < 2 ^ 32"
  shows "check_cfg insns sp \<noteq> Err Cfg_Panic"
proof (cases "insns = []")
  case False
  have wf: "wf_subprogs insns sp" by (rule add_subprog_wf [OF sub False len])
  then have "0 \<notin> set (tl sp)" by (cases sp) (auto simp: wf_subprogs_def)
  then have ends: "check_ends insns sp \<noteq> Err Cfg_Panic"
    using wf False by (intro check_ends_no_panic) (auto simp: wf_subprogs_def)
  have "dfs insns sp ((replicate (length insns) NotVisited)[0 := Discovering]) [(0, 0)] [] \<noteq> Err Cfg_Panic"
    if "check_ends insns sp = Ok ()"
    using check_ends_last [OF that _ False len] wf False
    by (intro dfs_no_panic) (auto simp: wf_subprogs_def)
  then show ?thesis
    using ends by (auto simp: check_cfg_def rbind_Err_iff split: option.splits)
qed (simp add: check_cfg_def)

lemma check_cfg_jump:
  assumes ok: "check_cfg insns sp = Ok heads" and wf: "wf_subprogs insns sp"
    and pc: "unat pc < length insns"
    and j: "insns ! unat pc = Jmp off \<or> is_conditional_branch (insns ! unat pc) \<and> off = branch_off (insns ! unat pc)"
  shows "unat (branch_target pc off) < length insns"
    and "\<not> is_ldimm64_second (insns ! unat (branch_target pc off))"
    and "find_subprog_range pc sp (of_nat (length insns)) = (s, e) \<Longrightarrow>
      s \<le> branch_target pc off \<and> branch_target pc off < e"
proof -
  obtain s e where r: "find_subprog_range pc sp (of_nat (length insns)) = (s, e)"
    by (cases "find_subprog_range pc sp (of_nat (length insns))")
  obtain nexts where "visit_insn pc insns sp = Ok nexts" using check_cfg_closed(2) [OF ok pc] by blast
  then obtain nexts where su: "successors pc insns sp s e = Ok nexts"
    using r by (auto simp: visit_insn_def rbind_Ok_iff split: if_splits)
  let ?t = "branch_target pc off"
  have t: "s \<le> ?t" "?t < e" "\<not> (unat ?t < length insns \<and> is_ldimm64_second (insns ! unat ?t))"
    using su j by (auto simp: successors_def Let_def rbind_Ok_iff not_le not_less split: bpf_insn.splits if_splits)
  have e: "unat e \<le> length insns" by (rule find_range_wf(4) [OF wf pc r])
  then show b: "unat ?t < length insns" using t(2) by (simp add: word_less_nat_alt)
  then show "\<not> is_ldimm64_second (insns ! unat ?t)" using t(3) by blast
  show "find_subprog_range pc sp (of_nat (length insns)) = (s', e') \<Longrightarrow> s' \<le> ?t \<and> ?t < e'" for s' e'
    using r t by simp
qed

section \<open>Properties\<close>

definition counting_loop :: "bpf_insn list" where
  "counting_loop = [MovImm 0 0, AluImm Bin_Add W64 0 1, CondImm Cond_Ult 0 8 (-2), Exit]"

lemma counting_loop_cfg: "check_cfg counting_loop [0] = Ok [1]"
  by code_simp

lemma counting_loop_subprog: "add_subprog counting_loop = Ok [0]"
  by code_simp

text \<open>
  C7: when the pass accepts a program, every instruction is reachable from the entry along the edges
  the pass computes, the pass computes the successors of every instruction, and they all lie in the
  program: the program counter never leaves it.
\<close>

theorem check_cfg_reachable:
  assumes "check_cfg insns sp = Ok heads" "unat v < length insns"
  shows "(cfg_edge insns sp)\<^sup>*\<^sup>* 0 v \<and>
    (\<exists>nexts. visit_insn v insns sp = Ok nexts \<and> (\<forall>w \<in> set nexts. unat w < length insns))"
  using check_cfg_closed [OF assms] by blast

theorem check_cfg_reachable_witness: "(cfg_edge counting_loop [0])\<^sup>*\<^sup>* 0 3"
proof -
  have "unat (3 :: u32) < length counting_loop" by code_simp
  with check_cfg_reachable [OF counting_loop_cfg] show ?thesis by blast
qed

text \<open>
  C6: the loop heads an accepted program returns are exactly what bounded-loop exploration needs:
  the graph without the edges into loop heads has no cycle, so that every loop passes through a loop
  head, and every loop head lies on a cycle.
\<close>

theorem check_cfg_loop_heads:
  assumes "check_cfg insns sp = Ok heads"
  shows "acyclic {(u, v). cfg_edge insns sp u v \<and> v \<notin> set heads} \<and>
    (\<forall>h \<in> set heads. (cfg_edge insns sp)\<^sup>+\<^sup>+ h h)"
  using check_cfg_heads [OF assms] by blast

theorem check_cfg_loop_heads_witness: "(cfg_edge counting_loop [0])\<^sup>+\<^sup>+ 1 1"
  using check_cfg_loop_heads [OF counting_loop_cfg] by simp

text \<open>
  C27: on the entries \<open>add_subprog\<close> finds, the pass returns a verdict: it never indexes the program or
  its visit table out of range. (That it returns at all is the totality of \<open>dfs\<close>.)
\<close>

theorem check_cfg_returns:
  assumes "add_subprog insns = Ok sp" "length insns < 2 ^ 32"
  shows "(\<exists>heads. check_cfg insns sp = Ok heads) \<or> (\<exists>f. check_cfg insns sp = Err (Cfg_Fail f))"
proof (cases "check_cfg insns sp")
  case (Inl e)
  then show ?thesis using check_cfg_no_panic [OF assms] by (cases e) auto
qed simp

theorem check_cfg_returns_witness: "check_cfg counting_loop [0] \<noteq> Err Cfg_Panic"
  using check_cfg_returns [OF counting_loop_subprog] by (auto simp: counting_loop_def)

text \<open>
  C26: in an accepted program no jump or conditional branch leaves its subprogram or lands on the
  second slot of a 64-bit load.
\<close>

theorem check_cfg_branches:
  assumes "check_cfg insns sp = Ok heads" "wf_subprogs insns sp" "unat pc < length insns"
    and "insns ! unat pc = Jmp off \<or>
      is_conditional_branch (insns ! unat pc) \<and> off = branch_off (insns ! unat pc)"
  shows "(let (s, e) = find_subprog_range pc sp (of_nat (length insns)); t = branch_target pc off in
      s \<le> t \<and> t < e \<and> unat t < length insns \<and> \<not> is_ldimm64_second (insns ! unat t))"
  using check_cfg_jump [OF assms] by (auto simp: Let_def split: prod.splits)

theorem check_cfg_branches_witness: "branch_target 2 (-2) < (4 :: u32)"
proof -
  have "wf_subprogs counting_loop [0]" by (simp add: wf_subprogs_def counting_loop_def)
  moreover have "unat (2 :: u32) < length counting_loop" by code_simp
  moreover have "counting_loop ! unat (2 :: u32) = Jmp (-2) \<or>
    is_conditional_branch (counting_loop ! unat (2 :: u32)) \<and> -2 = branch_off (counting_loop ! unat (2 :: u32))"
    by code_simp
  ultimately have "(let (s, e) = find_subprog_range 2 [0] (of_nat (length counting_loop)); t = branch_target 2 (-2) in
      s \<le> t \<and> t < e \<and> unat t < length counting_loop \<and> \<not> is_ldimm64_second (counting_loop ! unat t))"
    by (rule check_cfg_branches [OF counting_loop_cfg])
  moreover have "find_subprog_range 2 [0] (of_nat (length counting_loop)) = (0, 4)" by code_simp
  ultimately show ?thesis by (simp add: Let_def)
qed

end
