(* ===== verification/Call_Chain.thy ===== *)
theory Call_Chain
  imports Cfg_Search
begin

text \<open>
  The static stack budget of \<open>Cfg\<close>: the chains of calls an accepted program can make and the stack
  bytes counted for each subprogram.
\<close>

section \<open>Call chains\<close>

definition call_edge :: "bpf_insn list \<Rightarrow> u32 list \<Rightarrow> nat \<Rightarrow> nat \<Rightarrow> bool" where
  "call_edge insns sp a b \<longleftrightarrow> (\<exists>pc \<in> set (subprog_pcs insns sp a). callee_at (insns ! pc) sp pc = Some b)"

fun call_path :: "bpf_insn list \<Rightarrow> u32 list \<Rightarrow> nat \<Rightarrow> nat list \<Rightarrow> bool" where
  "call_path insns sp a [] \<longleftrightarrow> True"
| "call_path insns sp a (b # bs) \<longleftrightarrow> call_edge insns sp a b \<and> call_path insns sp b bs"

definition chain_within :: "nat list \<Rightarrow> nat list \<Rightarrow> bool" where
  "chain_within depth chain \<longleftrightarrow>
     distinct chain \<and> length chain \<le> MAX_CALL_FRAMES \<and> sum_list (map (\<lambda>c. depth ! c) chain) \<le> STACK_SIZE"

lemma visit_chain_calls:
  "visit_chain insns sp depth chain pcs = Ok () \<Longrightarrow> pc \<in> set pcs \<Longrightarrow>
   callee_at (insns ! pc) sp pc = Some c \<Longrightarrow> distinct chain \<Longrightarrow>
   chain_within depth (chain @ [c]) \<and>
   visit_chain insns sp depth (chain @ [c]) (subprog_pcs insns sp c) = Ok ()"
proof (induction insns sp depth chain pcs rule: visit_chain.induct)
  case (2 insns sp depth chain p pcs)
  show ?case
  proof (cases "callee_at (insns ! p) sp p")
    case None
    then show ?thesis using "2.IH"(1) "2.prems" by (auto split: if_splits)
  next
    case (Some d)
    then have d: "d \<notin> set chain" "Suc (length chain) \<le> MAX_CALL_FRAMES"
        "sum_list (map (\<lambda>c. depth ! c) (chain @ [d])) \<le> STACK_SIZE"
        "visit_chain insns sp depth (chain @ [d]) (subprog_pcs insns sp d) = Ok ()"
        "visit_chain insns sp depth chain pcs = Ok ()"
      using "2.prems"(1) by (auto simp: Let_def not_less split: if_splits sum.splits)
    have len: "\<not> length insns \<le> p" using "2.prems"(1) by (auto split: if_splits)
    show ?thesis
    proof (cases "pc = p")
      case True
      then show ?thesis using d Some "2.prems"(3,4) by (simp add: chain_within_def)
    next
      case False
      then have "pc \<in> set pcs" using "2.prems"(2) by simp
      moreover have "\<not> MAX_CALL_FRAMES < length (chain @ [d])"
        "\<not> STACK_SIZE < sum_list (map ((!) depth) (chain @ [d]))" using d by simp_all
      ultimately show ?thesis
        using "2.IH"(3) [OF len Some d(1) refl refl _ _ d(4)] d(5) "2.prems"(3,4) by blast
    qed
  qed
qed simp

lemma visit_chain_path:
  "visit_chain insns sp depth (chain @ [a]) (subprog_pcs insns sp a) = Ok () \<Longrightarrow> distinct (chain @ [a]) \<Longrightarrow>
   call_path insns sp a bs \<Longrightarrow> bs \<noteq> [] \<Longrightarrow> chain_within depth (chain @ a # bs)"
proof (induction bs arbitrary: chain a)
  case (Cons b bs)
  obtain pc where pc: "pc \<in> set (subprog_pcs insns sp a)" "callee_at (insns ! pc) sp pc = Some b"
    using Cons.prems(3) by (auto simp: call_edge_def)
  note b = visit_chain_calls [OF Cons.prems(1) pc Cons.prems(2)]
  show ?case
  proof (cases "bs = []")
    case True
    then show ?thesis using b by simp
  next
    case False
    have "distinct ((chain @ [a]) @ [b])" using b unfolding chain_within_def by blast
    then show ?thesis
      using Cons.IH [of "chain @ [a]" b] b Cons.prems(3) False by simp
  qed
qed simp

lemma check_chains_sound:
  assumes "check_stack_call_chains insns sp depth = Ok ()" "call_path insns sp 0 bs" "bs \<noteq> []"
  shows "chain_within depth (0 # bs)"
  using visit_chain_path [of insns sp depth "[]" 0 bs] assms by (simp add: check_stack_call_chains_def)

lemma stack_use_ge: "- off + int (mem_bytes sz) \<le> int (stack_use off sz)"
proof -
  have "n \<le> round8 n" for n by (simp add: round8_def)
  then have "int (nat (max (- off + int (mem_bytes sz)) 0)) \<le> int (stack_use off sz)"
    unfolding stack_use_def by (metis of_nat_le_iff)
  then show ?thesis by simp
qed

lemma direct_depth_mono: "direct_depth insns pcs d = Ok r \<Longrightarrow> d \<le> r"
proof (induction insns pcs d rule: direct_depth.induct)
  case (2 insns pc pcs d)
  then show ?case by (fastforce split: if_splits option.splits)
qed simp

lemma direct_depth_covers:
  "direct_depth insns pcs d = Ok r \<Longrightarrow> pc \<in> set pcs \<Longrightarrow> stack_access (insns ! pc) = Some (10, off, sz) \<Longrightarrow>
   - sint off + int (mem_bytes sz) \<le> int r"
proof (induction insns pcs d rule: direct_depth.induct)
  case (2 insns p pcs d)
  show ?case
  proof (cases "pc = p")
    case True
    then have "direct_depth insns pcs (max d (stack_use (sint off) sz)) = Ok r"
      using "2.prems" by (simp split: if_splits)
    then have "stack_use (sint off) sz \<le> r" using direct_depth_mono by fastforce
    then show ?thesis using stack_use_ge [of "sint off" sz] by linarith
  next
    case False
    then show ?thesis using 2 by (auto split: if_splits option.splits)
  qed
qed simp

lemma depths_from_nth:
  "depths_from insns sp = Ok ds \<Longrightarrow> length ds = length sp \<and>
   (\<forall>i < length sp. direct_depth insns
      [unat (sp ! i) ..< unat (next_start (drop (Suc i) sp) (of_nat (length insns)))] 0 = Ok (ds ! i))"
proof (induction sp arbitrary: ds)
  case (Cons s rest)
  then show ?case by (auto simp: rbind_Ok_iff nth_Cons split: nat.splits)
qed simp

section \<open>Properties\<close>

definition two_calls :: "bpf_insn list" where
  "two_calls = [CallSub 1, Exit, StMemImm 7 10 (-16) Size_DW, CallSub 1, Exit, MovImm 0 1, Exit]"

lemma two_calls_depths: "direct_stack_depths two_calls [0, 2, 5] = Ok [0, 24, 0]"
  by code_simp

lemma two_calls_ok: "check_stack_call_chains two_calls [0, 2, 5] [0, 24, 0] = Ok ()"
  by code_simp

lemma two_calls_path: "call_path two_calls [0, 2, 5] 0 [1, 2]"
  by code_simp

definition full_frame_callee :: "bpf_insn list" where
  "full_frame_callee = [CallSub 1, Exit, StMemImm 7 10 (-512) Size_DW, MovImm 0 1, Exit]"

text \<open>
  The charge of an access counts its size on top of its distance below the frame pointer, so a
  callee that only touches the lowest slot of the 512-byte frame is counted as 520 bytes and refused.
\<close>

theorem full_frame_refused:
  "check_combined_stack_depth full_frame_callee [0, 2] = Err (Cfg_Fail (Failure 0 (Stack_Too_Large 2 520)))"
  by code_simp

text \<open>
  C23: when the static check accepts, every chain of calls from the main program, of any length, visits
  each subprogram at most once (no recursion), has at most 16 frames and uses at most 512 bytes of
  the counted stack.
\<close>

theorem call_chains_bounded:
  assumes "check_stack_call_chains insns sp depth = Ok ()" "call_path insns sp 0 bs" "bs \<noteq> []"
  shows "distinct (0 # bs) \<and> length (0 # bs) \<le> MAX_CALL_FRAMES \<and>
    sum_list (map (\<lambda>c. depth ! c) (0 # bs)) \<le> STACK_SIZE"
  using check_chains_sound [OF assms] by (simp only: chain_within_def)

theorem call_chains_bounded_witness: "sum_list (map (\<lambda>c. [0, 24, 0] ! c) [0, 1, 2 :: nat]) \<le> (512 :: nat)"
  using call_chains_bounded [OF two_calls_ok two_calls_path] by simp



end
