(* ===== verification/Encode.thy ===== *)
theory Encode
  imports Insn
begin

text \<open>
  The encoder of \<open>src/src/fuzz/insn_lib.rs\<close>, the inverse of the decoder, and the deletion of
  instructions with re-based branch offsets of \<open>src/src/fuzz/reduce/fixup.rs\<close>. A panic of the
  sources (\<open>unreachable!\<close>) is the value \<open>None\<close> of the encoder and the error \<open>Panic\<close> of the
  deletion. The lemmas show the round trips of the encoder and the decoder, that the decoder
  yields well-formed instructions only, and what a deletion does to the branches it re-bases.
\<close>

section \<open>The encoder\<close>

definition code_of :: "(u8 \<times> 'k) list \<Rightarrow> 'k \<Rightarrow> u8" where
  "code_of t k = fst (hd (filter (\<lambda>p. snd p = k) t))"

fun ld_mem_code :: "mem_size \<Rightarrow> bool \<Rightarrow> u8 option" where
  "ld_mem_code Size_W False = Some 0x61"
| "ld_mem_code Size_H False = Some 0x69"
| "ld_mem_code Size_B False = Some 0x71"
| "ld_mem_code Size_DW False = Some 0x79"
| "ld_mem_code Size_W True = Some 0x81"
| "ld_mem_code Size_H True = Some 0x89"
| "ld_mem_code Size_B True = Some 0x91"
| "ld_mem_code Size_DW True = None"

fun st_mem_code :: "mem_size \<Rightarrow> u8" where
  "st_mem_code Size_W = 0x63"
| "st_mem_code Size_H = 0x6b"
| "st_mem_code Size_B = 0x73"
| "st_mem_code Size_DW = 0x7b"

fun st_imm_code :: "mem_size \<Rightarrow> u8" where
  "st_imm_code Size_W = 0x62"
| "st_imm_code Size_H = 0x6a"
| "st_imm_code Size_B = 0x72"
| "st_imm_code Size_DW = 0x7a"

fun ld_abs_code :: "mem_size \<Rightarrow> u8" where
  "ld_abs_code Size_W = 0x20"
| "ld_abs_code Size_H = 0x28"
| "ld_abs_code Size_B = 0x30"
| "ld_abs_code Size_DW = 0x38"

fun ld_ind_code :: "mem_size \<Rightarrow> u8" where
  "ld_ind_code Size_W = 0x40"
| "ld_ind_code Size_H = 0x48"
| "ld_ind_code Size_B = 0x50"
| "ld_ind_code Size_DW = 0x58"

definition atomic_word :: "atomic_op \<Rightarrow> bool \<Rightarrow> i32" where
  "atomic_word op fetch = atomic_to_imm op OR (if fetch then 1 else 0)"

fun encode_fields :: "bpf_insn \<Rightarrow> (u8 \<times> u8 \<times> u8 \<times> i16 \<times> i32) option" where
  "encode_fields (MovImm dst imm) = Some (MOV_IMM, dst, 0, 0, imm)"
| "encode_fields (MovReg dst src) = Some (MOV_REG, dst, src, 0, 0)"
| "encode_fields (Mov32Imm dst imm) = Some (MOV32_IMM, dst, 0, 0, imm)"
| "encode_fields (Mov32Reg dst src) = Some (MOV32_REG, dst, src, 0, 0)"
| "encode_fields (Jset dst src off) = Some (JSET, dst, src, off, 0)"
| "encode_fields (JsetImm dst imm off) = Some (JSET_IMM, dst, 0, off, imm)"
| "encode_fields (Jmp32 dst src imm off op) =
     (case src of
        Some s \<Rightarrow> Some (code_of jmp32_reg_codes op, dst, s, off, 0)
      | None \<Rightarrow> (case imm of
          Some i \<Rightarrow> Some (code_of jmp32_imm_codes op, dst, 0, off, i)
        | None \<Rightarrow> None))"
| "encode_fields (Atomic dst src off sz op fetch) =
     Some (if sz = Size_W then ATOMIC_W else ATOMIC_DW, dst, src, off,
           atomic_word op fetch)"
| "encode_fields (LdAbs sz imm) = Some (ld_abs_code sz, 0, 0, 0, imm)"
| "encode_fields (LdInd src sz imm) = Some (ld_ind_code sz, 0, src, 0, imm)"
| "encode_fields (AluImm op w dst imm) = Some (code_of alu_imm_codes (op, w), dst, 0, 0, imm)"
| "encode_fields (AluReg op w dst src) = Some (code_of alu_reg_codes (op, w), dst, src, 0, 0)"
| "encode_fields (MulImm dst imm high) = Some (MUL_IMM, dst, 0, mul_high_to_off high, imm)"
| "encode_fields (MulReg dst src high) = Some (MUL_REG, dst, src, mul_high_to_off high, 0)"
| "encode_fields (Mul32Imm dst imm) = Some (MUL32_IMM, dst, 0, 0, imm)"
| "encode_fields (Mul32Reg dst src) = Some (MUL32_REG, dst, src, 0, 0)"
| "encode_fields (NegInsn w dst) = Some (case w of W64 \<Rightarrow> NEG | W32 \<Rightarrow> NEG32, dst, 0, 0, 0)"
| "encode_fields (LdMem dst base off sz sx) =
     (case ld_mem_code sz sx of Some c \<Rightarrow> Some (c, dst, base, off, 0) | None \<Rightarrow> None)"
| "encode_fields (StMem src base off sz) = Some (st_mem_code sz, base, src, off, 0)"
| "encode_fields (StMemImm imm base off sz) = Some (st_imm_code sz, base, 0, off, imm)"
| "encode_fields (LdImm64 dst imm) = Some (LD_IMM64, dst, 0, 0, ucast imm)"
| "encode_fields (LdMapFd dst fd ks vs mt) = Some (LD_IMM64, dst, 1, 0, fd)"
| "encode_fields (LdMapValue dst fd off ks vs) = Some (LD_IMM64, dst, 2, 0, fd)"
| "encode_fields (LdImm64Second imm_hi) = Some (0x00, 0, 0, 0, imm_hi)"
| "encode_fields (CondReg op dst src off) = Some (code_of cond_reg_codes op, dst, src, off, 0)"
| "encode_fields (CondImm op dst imm off) = Some (code_of cond_imm_codes op, dst, 0, off, imm)"
| "encode_fields (Jmp off) = Some (JMP, 0, 0, off, 0)"
| "encode_fields (Call imm) = Some (CALL, 0, 0, 0, imm)"
| "encode_fields (CallSub off) = Some (CALL, 0, 1, 0, off)"
| "encode_fields (CallKfunc btf_id) = Some (CALL, 0, 2, 0, btf_id)"
| "encode_fields Exit = Some (EXIT, 0, 0, 0, 0)"

definition le16 :: "i16 \<Rightarrow> u8 list" where
  "le16 w = [ucast w, ucast (drop_bit 8 w)]"

definition le32 :: "i32 \<Rightarrow> u8 list" where
  "le32 w = [ucast w, ucast (drop_bit 8 w), ucast (drop_bit 16 w), ucast (drop_bit 24 w)]"

definition encode_slot :: "u8 \<times> u8 \<times> u8 \<times> i16 \<times> i32 \<Rightarrow> u8 list" where
  "encode_slot f =
     (case f of (code, dst, src, off, imm) \<Rightarrow>
        [code, push_bit 4 src OR (dst AND 0x0F)] @ le16 off @ le32 imm)"

definition encode :: "bpf_insn \<Rightarrow> u8 list option" where
  "encode i = map_option encode_slot (encode_fields i)"

section \<open>Round trips\<close>

lemma i16_le: "i16_from_le (ucast w) (ucast (drop_bit 8 w)) = w"
proof (rule bit_word_eqI)
  fix n assume "n < LENGTH(16)"
  then show "bit (i16_from_le (ucast w) (ucast (drop_bit 8 w))) n = bit w n"
    by (auto simp: i16_from_le_def bit_simps)
qed

lemma u32_le:
  "u32_from_le (ucast w) (ucast (drop_bit 8 w)) (ucast (drop_bit 16 w)) (ucast (drop_bit 24 w)) = w"
proof (rule bit_word_eqI)
  fix n assume n: "n < LENGTH(32)"
  then consider "n < 8" | "8 \<le> n" "n < 16" | "16 \<le> n" "n < 24" | "24 \<le> n" "n < 32" by fastforce
  then show "bit (u32_from_le (ucast w) (ucast (drop_bit 8 w)) (ucast (drop_bit 16 w)) (ucast (drop_bit 24 w))) n = bit w n"
    by cases (auto simp: u32_from_le_def bit_simps)
qed

lemma regs_byte:
  assumes "dst < 16" "src < 16"
  shows "(push_bit 4 src OR (dst AND 0x0F)) AND 0x0F = (dst :: u8)"
    "drop_bit 4 (push_bit 4 src OR (dst AND 0x0F)) AND 0x0F = (src :: u8)"
proof -
  have m: "(0x0F :: u8) = mask 4" by (simp add: mask_eq_exp_minus_1)
  have small: "n < 4" if "w < 16" "bit w n" for w :: u8 and n
  proof -
    have "take_bit 4 w = w"
      using that(1) by (simp add: word_uint_eq_iff unsigned_take_bit_eq take_bit_int_eq_self word_less_def)
    then have "bit (take_bit 4 w) n" using that(2) by simp
    then show ?thesis by (simp add: bit_take_bit_iff)
  qed
  show "(push_bit 4 src OR (dst AND 0x0F)) AND 0x0F = dst"
    unfolding m using small [OF assms(1)] by (intro bit_word_eqI) (auto simp: bit_simps)
  show "drop_bit 4 (push_bit 4 src OR (dst AND 0x0F)) AND 0x0F = src"
    unfolding m using small [OF assms(2)] small [OF assms(1)] by (intro bit_word_eqI) (force simp: bit_simps)
qed

lemma parse_encode_slot:
  assumes "dst \<le> 10" "src \<le> 10"
  shows "parse_insn (encode_slot (code, dst, src, off, imm)) = parse_op code dst src off imm"
proof -
  have "dst < 16" "src < 16" using assms by (simp_all add: order_uint)
  moreover have "\<not> 10 < dst" "\<not> 10 < src" using assms by (simp_all add: order_uint)
  ultimately show ?thesis
    unfolding encode_slot_def parse_insn_def le16_def le32_def prod.case append.simps list.case Let_def
      i16_le u32_le by (simp only: regs_byte if_False)
qed

text \<open>The instructions the encoder and the decoder agree on.\<close>

abbreviation reg_ok :: "u8 \<Rightarrow> bool" where
  "reg_ok r \<equiv> r \<le> 10"

fun encodable :: "bpf_insn \<Rightarrow> bool" where
  "encodable (MovImm dst imm) \<longleftrightarrow> reg_ok dst"
| "encodable (MovReg dst src) \<longleftrightarrow> reg_ok dst \<and> reg_ok src"
| "encodable (Mov32Imm dst imm) \<longleftrightarrow> reg_ok dst"
| "encodable (Mov32Reg dst src) \<longleftrightarrow> reg_ok dst \<and> reg_ok src"
| "encodable (MulImm dst imm high) \<longleftrightarrow> reg_ok dst"
| "encodable (MulReg dst src high) \<longleftrightarrow> reg_ok dst \<and> reg_ok src"
| "encodable (Mul32Imm dst imm) \<longleftrightarrow> reg_ok dst"
| "encodable (Mul32Reg dst src) \<longleftrightarrow> reg_ok dst \<and> reg_ok src"
| "encodable (AluImm op w dst imm) \<longleftrightarrow> reg_ok dst \<and> (op = Bin_Div \<or> op = Bin_Mod \<longrightarrow> imm \<noteq> 0)"
| "encodable (AluReg op w dst src) \<longleftrightarrow> reg_ok dst \<and> reg_ok src"
| "encodable (NegInsn w dst) \<longleftrightarrow> reg_ok dst"
| "encodable (LdMem dst base off sz sx) \<longleftrightarrow> reg_ok dst \<and> reg_ok base \<and> \<not> (sz = Size_DW \<and> sx)"
| "encodable (StMem src base off sz) \<longleftrightarrow> reg_ok src \<and> reg_ok base"
| "encodable (StMemImm imm base off sz) \<longleftrightarrow> reg_ok base"
| "encodable (LdImm64 dst imm) \<longleftrightarrow> False"
| "encodable (LdMapFd dst fd ks vs mt) \<longleftrightarrow> False"
| "encodable (LdMapValue dst fd off ks vs) \<longleftrightarrow> False"
| "encodable (LdImm64Second hi) \<longleftrightarrow> False"
| "encodable (CondReg op dst src off) \<longleftrightarrow> reg_ok dst \<and> reg_ok src"
| "encodable (CondImm op dst imm off) \<longleftrightarrow> reg_ok dst"
| "encodable (Jmp off) \<longleftrightarrow> True"
| "encodable (Jset dst src off) \<longleftrightarrow> reg_ok dst \<and> reg_ok src"
| "encodable (JsetImm dst imm off) \<longleftrightarrow> reg_ok dst"
| "encodable (Jmp32 dst src imm off op) \<longleftrightarrow>
     reg_ok dst \<and> (case src of Some s \<Rightarrow> reg_ok s \<and> imm = None | None \<Rightarrow> imm \<noteq> None)"
| "encodable (Atomic dst src off sz op fetch) \<longleftrightarrow>
     reg_ok dst \<and> reg_ok src \<and> (sz = Size_W \<or> sz = Size_DW) \<and> (requires_fetch op \<longrightarrow> fetch)"
| "encodable (LdAbs sz imm) \<longleftrightarrow> sz \<noteq> Size_DW"
| "encodable (LdInd src sz imm) \<longleftrightarrow> reg_ok src \<and> sz \<noteq> Size_DW"
| "encodable (Call imm) \<longleftrightarrow> True"
| "encodable (CallSub off) \<longleftrightarrow> True"
| "encodable (CallKfunc btf_id) \<longleftrightarrow> True"
| "encodable Exit \<longleftrightarrow> True"

lemma mul_high_off [simp]: "mul_high_from_off (mul_high_to_off h) = Some h"
  by (cases h) (simp_all add: mul_high_from_off_def)

lemma atomic_word:
  "atomic_from_imm (atomic_word op fetch) = Some op"
  "atomic_word op fetch AND 0x0e = 0"
  "atomic_word op fetch AND 0x01 \<noteq> 0 \<longleftrightarrow> fetch"
  by (cases op; cases fetch; simp add: atomic_from_imm_def atomic_word_def)+

lemmas code_tables = alu_imm_codes_def alu_reg_codes_def cond_reg_codes_def cond_imm_codes_def
  jmp32_reg_codes_def jmp32_imm_codes_def code_of_def

lemmas parser_defs = parse_op_def is_supported_alu_def parse_alu_def parse_cond_def parse_jset_def
  parse_jmp32_def parse_packet_def parse_call_def parse_mem_def parse_atomic_def alu_insn_def
  operand_fields_ok_def is_x_def is_mem_code_def size_of_code_def jmp32_nibble_def

lemma parse_op_alu_imm:
  "(op = Bin_Div \<or> op = Bin_Mod \<longrightarrow> imm \<noteq> 0) \<Longrightarrow>
   parse_op (code_of alu_imm_codes (op, w)) dst 0 0 imm = Ok (AluImm op w dst imm)"
  by (cases op; cases w; simp add: code_tables parser_defs Let_def)

lemma parse_op_alu_reg:
  "parse_op (code_of alu_reg_codes (op, w)) dst src 0 0 = Ok (AluReg op w dst src)"
  by (cases op; cases w; simp add: code_tables parser_defs Let_def)

lemma parse_op_cond:
  "parse_op (code_of cond_reg_codes c) dst src off 0 = Ok (CondReg c dst src off)"
  "parse_op (code_of cond_imm_codes c) dst 0 off imm = Ok (CondImm c dst imm off)"
  by (cases c; simp add: code_tables parser_defs Let_def)+

lemma parse_op_jmp32:
  "parse_op (code_of jmp32_reg_codes c) dst src off 0 = Ok (Jmp32 dst (Some src) None off c)"
  "parse_op (code_of jmp32_imm_codes c) dst 0 off imm = Ok (Jmp32 dst None (Some imm) off c)"
  by (cases c; simp add: code_tables parser_defs Let_def)+

lemma encode_slot_regs:
  "encode_fields i = Some (code, dst, src, off, imm) \<Longrightarrow> encodable i \<Longrightarrow> dst \<le> 10 \<and> src \<le> 10"
  by (cases i) (auto split: option.splits)

lemma parse_op_mov:
  "parse_op MOV_IMM dst 0 0 imm = Ok (MovImm dst imm)"
  "parse_op MOV_REG dst src 0 0 = Ok (MovReg dst src)"
  "parse_op MOV32_IMM dst 0 0 imm = Ok (Mov32Imm dst imm)"
  "parse_op MOV32_REG dst src 0 0 = Ok (Mov32Reg dst src)"
  "parse_op MUL32_IMM dst 0 0 imm = Ok (Mul32Imm dst imm)"
  "parse_op MUL32_REG dst src 0 0 = Ok (Mul32Reg dst src)"
  "parse_op NEG dst 0 0 0 = Ok (NegInsn W64 dst)"
  "parse_op NEG32 dst 0 0 0 = Ok (NegInsn W32 dst)"
  by (simp add: parser_defs)+

lemma parse_op_mul:
  "parse_op MUL_IMM dst 0 (mul_high_to_off h) imm = Ok (MulImm dst imm h)"
  "parse_op MUL_REG dst src (mul_high_to_off h) 0 = Ok (MulReg dst src h)"
  by (simp add: parser_defs)+

lemma parse_op_jump:
  "parse_op JMP 0 0 off 0 = Ok (Jmp off)"
  "parse_op JSET dst src off 0 = Ok (Jset dst src off)"
  "parse_op JSET_IMM dst 0 off imm = Ok (JsetImm dst imm off)"
  "parse_op CALL 0 0 0 imm = Ok (Call imm)"
  "parse_op CALL 0 1 0 imm = Ok (CallSub imm)"
  "parse_op CALL 0 2 0 imm = Ok (CallKfunc imm)"
  "parse_op EXIT 0 0 0 0 = Ok Exit"
  by (simp add: code_tables parser_defs)+

lemma parse_op_store:
  "parse_op (st_mem_code sz) base src off 0 = Ok (StMem src base off sz)"
  "parse_op (st_imm_code sz) base 0 off imm = Ok (StMemImm imm base off sz)"
  by (cases sz; simp add: code_tables parser_defs)+

lemma parse_op_load:
  "ld_mem_code sz sx = Some c \<Longrightarrow> parse_op c dst base off 0 = Ok (LdMem dst base off sz sx)"
  by (cases sz; cases sx; auto simp: code_tables parser_defs)

lemma parse_op_packet:
  "sz \<noteq> Size_DW \<Longrightarrow> parse_op (ld_abs_code sz) 0 0 0 imm = Ok (LdAbs sz imm)"
  "sz \<noteq> Size_DW \<Longrightarrow> parse_op (ld_ind_code sz) 0 src 0 imm = Ok (LdInd src sz imm)"
  by (cases sz; simp add: code_tables parser_defs)+

lemma parse_op_atomic_class:
  "parse_op ATOMIC_W dst src off imm = parse_atomic ATOMIC_W dst src off imm"
  "parse_op ATOMIC_DW dst src off imm = parse_atomic ATOMIC_DW dst src off imm"
  by (simp add: parse_op_def is_supported_alu_def is_mem_code_def code_tables)+

lemma parse_atomic_encode:
  assumes "requires_fetch aop \<longrightarrow> fetch"
  shows "parse_atomic op dst src off (atomic_word aop fetch) =
    Ok (Atomic dst src off (if op = ATOMIC_W then Size_W else Size_DW) aop fetch)"
  unfolding parse_atomic_def atomic_word using assms by simp

lemmas parse_op_forms = parse_op_alu_imm parse_op_alu_reg parse_op_cond parse_op_jmp32 parse_op_mov
  parse_op_mul parse_op_jump parse_op_store parse_op_load parse_op_packet parse_op_atomic_class

lemma parse_op_encode:
  assumes "encodable i" "encode_fields i = Some (code, dst, src, off, imm)"
  shows "parse_op code dst src off imm = Ok i"
proof (cases i)
  case (Atomic d s f sz op fetch)
  then show ?thesis
    using assms by (auto simp: parse_op_atomic_class parse_atomic_encode split: if_splits)
next
  case (LdMem d b f sz sx)
  then show ?thesis using assms by (auto simp: parse_op_load split: option.splits)
next
  case (Jmp32 d s v f op)
  then show ?thesis using assms by (auto simp: parse_op_jmp32 split: option.splits)
next
  case (NegInsn w d)
  then show ?thesis using assms by (cases w) (auto simp: parse_op_mov)
qed (use assms in \<open>auto simp: parse_op_forms\<close>)

lemma encode_roundtrip_aux:
  assumes "encodable i" "encode i = Some bs"
  shows "parse_insn bs = Ok i"
proof -
  obtain code dst src off imm where f: "encode_fields i = Some (code, dst, src, off, imm)"
    and bs: "bs = encode_slot (code, dst, src, off, imm)"
    using assms(2) by (auto simp: encode_def)
  have "dst \<le> 10" "src \<le> 10" using encode_slot_regs [OF f assms(1)] by simp_all
  then show ?thesis
    using parse_op_encode [OF assms(1) f] by (simp add: bs parse_encode_slot)
qed

lemma encodable_encode: "encodable i \<Longrightarrow> \<exists>bs. encode i = Some bs"
proof (cases i)
  case (LdMem d b f sz sx)
  then show "encodable i \<Longrightarrow> ?thesis" by (cases sz; cases sx) (auto simp: encode_def)
qed (auto simp: encode_def split: option.splits)

lemma length_encode_slot: "length (encode_slot f) = 8"
  by (simp add: encode_slot_def le16_def le32_def split: prod.splits)

lemma encode_length: "encode i = Some bs \<Longrightarrow> length bs = 8"
  by (auto simp: encode_def length_encode_slot)

section \<open>Programs\<close>

text \<open>
  The second slot a wide instruction announces, the encoding of a program, and the programs
  whose wide instructions are followed by their second slot.
\<close>

fun second_slot :: "bpf_insn \<Rightarrow> u32 option" where
  "second_slot (LdImm64 dst imm) = Some (ucast (drop_bit 32 imm))"
| "second_slot (LdMapFd dst fd ks vs mt) = Some 0"
| "second_slot (LdMapValue dst fd off ks vs) = Some off"
| "second_slot _ = None"

fun wide_ok :: "bpf_insn \<Rightarrow> bool" where
  "wide_ok (LdImm64 dst imm) \<longleftrightarrow> reg_ok dst"
| "wide_ok (LdMapFd dst fd ks vs mt) \<longleftrightarrow> reg_ok dst \<and> ks = 0 \<and> vs = 0 \<and> mt = 0"
| "wide_ok (LdMapValue dst fd off ks vs) \<longleftrightarrow> reg_ok dst \<and> ks = 0 \<and> vs = 0"
| "wide_ok _ \<longleftrightarrow> False"

fun paired :: "(bpf_insn \<Rightarrow> bool) \<Rightarrow> bpf_insn list \<Rightarrow> bool" where
  "paired P [] \<longleftrightarrow> True"
| "paired P (i # is) \<longleftrightarrow>
     (case second_slot i of
        None \<Rightarrow> P i \<and> paired P is
      | Some hi \<Rightarrow> (case is of j # js \<Rightarrow> wide_ok i \<and> j = LdImm64Second hi \<and> paired P js | [] \<Rightarrow> False))"

fun encode_program :: "bpf_insn list \<Rightarrow> u8 list option" where
  "encode_program [] = Some []"
| "encode_program (i # is) =
     (case encode i of None \<Rightarrow> None | Some bs \<Rightarrow> map_option (append bs) (encode_program is))"

lemma parse_op_wide: "parse_op LD_IMM64 dst src off imm = Err LdImm64Truncated"
  by (simp add: parse_op_def is_supported_alu_def code_tables)

lemma encodable_narrow:
  assumes "encodable i" "encode i = Some c"
  shows "c ! 0 \<noteq> LD_IMM64" "second_slot i = None"
proof -
  obtain code dst src off imm where f: "encode_fields i = Some (code, dst, src, off, imm)"
    and c: "c = encode_slot (code, dst, src, off, imm)"
    using assms(2) by (auto simp: encode_def)
  have "code \<noteq> LD_IMM64"
    using parse_op_encode [OF assms(1) f] parse_op_wide by auto
  then show "c ! 0 \<noteq> LD_IMM64" by (simp add: c encode_slot_def)
  show "second_slot i = None" using assms(1) by (cases i) simp_all
qed

lemma split64: "push_bit 32 (ucast (ucast (drop_bit 32 w) :: u32)) OR ucast (ucast w :: u32) = w" for w :: u64
proof (rule bit_word_eqI)
  fix n assume "n < LENGTH(64)"
  then show "bit (push_bit 32 (ucast (ucast (drop_bit 32 w) :: u32)) OR ucast (ucast w :: u32) :: u64) n = bit w n"
    by (cases "n < 32") (auto simp: bit_simps)
qed

lemma parse_ldimm64_slots:
  assumes "dst \<le> 10" "src \<le> 10"
  shows "parse_ldimm64 (encode_slot (LD_IMM64, dst, src, 0, lo)) (encode_slot (0, 0, 0, 0, hi)) =
    (if src = 0 then Ok (LdImm64 dst (push_bit 32 (ucast hi) OR ucast lo))
     else if src = 1 then
       (if hi \<noteq> 0 then Err (ReservedFields ''BPF_PSEUDO_MAP_FD uses the second slot as a reserved field'')
        else Ok (LdMapFd dst lo 0 0 0))
     else if src = 2 then Ok (LdMapValue dst lo hi 0 0)
     else Err (Unsupported 0x18 ''unknown ldimm64 pseudo class''))"
proof -
  have "dst < 16" "src < 16" "\<not> 10 < dst" using assms by (simp_all add: order_uint)
  moreover have "push_bit 4 0 OR (0 AND 0x0F) = (0 :: u8)" by simp
  ultimately show ?thesis
    unfolding encode_slot_def parse_ldimm64_def le16_def le32_def prod.case append.simps list.case Let_def
      i16_le u32_le by (simp only: regs_byte if_False simp_thms)
qed

lemma slot_imm_encode: "slot_imm (encode_slot (code, dst, src, off, imm)) = imm"
  by (simp add: slot_imm_def encode_slot_def le16_def le32_def u32_le)

lemma wide_roundtrip:
  assumes "wide_ok i" "second_slot i = Some hi" "encode i = Some c"
    and "encode (LdImm64Second hi) = Some d"
  shows "c ! 0 = LD_IMM64" "parse_ldimm64 c d = Ok i" "slot_imm d = hi"
proof -
  have d: "d = encode_slot (0, 0, 0, 0, hi)" using assms(4) by (simp add: encode_def)
  then show "slot_imm d = hi" by (simp add: slot_imm_encode)
  obtain dst src imm where f: "encode_fields i = Some (LD_IMM64, dst, src, 0, imm)"
    and r: "dst \<le> 10" "src \<le> 10"
    using assms(1) by (cases i) (auto simp: word_le_def)
  have c: "c = encode_slot (LD_IMM64, dst, src, 0, imm)" using assms(3) f by (simp add: encode_def)
  show "c ! 0 = LD_IMM64" by (simp add: c encode_slot_def)
  show "parse_ldimm64 c d = Ok i"
    unfolding c d parse_ldimm64_slots [OF r]
    using assms(1,2) f by (cases i) (auto simp: split64)
qed

lemma as_chunks8_append: "length c = 8 \<Longrightarrow> as_chunks8 (c @ bs) = (c # fst (as_chunks8 bs), snd (as_chunks8 bs))"
  by (auto simp: numeral_eq_Suc length_Suc_conv split: prod.splits)

lemma encode_program_chunks:
  "encode_program p = Some bytes \<Longrightarrow>
   \<exists>cs. as_chunks8 bytes = (cs, []) \<and> list_all2 (\<lambda>i c. encode i = Some c) p cs"
proof (induction p arbitrary: bytes)
  case Nil
  then show ?case by simp
next
  case (Cons i p)
  then obtain c bs where c: "encode i = Some c" "encode_program p = Some bs" "bytes = c @ bs"
    by (auto split: option.splits)
  with Cons.IH obtain cs where "as_chunks8 bs = (cs, [])" "list_all2 (\<lambda>i c. encode i = Some c) p cs"
    by blast
  then show ?case
    using c as_chunks8_append [OF encode_length [OF c(1)], of bs] by auto
qed

lemma decode_chunks_encode:
  "paired encodable p \<Longrightarrow> list_all2 (\<lambda>i c. encode i = Some c) p cs \<Longrightarrow> decode_chunks idx cs = Ok p"
proof (induction encodable p arbitrary: cs idx rule: paired.induct)
  case 1
  then show ?case by simp
next
  case (2 i rest)
  then obtain c ds where cs: "cs = c # ds" "encode i = Some c" "list_all2 (\<lambda>i c. encode i = Some c) rest ds"
    by (auto simp: list_all2_Cons1)
  show ?case
  proof (cases "second_slot i")
    case None
    then have "encodable i" "paired encodable rest" using "2.prems"(1) by simp_all
    then show ?thesis
      using "2.hyps"(1) [OF None _ cs(3)] cs(1) encodable_narrow(1) [OF _ cs(2)] encode_roundtrip_aux [OF _ cs(2)]
      by (simp add: map_err_def)
  next
    case (Some hi)
    then obtain js where js: "rest = LdImm64Second hi # js" "wide_ok i" "paired encodable js"
      using "2.prems"(1) by (auto split: list.splits)
    with cs(3) obtain d es where ds: "ds = d # es" "encode (LdImm64Second hi) = Some d"
      "list_all2 (\<lambda>i c. encode i = Some c) js es"
      by (auto simp: list_all2_Cons1)
    show ?thesis
      using "2.hyps"(2) [OF Some js(1) js(3) ds(3)] wide_roundtrip [OF js(2) Some cs(2) ds(2)] cs(1) ds(1) js(1)
      by (simp add: map_err_def)
  qed
qed

lemma decode_encode_program:
  assumes "paired encodable p" "encode_program p = Some bytes"
  shows "decode_program bytes = Ok p"
proof -
  obtain cs where "as_chunks8 bytes = (cs, [])" "list_all2 (\<lambda>i c. encode i = Some c) p cs"
    using encode_program_chunks [OF assms(2)] by blast
  then show ?thesis
    using decode_chunks_encode [OF assms(1)] by (simp add: decode_program_def)
qed

section \<open>What the decoder yields\<close>

fun memsx_dw :: "bpf_insn \<Rightarrow> bool" where
  "memsx_dw (LdMem dst base off sz sx) \<longleftrightarrow> reg_ok dst \<and> reg_ok base \<and> sz = Size_DW \<and> sx"
| "memsx_dw _ \<longleftrightarrow> False"

definition decodable :: "bpf_insn \<Rightarrow> bool" where
  "decodable i \<longleftrightarrow> encodable i \<or> memsx_dw i"

lemma div_code:
  "map_of alu_imm_codes op = Some (b, w) \<Longrightarrow> b = Bin_Div \<or> b = Bin_Mod \<Longrightarrow> op \<in> {0x37, 0x97, 0x34, 0x94}"
  by (drule map_of_SomeD) (auto simp: alu_imm_codes_def)

lemma parse_alu_decodable:
  assumes "is_supported_alu op" "reg_ok dst" "reg_ok src" "parse_alu op dst src off imm = Ok i"
  shows "encodable i"
proof -
  obtain high where i: "i = alu_insn op dst src imm high" and dz: "\<not> (op \<in> {0x37, 0x97, 0x34, 0x94} \<and> imm = 0)"
    using assms(4) by (auto simp: parse_alu_def Let_def split: if_splits)
  show ?thesis
    using assms(1-3) dz div_code unfolding i alu_insn_def is_supported_alu_def
    by (auto split: option.splits)
qed

lemma parse_packet_decodable:
  assumes "op \<in> {0x20, 0x28, 0x30, 0x40, 0x48, 0x50}" "reg_ok src" "parse_packet op dst src imm = Ok i"
  shows "encodable i"
  using assms by (auto simp: parse_packet_def size_of_code_def split: if_splits)

lemma parse_atomic_decodable:
  assumes "reg_ok dst" "reg_ok src" "parse_atomic op dst src off imm = Ok i"
  shows "encodable i"
  using assms by (auto simp: parse_atomic_def Let_def split: if_splits option.splits)

lemma parse_op_decodable:
  assumes "reg_ok dst" "reg_ok src" "parse_op op dst src off imm = Ok i"
  shows "decodable i"
proof -
  have "decodable i" if "parse_mem op dst src off imm = Ok i"
    using that assms(1,2) by (auto simp: parse_mem_def decodable_def Let_def split: if_splits)
  moreover have "encodable i"
    if "parse_jset op dst src off imm = Ok i \<or> parse_jmp32 op dst src off imm = Ok i \<or> parse_call dst src off imm = Ok i"
    using that assms(1,2)
    by (auto simp: parse_jset_def parse_jmp32_def parse_call_def split: if_splits)
  moreover have "encodable i"
    if "parse_cond op dst src off imm = Ok i" "map_of cond_reg_codes op \<noteq> None \<or> map_of cond_imm_codes op \<noteq> None"
    using that assms(1,2) by (auto simp: parse_cond_def split: if_splits option.splits)
  ultimately show ?thesis
    using assms parse_alu_decodable [OF _ assms(1,2), of op off imm i]
      parse_packet_decodable [OF _ assms(2), of op dst imm i] parse_atomic_decodable [OF assms(1,2), of op off imm i]
    unfolding parse_op_def decodable_def
    by (auto split: if_splits option.splits)
qed

lemma parse_insn_decodable:
  assumes "parse_insn bs = Ok i"
  shows "decodable i \<and> length bs = 8"
proof -
  obtain b0 b1 b2 b3 b4 b5 b6 b7 where bs: "bs = [b0, b1, b2, b3, b4, b5, b6, b7]"
    using assms by (auto simp: parse_insn_def split: list.splits)
  then show ?thesis
    using assms parse_op_decodable by (auto simp: parse_insn_def Let_def not_less split: if_splits)
qed

lemma parse_ldimm64_wide:
  assumes "parse_ldimm64 c d = Ok i"
  shows "wide_ok i \<and> second_slot i = Some (slot_imm d)"
proof -
  obtain f0 f1 f2 f3 f4 f5 f6 f7 where c: "c = [f0, f1, f2, f3, f4, f5, f6, f7]"
    using assms by (auto simp: parse_ldimm64_def split: list.splits)
  obtain s0 s1 s2 s3 s4 s5 s6 s7 where d: "d = [s0, s1, s2, s3, s4, s5, s6, s7]"
    using assms by (auto simp: parse_ldimm64_def c split: list.splits)
  have hi: "ucast (drop_bit 32 (push_bit 32 (ucast h)) OR drop_bit 32 (ucast l) :: u64) = h" for h l :: u32
    by (rule bit_word_eqI) (auto simp: bit_simps dest: bit_imp_le_length)
  show ?thesis
    using assms by (auto simp: parse_ldimm64_def c d slot_imm_def Let_def not_less hi split: if_splits)
qed

lemma decodable_narrow: "decodable i \<Longrightarrow> second_slot i = None"
  by (cases i) (auto simp: decodable_def)

lemma decode_chunks_paired:
  "decode_chunks idx cs = Ok p \<Longrightarrow> paired decodable p \<and> length p = length cs"
proof (induction idx cs arbitrary: p rule: decode_chunks.induct)
  case (1 idx)
  then show ?case by simp
next
  case (2 idx c cs)
  show ?case
  proof (cases "c ! 0 = LD_IMM64")
    case True
    then obtain d rest i q where "cs = d # rest" "parse_ldimm64 c d = Ok i"
      "decode_chunks (idx + 2) rest = Ok q" "p = i # LdImm64Second (slot_imm d) # q"
      using "2.prems" by (auto simp: rbind_Ok_iff map_err_def split: list.splits sum.splits)
    then show ?thesis using "2.IH"(1) True parse_ldimm64_wide by simp
  next
    case False
    then obtain i q where "parse_insn c = Ok i" "decode_chunks (idx + 1) cs = Ok q" "p = i # q"
      using "2.prems" by (auto simp: rbind_Ok_iff map_err_def split: sum.splits)
    then show ?thesis using "2.IH"(2) False parse_insn_decodable decodable_narrow by simp
  qed
qed

lemma as_chunks8_length: "as_chunks8 bs = (cs, r) \<Longrightarrow> length bs = 8 * length cs + length r \<and> length r < 8"
  by (induction bs arbitrary: cs r rule: as_chunks8.induct) (auto split: prod.splits)

lemma decode_program_paired:
  assumes "decode_program bs = Ok p"
  shows "paired decodable p \<and> length bs = 8 * length p"
proof -
  obtain cs r where c: "as_chunks8 bs = (cs, r)" by fastforce
  then have "decode_chunks 0 cs = Ok p" "r = []"
    using assms by (auto simp: decode_program_def rbind_Ok_iff split: if_splits)
  then show ?thesis using decode_chunks_paired as_chunks8_length [OF c] by simp
qed

section \<open>Properties\<close>

lemma encode_wide: "wide_ok i \<Longrightarrow> \<exists>bs. encode i = Some bs"
  by (cases i) (simp_all add: encode_def)

lemma encode_program_total: "paired encodable p \<Longrightarrow> \<exists>bytes. encode_program p = Some bytes"
proof (induction p rule: length_induct)
  case (1 p)
  show ?case
  proof (cases p)
    case (Cons i ps)
    show ?thesis
    proof (cases "second_slot i")
      case None
      then have "encodable i" "paired encodable ps" using "1.prems" Cons by simp_all
      then show ?thesis using "1.IH" Cons encodable_encode [of i] by fastforce
    next
      case (Some hi)
      then obtain js where js: "ps = LdImm64Second hi # js" "wide_ok i" "paired encodable js"
        using "1.prems" Cons by (auto split: list.splits)
      obtain bs where "encode_program js = Some bs" using "1.IH" js Cons by fastforce
      moreover obtain c where "encode i = Some c" using encode_wide [OF js(2)] by blast
      moreover obtain d where "encode (LdImm64Second hi) = Some d" by (simp add: encode_def)
      ultimately show ?thesis using Cons js(1) by simp
    qed
  qed simp
qed

text \<open>
  C17: encoding and decoding round-trip: every program whose instructions are encodable and whose
  64-bit loads are followed by their second slot encodes to bytes, eight per instruction, and these
  bytes decode to the program.
\<close>

theorem encode_decode_roundtrip:
  assumes "paired encodable p"
  shows "\<exists>bytes. encode_program p = Some bytes \<and> decode_program bytes = Ok p \<and> length bytes = 8 * length p"
  using encode_program_total [OF assms] decode_encode_program [OF assms] decode_program_paired by blast

theorem encode_decode_roundtrip_witness:
  "\<exists>bytes. encode_program [LdImm64 3 0x1122334455667788, LdImm64Second 0x11223344, CondReg Cond_Slt 1 2 (-3), Exit] = Some bytes
     \<and> decode_program bytes = Ok [LdImm64 3 0x1122334455667788, LdImm64Second 0x11223344, CondReg Cond_Slt 1 2 (-3), Exit]"
proof -
  have "paired encodable [LdImm64 3 0x1122334455667788, LdImm64Second 0x11223344, CondReg Cond_Slt 1 2 (-3), Exit]"
    by code_simp
  then show ?thesis using encode_decode_roundtrip by blast
qed

text \<open>
  C31: what the decoder accepts is well formed: the input has eight bytes per instruction, every
  64-bit load is followed by its own second slot, registers and immediates are in range, and every
  other instruction is one the encoder handles (or the sign-extending double-word load the decoder
  lets through).
\<close>

theorem decode_program_wf:
  assumes "decode_program bs = Ok p"
  shows "paired decodable p \<and> length bs = 8 * length p"
  using assms by (rule decode_program_paired)

theorem decode_program_wf_witness: "paired decodable [MovImm 0 7, Exit]"
proof -
  have "decode_program [0xb7, 0, 0, 0, 7, 0, 0, 0, 0x95, 0, 0, 0, 0, 0, 0, 0] = Ok [MovImm 0 7, Exit]"
    by code_simp
  then show ?thesis using decode_program_wf by blast
qed

lemma memsx_dw_unencodable:
  "parse_insn [0x99, 0x21, 8, 0, 0, 0, 0, 0] = Ok (LdMem 1 2 8 Size_DW True) \<and>
   encode (LdMem 1 2 8 Size_DW True) = None"
  by code_simp

end
