(* ===== verification/Fixup.thy ===== *)
theory Fixup
  imports Encode
begin

text \<open>
  The deletion of instructions of \<open>src/src/fuzz/reduce/fixup.rs\<close>: remove a set of slots and
  re-base the branch offsets of the survivors. Indices are naturals; a program is far below
  \<open>2 ^ 32\<close> slots. The lemmas relate the bytes to the list of instructions they encode and show
  that a re-based branch still reaches its old target.
\<close>

section \<open>The operation\<close>

fun branch_offset :: "bpf_insn \<Rightarrow> i16 option" where
  "branch_offset (Jmp off) = Some off"
| "branch_offset (CondReg op dst src off) = Some off"
| "branch_offset (CondImm op dst imm off) = Some off"
| "branch_offset _ = None"

datatype panic = Panic

text \<open>The table from old to new indices: the first argument lists the old indices.\<close>

fun new_indices :: "nat set \<Rightarrow> nat list \<Rightarrow> nat \<Rightarrow> nat option list" where
  "new_indices removed [] next = []"
| "new_indices removed (old # olds) next =
     (if old \<in> removed then None # new_indices removed olds next
      else Some next # new_indices removed olds (Suc next))"

definition patch_offset :: "u8 list \<Rightarrow> i16 \<Rightarrow> u8 list" where
  "patch_offset chunk off = chunk[2 := ucast off, 3 := ucast (drop_bit 8 off)]"

definition rebased_offset :: "nat option list \<Rightarrow> nat \<Rightarrow> nat \<Rightarrow> i16 \<Rightarrow> i16 option" where
  "rebased_offset idx old new_idx off =
     (let target = int old + 1 + sint off in
      if target < 0 \<or> int (length idx) \<le> target then None
      else case idx ! nat target of
        None \<Rightarrow> None
      | Some new_target \<Rightarrow>
          let new_off = int new_target - int new_idx - 1
          in if new_off < - (2 ^ 15) \<or> 2 ^ 15 \<le> new_off then None else Some (word_of_int new_off))"

fun delete_loop :: "nat option list \<Rightarrow> (nat \<times> bpf_insn) list \<Rightarrow> (panic, u8 list option) res" where
  "delete_loop idx [] = Ok (Some [])"
| "delete_loop idx ((old, insn) # rest) =
     (case idx ! old of
        None \<Rightarrow> delete_loop idx rest
      | Some new_idx \<Rightarrow>
          (case encode insn of
             None \<Rightarrow> Err Panic
           | Some chunk \<Rightarrow>
               (case branch_offset insn of
                  None \<Rightarrow> rbind (delete_loop idx rest) (\<lambda>out. Ok (map_option (append chunk) out))
                | Some off \<Rightarrow>
                    (case rebased_offset idx old new_idx off of
                       None \<Rightarrow> Ok None
                     | Some new_off \<Rightarrow>
                         rbind (delete_loop idx rest)
                           (\<lambda>out. Ok (map_option (append (patch_offset chunk new_off)) out))))))"

definition delete_insns :: "u8 list \<Rightarrow> nat list \<Rightarrow> (panic, u8 list option) res" where
  "delete_insns bytes remove =
     (if length bytes mod 8 \<noteq> 0 \<or> bytes = [] then Ok None
      else
        let len = length bytes div 8 in
        case decode_program bytes of
          Inl e \<Rightarrow> Ok None
        | Inr insns \<Rightarrow>
            if \<exists>i\<in>set remove. len \<le> i then Ok None
            else delete_loop (new_indices (set remove) [0..<len] 0) (enumerate 0 insns))"

section \<open>The table of new indices\<close>

lemma length_new_indices [simp]: "length (new_indices R xs n) = length xs"
  by (induction xs arbitrary: n) auto

lemma new_indices_nth:
  "k < length xs \<Longrightarrow> distinct xs \<Longrightarrow>
   new_indices R xs n ! k =
     (if xs ! k \<in> R then None else Some (n + length (filter (\<lambda>i. i \<notin> R) (take k xs))))"
  by (induction xs arbitrary: n k) (auto simp: nth_Cons split: nat.splits)

definition survivors_below :: "nat set \<Rightarrow> nat \<Rightarrow> nat" where
  "survivors_below R k = length (filter (\<lambda>i. i \<notin> R) [0..<k])"

lemma new_indices_upt:
  "k < len \<Longrightarrow> new_indices R [0..<len] 0 ! k = (if k \<in> R then None else Some (survivors_below R k))"
  by (simp add: new_indices_nth survivors_below_def take_upt)

section \<open>The deletion on instructions\<close>

fun set_branch_offset :: "i16 \<Rightarrow> bpf_insn \<Rightarrow> bpf_insn" where
  "set_branch_offset off (Jmp _) = Jmp off"
| "set_branch_offset off (CondReg op dst src _) = CondReg op dst src off"
| "set_branch_offset off (CondImm op dst imm _) = CondImm op dst imm off"
| "set_branch_offset off i = i"

text \<open>The instruction a surviving slot becomes, and the resulting program.\<close>

definition rebased_insn :: "nat set \<Rightarrow> nat \<Rightarrow> nat \<times> bpf_insn \<Rightarrow> bpf_insn option" where
  "rebased_insn R len p =
     (case branch_offset (snd p) of
        None \<Rightarrow> Some (snd p)
      | Some off \<Rightarrow>
          map_option (\<lambda>o'. set_branch_offset o' (snd p))
            (rebased_offset (new_indices R [0..<len] 0) (fst p) (survivors_below R (fst p)) off))"

fun delete_spec :: "nat set \<Rightarrow> nat \<Rightarrow> (nat \<times> bpf_insn) list \<Rightarrow> bpf_insn list option" where
  "delete_spec R len [] = Some []"
| "delete_spec R len (p # ps) =
     (if fst p \<in> R then delete_spec R len ps
      else case rebased_insn R len p of
        None \<Rightarrow> None
      | Some i \<Rightarrow> map_option (Cons i) (delete_spec R len ps))"

lemma patch_encode:
  assumes "branch_offset i = Some off" "encode i = Some c"
  shows "encode (set_branch_offset off' i) = Some (patch_offset c off')"
  using assms
  by (cases i) (auto simp: encode_def encode_slot_def patch_offset_def le16_def)

lemma delete_loop_spec:
  assumes "\<forall>p\<in>set ps. fst p < len"
    and "delete_loop (new_indices R [0..<len] 0) ps = Ok (Some out)"
  shows "\<exists>q. delete_spec R len ps = Some q \<and> encode_program q = Some out"
  using assms
proof (induction ps arbitrary: out)
  case Nil
  then show ?case by simp
next
  case (Cons p ps)
  obtain old insn where p: "p = (old, insn)" by fastforce
  have idx: "new_indices R [0..<len] 0 ! old = (if old \<in> R then None else Some (survivors_below R old))"
    using Cons.prems(1) p by (simp add: new_indices_upt)
  show ?case
  proof (cases "old \<in> R")
    case True
    then show ?thesis using Cons p idx by simp
  next
    case False
    then obtain c where c: "encode insn = Some c"
      using Cons.prems(2) p idx by (auto split: option.splits)
    show ?thesis
    proof (cases "branch_offset insn")
      case None
      then show ?thesis
        using Cons p idx False c by (auto simp: rbind_Ok_iff rebased_insn_def)
    next
      case (Some off)
      then obtain o' where o: "rebased_offset (new_indices R [0..<len] 0) old (survivors_below R old) off = Some o'"
        using Cons.prems(2) p idx False c by (auto split: option.splits)
      then show ?thesis
        using Cons p idx False c Some patch_encode [OF Some c, of o'] by (auto simp: rbind_Ok_iff rebased_insn_def)
    qed
  qed
qed

lemma delete_insns_spec:
  assumes "decode_program bytes = Ok p" "delete_insns bytes remove = Ok (Some out)"
  shows "\<exists>q. delete_spec (set remove) (length p) (enumerate 0 p) = Some q \<and> encode_program q = Some out"
proof -
  have len: "length bytes div 8 = length p" using decode_program_paired [OF assms(1)] by simp
  have "delete_loop (new_indices (set remove) [0..<length p] 0) (enumerate 0 p) = Ok (Some out)"
    using assms len by (auto simp: delete_insns_def Let_def split: if_splits)
  then show ?thesis by (intro delete_loop_spec) (auto simp: in_set_enumerate_eq)
qed

lemma rebased_offset_target:
  assumes "rebased_offset (new_indices R [0..<len] 0) old n off = Some off'"
  shows "\<exists>t<len. int t = int old + 1 + sint off \<and> t \<notin> R \<and> int n + 1 + sint off' = int (survivors_below R t)"
proof -
  let ?t = "int old + 1 + sint off"
  have t: "0 \<le> ?t" "?t < int len"
    using assms by (auto simp: rebased_offset_def Let_def split: if_splits)
  then have lt: "nat ?t < len" by linarith
  let ?v = "int (survivors_below R (nat ?t)) - int n - 1"
  have r: "rebased_offset (new_indices R [0..<len] 0) old n off =
      (if nat ?t \<in> R then None else if ?v < - (2 ^ 15) \<or> 2 ^ 15 \<le> ?v then None else Some (word_of_int ?v))"
    using t lt by (simp add: rebased_offset_def Let_def new_indices_upt)
  have R: "nat ?t \<notin> R" and rng: "\<not> (?v < - (2 ^ 15) \<or> 2 ^ 15 \<le> ?v)"
    using assms unfolding r by (auto split: if_splits)
  then have "off' = word_of_int ?v" using assms unfolding r by (simp only: if_False option.inject)
  then have "sint off' = ?v"
    using rng by (simp only: signed_of_int) (simp add: signed_take_bit_int_eq_self)
  then have "int n + 1 + sint off' = int (survivors_below R (nat ?t))" by linarith
  then show ?thesis using R t lt by (intro exI [of _ "nat ?t"]) simp
qed

section \<open>Properties\<close>



text \<open>
  C25: the re-based offset of a jump reaches the new place of its old target: the target is a surviving
  instruction of the program, and the new offset, taken from the jump's new index, is the number of
  survivors before it. Jumps to deleted or missing instructions yield no program.
\<close>

theorem rebased_offset_correct:
  assumes "rebased_offset (new_indices R [0..<len] 0) old n off = Some off'"
  shows "\<exists>t<len. int t = int old + 1 + sint off \<and> t \<notin> R \<and> int n + 1 + sint off' = int (survivors_below R t)"
  using assms by (rule rebased_offset_target)

theorem rebased_offset_correct_witness:
  "\<exists>t<5. int t = int 0 + 1 + sint (3 :: i16) \<and> t \<notin> {2} \<and> int 0 + 1 + sint (2 :: i16) = int (survivors_below {2} t)"
proof -
  have "rebased_offset (new_indices {2} [0..<5] 0) 0 0 3 = Some 2" by code_simp
  then show ?thesis by (rule rebased_offset_correct)
qed


end
