(* ===== verification/Helper.thy ===== *)
theory Helper
  imports Reg_State Insn
begin

text \<open>
  Helper and kfunc signatures, \<open>src/src/helper.rs\<close>: the tables of prototypes and the check of the
  argument registers. The messages of the executor (\<open>src/src/exec.rs\<close>) are collected here as the
  datatype \<open>exec_msg\<close>, one constructor per format string with the values it prints, in groups; an unreachable
  branch or an index out of range is \<open>Exec_Panic\<close>.
\<close>

section \<open>Failures of the executor\<close>

datatype arg_type =
    Arg_PtrToMap
  | Arg_PtrToStack
  | Arg_Scalar
  | Arg_PtrToMem
  | Arg_PtrToDynptr
  | Arg_PtrToBtf
  | Arg_PtrToMapValue

datatype (plugins only: code size) access_msg =
    Stack_Away i16
  | Stack_Exceeds u8 i16 i32 i32
  | Stack_Exceeds_R10 i16
  | Stack_Align_Unknown u8 int
  | Not_Aligned u8 i16 int
  | Slot_Uninit int
  | Var_Uninit u8 i16 i32 i32
  | Indirect_Read u8 i16
  | Fill_Size u8 i16 reg_state
  | Corrupt_Spill u8 i16 reg_state nat
  | Spill_Size u8 i16 reg_state
  | Spill_To_Caller
  | Store_Pointer string
  | Non_Stack_Base string u8
  | Mem_Misaligned u8 i16 int
  | Mem_Range u8 i16 i32 i32
  | Map_Align_Unknown u8
  | Map_Invalid u8 i16 u32 i32 i32

datatype (plugins only: code size) arg_msg =
    Map_Arg1
  | Map_Flags
  | Map_Buffer_Base u8 string
  | Map_Buffer_Exact u8 string
  | Map_Buffer_Frame u8 i32 string
  | Indirect_Spill u8 int
  | Dynptr_Not_Stack nat u8
  | Dynptr_Not_Exact nat u8
  | Dynptr_Out_Of_Frame nat u8 i32
  | Dynptr_Uninit nat
  | From_Mem_Size
  | From_Mem_Align
  | From_Mem_Frame
  | Read_Buffer_Range
  | Read_Buffer_Frame
  | Invalid_Stack_Read i32
  | Uninit_Stack_Read i32

datatype (plugins only: code size) call_msg =
    Unknown_Helper i32
  | Unknown_Kfunc i32
  | Not_Ringbuf
  | Too_Many_Refs
  | Release_Not_Mem
  | Release_Not_Btf
  | Release_Unacquired u32
  | Ctx_Pointer_Field string prog_type
  | Ctx_Unmodeled_Field string prog_type
  | Ctx_Invalid_Access i32 u32
  | Packet_Not_Allowed
  | Packet_R6
  | Call_Depth string

datatype (plugins only: code size) alu_msg =
    Addend_Not_Allowed string i64
  | Addend_Unbounded string
  | Addend_Out string i64
  | Offset_Not_Allowed string int
  | Shift_Amount i32
  | Arith_Pointer u8
  | Arith_Stack u8
  | Arith_Ctx u8
  | Arith_Map u8
  | Arith_Map_Value u8
  | Arith_Nullable u8
  | Arith_Ref_Mem u8
  | Arith_Btf u8
  | Ctx_Variable
  | Reg_Offset u8

datatype (plugins only: code size) exec_msg =
    Reg_Msg reg_msg
  | Access access_msg
  | Argument arg_msg
  | Calling call_msg
  | Arithmetic alu_msg
  | Helper_Arg nat u8 reg_state arg_type
  | Atomic_Misaligned u8 i16 int
  | Atomic_Range u8 i16
  | Atomic_Caller_Frame
  | Atomic_Base u8 reg_state
  | Branch_In_Step
  | Compare_Types u8 "u8 option"
  | Compare_Pointers u8 string "u8 option"

datatype exec_error = Exec_Fail "exec_msg failure" | Exec_Panic

abbreviation fail :: "u32 \<Rightarrow> exec_msg \<Rightarrow> (exec_error, 'a) res" where
  "fail pc m \<equiv> Err (Exec_Fail (Failure pc m))"

text \<open>A failed register read, as a failure of the executor.\<close>

definition of_reg :: "(reg_msg failure, 'a) res \<Rightarrow> (exec_error, 'a) res" where
  "of_reg r = map_err (\<lambda>f. Exec_Fail (Failure (insn_idx f) (Reg_Msg (message f)))) r"

lemma of_reg_simps [simp]:
  "of_reg (Ok x) = Ok x"
  "of_reg (Err f) = Err (Exec_Fail (Failure (insn_idx f) (Reg_Msg (message f))))"
  by (simp_all add: of_reg_def map_err_def)

lemma of_reg_Ok_iff [simp]: "of_reg r = Ok x \<longleftrightarrow> r = Ok x"
  by (cases r) simp_all

lemma of_reg_no_panic [simp]: "of_reg r \<noteq> Err Exec_Panic"
  by (cases r) simp_all

section \<open>Prototypes\<close>

record kfunc_proto =
  kargs :: "arg_type list"
  kreturn :: reg_state
  acquires_ref :: bool
  releases_ref :: bool

record helper_proto =
  hargs :: "arg_type list"
  hreturn :: reg_state

abbreviation unknown_scalar_zero :: reg_state where
  "unknown_scalar_zero \<equiv> Scalar (scalar_constant 0)"

abbreviation unknown_scalar :: reg_state where
  "unknown_scalar \<equiv> Scalar scalar_unknown"

definition kfunc_prototype :: "i32 \<Rightarrow> kfunc_proto option" where
  "kfunc_prototype btf =
     (if btf = 94599 then
        Some \<lparr>kargs = [Arg_PtrToBtf], kreturn = unknown_scalar_zero, acquires_ref = False, releases_ref = True\<rparr>
      else if btf = 94041 then
        Some \<lparr>kargs = [Arg_PtrToMap, Arg_PtrToBtf], kreturn = PtrToBtfId 0 0, acquires_ref = True, releases_ref = False\<rparr>
      else if btf = 94881 then
        Some \<lparr>kargs = [Arg_PtrToBtf], kreturn = PtrToBtfId 0 0, acquires_ref = True, releases_ref = False\<rparr>
      else None)"

definition helper_acquires_ref :: "i32 \<Rightarrow> bool" where
  "helper_acquires_ref h \<longleftrightarrow> h = 131"

definition helper_releases_ref :: "i32 \<Rightarrow> bool" where
  "helper_releases_ref h \<longleftrightarrow> h = 132 \<or> h = 133"

definition helper_prototype :: "i32 \<Rightarrow> helper_proto option" where
  "helper_prototype h =
     (if h = 1 then
        Some \<lparr>hargs = [Arg_PtrToMap, Arg_PtrToStack], hreturn = PtrToMapValueOrNull 0 0\<rparr>
      else if h = 2 then
        Some \<lparr>hargs = [Arg_PtrToMap, Arg_PtrToStack, Arg_PtrToStack, Arg_Scalar], hreturn = unknown_scalar_zero\<rparr>
      else if h \<in> {5, 7, 8, 10, 125, 160, 208} then Some \<lparr>hargs = [], hreturn = unknown_scalar\<rparr>
      else if h = 131 then
        Some \<lparr>hargs = [Arg_PtrToMap, Arg_Scalar, Arg_Scalar], hreturn = PtrToMemOrNull 0 0 0\<rparr>
      else if h = 197 then
        Some \<lparr>hargs = [Arg_PtrToMapValue, Arg_Scalar, Arg_Scalar, Arg_PtrToDynptr], hreturn = unknown_scalar_zero\<rparr>
      else if h = 201 then
        Some \<lparr>hargs = [Arg_PtrToStack, Arg_Scalar, Arg_PtrToDynptr, Arg_Scalar, Arg_Scalar],
              hreturn = unknown_scalar_zero\<rparr>
      else if h = 202 then
        Some \<lparr>hargs = [Arg_PtrToDynptr, Arg_Scalar, Arg_PtrToStack, Arg_Scalar, Arg_Scalar],
              hreturn = unknown_scalar_zero\<rparr>
      else if h = 203 then
        Some \<lparr>hargs = [Arg_PtrToDynptr, Arg_Scalar, Arg_Scalar], hreturn = PtrToMemOrNull 0 0 0\<rparr>
      else if h = 132 \<or> h = 133 then
        Some \<lparr>hargs = [Arg_PtrToMem, Arg_Scalar], hreturn = unknown_scalar_zero\<rparr>
      else None)"

section \<open>Argument checks\<close>

definition arg_matches :: "arg_type \<Rightarrow> reg_state \<Rightarrow> bool" where
  "arg_matches expected actual =
     (case expected of
        Arg_PtrToMap \<Rightarrow> (case actual of PtrToMap ks vs mt \<Rightarrow> True | _ \<Rightarrow> False)
      | Arg_PtrToStack \<Rightarrow> (case actual of PtrToStack mn mx al f \<Rightarrow> True | _ \<Rightarrow> False)
      | Arg_PtrToMem \<Rightarrow> (case actual of PtrToMem mn mx al i p \<Rightarrow> True | _ \<Rightarrow> False)
      | Arg_PtrToDynptr \<Rightarrow> (case actual of PtrToStack mn mx al f \<Rightarrow> True | _ \<Rightarrow> False)
      | Arg_PtrToBtf \<Rightarrow> (case actual of PtrToBtfId b r \<Rightarrow> True | _ \<Rightarrow> False)
      | Arg_PtrToMapValue \<Rightarrow> (case actual of PtrToMapValue mn mx al vs i \<Rightarrow> True | _ \<Rightarrow> False)
      | Arg_Scalar \<Rightarrow> (case actual of Scalar b \<Rightarrow> True | _ \<Rightarrow> False))"

fun check_args_from :: "nat \<Rightarrow> u32 \<Rightarrow> arg_type list \<Rightarrow> verifier_state \<Rightarrow> (exec_error, unit) res" where
  "check_args_from i pc [] s = Ok ()"
| "check_args_from i pc (expected # rest) s =
     rbind (of_reg (read_reg pc s (of_nat (Suc i)))) (\<lambda>actual.
       if arg_matches expected actual then check_args_from (Suc i) pc rest s
       else fail pc (Helper_Arg (Suc i) (of_nat (Suc i)) actual expected))"

definition check_call_args :: "u32 \<Rightarrow> arg_type list \<Rightarrow> verifier_state \<Rightarrow> (exec_error, unit) res" where
  "check_call_args pc args s = check_args_from 0 pc args s"

definition check_helper_args :: "u32 \<Rightarrow> helper_proto \<Rightarrow> verifier_state \<Rightarrow> (exec_error, unit) res" where
  "check_helper_args pc h s = check_call_args pc (hargs h) s"

lemma read_reg_Ok_iff: "read_reg pc s r = Ok v \<longleftrightarrow> unat r < NUM_REGS \<and> regs s ! unat r = v \<and> v \<noteq> Uninit"
  by (cases "regs s ! unat r") (auto simp: read_reg_def check_reg_def)

lemma read_scalar_Ok_iff: "read_scalar pc s r = Ok b \<longleftrightarrow> unat r < NUM_REGS \<and> regs s ! unat r = Scalar b"
  by (auto simp: read_scalar_def rbind_Ok_iff read_reg_Ok_iff split: reg_state.splits)

lemma check_reg_Ok_iff [simp]: "check_reg pc r = Ok u \<longleftrightarrow> unat r < NUM_REGS"
  by (auto simp: check_reg_def)

lemma check_args_from_Ok:
  "check_args_from i pc args s = Ok u \<Longrightarrow> k < length args \<Longrightarrow> i + length args \<le> 10 \<Longrightarrow>
   arg_matches (args ! k) (regs s ! (Suc i + k))"
proof (induction i pc args s arbitrary: k rule: check_args_from.induct)
  case (2 i pc expected rest s)
  have r: "unat (of_nat (Suc i) :: u8) = Suc i" using "2.prems"(3) by (simp add: unat_of_nat del: of_nat_Suc)
  obtain v where v: "regs s ! Suc i = v" "arg_matches expected v" "check_args_from (Suc i) pc rest s = Ok u"
    using "2.prems"(1) r by (auto simp: rbind_Ok_iff read_reg_Ok_iff split: if_splits simp del: of_nat_Suc)
  show ?case
  proof (cases k)
    case (Suc j)
    have "read_reg pc s (of_nat (Suc i)) = Ok v"
      using "2.prems"(1) r v(1) by (auto simp: rbind_Ok_iff read_reg_Ok_iff split: if_splits simp del: of_nat_Suc)
    then show ?thesis
      using "2.IH" [of v j] v "2.prems"(2,3) Suc by (simp del: of_nat_Suc)
  qed (use v in simp)
qed simp

lemma check_call_args_matches:
  "check_call_args pc args s = Ok u \<Longrightarrow> k < length args \<Longrightarrow> length args \<le> 10 \<Longrightarrow>
   arg_matches (args ! k) (regs s ! Suc k)"
  using check_args_from_Ok [of 0 pc args s u k] by (simp add: check_call_args_def)

end
