(* ===== verification/Memory.thy ===== *)
theory Memory
  imports Helper
begin

text \<open>
  The memory accesses of \<open>src/src/exec.rs\<close>: reads and writes of the stack frames (spills, partial
  writes, dynptr slots), of map values and of referenced buffers, the range of a loaded value, and
  the access checks in front of them. Offsets are taken in \<open>int\<close>, where the sums of the sources do
  not overflow; the conversion of an offset to a byte index wraps at 64 bits like the cast it models.
\<close>

section \<open>Access to frames\<close>

abbreviation "REF_ID_BASE \<equiv> (0x10000000 :: u32)"

definition set_reg :: "verifier_state \<Rightarrow> u8 \<Rightarrow> reg_state \<Rightarrow> verifier_state" where
  "set_reg s r v = s\<lparr>regs := (regs s)[unat r := v]\<rparr>"

definition clobber_scratch :: "verifier_state \<Rightarrow> verifier_state" where
  "clobber_scratch s = s\<lparr>regs := (regs s)[1 := Uninit, 2 := Uninit, 3 := Uninit, 4 := Uninit, 5 := Uninit]\<rparr>"

definition frame_stack :: "verifier_state \<Rightarrow> u8 \<Rightarrow> (exec_error, stack_state) res" where
  "frame_stack s f =
     (if f = curframe s then Ok (stack s)
      else if unat f < length (saved s)
        then (case saved s ! unat f of None \<Rightarrow> Err Exec_Panic | Some fr \<Rightarrow> Ok (fr_stack fr))
      else Err Exec_Panic)"

text \<open>Writing back through \<open>frame_stack_mut\<close>; the frame is present whenever \<open>frame_stack\<close> finds it.\<close>

definition put_frame_stack :: "verifier_state \<Rightarrow> u8 \<Rightarrow> stack_state \<Rightarrow> verifier_state" where
  "put_frame_stack s f st =
     (if f = curframe s then s\<lparr>stack := st\<rparr>
      else s\<lparr>saved := (saved s)[unat f := map_option (\<lambda>fr. fr\<lparr>fr_stack := st\<rparr>) (saved s ! unat f)]\<rparr>)"

definition stack_byte_index :: "int \<Rightarrow> nat" where
  "stack_byte_index off = nat ((- off - 1) mod 2 ^ 64)"

definition stack_byte_range :: "int \<Rightarrow> int \<Rightarrow> nat \<times> nat" where
  "stack_byte_range min_off max_off = (stack_byte_index (max_off - 1), stack_byte_index min_off)"

definition slot_bytes :: "stack_state \<Rightarrow> nat \<Rightarrow> stack_byte list" where
  "slot_bytes st slot = take 8 (drop (slot * 8) (sbytes st))"

definition full_spill :: "stack_state \<Rightarrow> nat \<Rightarrow> bool" where
  "full_spill st slot \<longleftrightarrow> list_all (\<lambda>b. b = SB_Spill) (slot_bytes st slot)"

definition fill_bytes :: "nat list \<Rightarrow> stack_byte \<Rightarrow> stack_byte list \<Rightarrow> stack_byte list" where
  "fill_bytes is b bs = fold (\<lambda>i bs. bs[i := b]) is bs"

text \<open>The loops over the registers and the fully spilled slots of a frame.\<close>

definition map_spilled :: "(reg_state \<Rightarrow> reg_state) \<Rightarrow> stack_state \<Rightarrow> stack_state" where
  "map_spilled f st =
     st\<lparr>spilled := map (\<lambda>(slot, sp). if full_spill st slot then map_option f sp else sp) (enumerate 0 (spilled st))\<rparr>"

definition map_frame :: "(reg_state \<Rightarrow> reg_state) \<Rightarrow> verifier_state \<Rightarrow> verifier_state" where
  "map_frame f s = s\<lparr>regs := map f (regs s), stack := map_spilled f (stack s)\<rparr>"

section \<open>Values read from memory\<close>

definition scalar_for_width :: "u32 \<Rightarrow> bool \<Rightarrow> scalar_bounds" where
  "scalar_for_width sz sign_extend =
     (if sz = 1 \<and> \<not> sign_extend then scalar_from_signed 0 0xFF
      else if sz = 2 \<and> \<not> sign_extend then scalar_from_signed 0 0xFFFF
      else if sz = 4 \<and> \<not> sign_extend then scalar_from_signed 0 0xFFFFFFFF
      else if sz = 1 \<and> sign_extend then scalar_from_signed (-0x80) 0x7F
      else if sz = 2 \<and> sign_extend then scalar_from_signed (-0x8000) 0x7FFF
      else if sz = 4 \<and> sign_extend then scalar_from_signed (-0x80000000) 0x7FFFFFFF
      else scalar_unknown)"

definition coerce_scalar :: "scalar_bounds \<Rightarrow> nat \<Rightarrow> bool \<Rightarrow> scalar_bounds" where
  "coerce_scalar b sz sign_extend =
     (if 8 \<le> sz then b
      else
        let bits = sz * 8; low_mask = (mask bits :: u64);
            narrow = \<lparr>tvalue = tvalue (stnum b) AND low_mask,
                      tmask = (tmask (stnum b) AND low_mask) OR NOT low_mask\<rparr>
        in if scalar_is_constant b then
             let v = smin b AND low_mask
             in scalar_constant (if sign_extend \<and> v AND push_bit (bits - 1) 1 \<noteq> 0 then v OR NOT low_mask else v)
           else if sign_extend then scalar_unknown\<lparr>stnum := narrow\<rparr>
           else
             \<lparr>smin = 0, smax = low_mask, umin = 0, umax = low_mask,
              s32_min = 0, s32_max = ucast (min low_mask 0xFFFFFFFF),
              u32_min = 0, u32_max = ucast (min low_mask 0xFFFFFFFF),
              stnum = narrow, precise = precise b, sid = 0, delta = 0\<rparr>)"

section \<open>Maps, buffers and contexts\<close>

definition map_value_access_check :: "u32 \<Rightarrow> u8 \<Rightarrow> reg_state \<Rightarrow> i16 \<Rightarrow> (exec_error, unit) res" where
  "map_value_access_check pc base p off =
     (case p of
        PtrToMapValue mn mx al vs i \<Rightarrow>
          (let min_off = sint mn + sint off; max_off = sint mx + sint off + 8 in
           if al = ALIGN_UNKNOWN then fail pc (Access (Map_Align_Unknown base))
           else if (uint al + sint off mod 8) mod 8 \<noteq> 0 then fail pc (Access (Not_Aligned base off 8))
           else if min_off < 0 \<or> uint vs < max_off then fail pc (Access (Map_Invalid base off vs mn mx))
           else Ok ())
      | _ \<Rightarrow> Err Exec_Panic)"

definition mem_access_check :: "u32 \<Rightarrow> u8 \<Rightarrow> i16 \<Rightarrow> i32 \<Rightarrow> i32 \<Rightarrow> int \<Rightarrow> (exec_error, unit) res" where
  "mem_access_check pc base off mn mx sz =
     (let min_off = sint mn + sint off; max_off = sint mx + sint off + sz in
      if min_off mod sz \<noteq> 0 then fail pc (Access (Mem_Misaligned base off sz))
      else if min_off < 0 \<or> sint mx + 8 < max_off then fail pc (Access (Mem_Range base off mn (mx + 8)))
      else Ok ())"

definition ctx_read :: "u32 \<Rightarrow> prog_type \<Rightarrow> i32 \<Rightarrow> mem_size \<Rightarrow> bool \<Rightarrow> (exec_error, reg_state) res" where
  "ctx_read pc pt off sz sign_extend =
     (let bytes = of_nat (mem_bytes sz) in
      case ctx_read_access pt off bytes of
        Inr Ctx_Scalar \<Rightarrow> Ok (Scalar (scalar_for_width bytes sign_extend))
      | Inr (Ctx_Pointer field) \<Rightarrow> fail pc (Calling (Ctx_Pointer_Field field pt))
      | Inl (Ctx_Unmodeled field) \<Rightarrow> fail pc (Calling (Ctx_Unmodeled_Field field pt))
      | Inl Ctx_Invalid \<Rightarrow> fail pc (Calling (Ctx_Invalid_Access off bytes)))"

definition packet_access_allowed :: "prog_type \<Rightarrow> bool" where
  "packet_access_allowed t \<longleftrightarrow> t = SocketFilter \<or> t = SchedCls \<or> t = SchedAct \<or> t = CgroupSkb"

definition check_legacy_packet_load :: "u32 \<Rightarrow> verifier_state \<Rightarrow> (exec_error, unit) res" where
  "check_legacy_packet_load pc s =
     (if \<not> packet_access_allowed (vprog_type s) then fail pc (Calling Packet_Not_Allowed)
      else case regs s ! 6 of PtrToCtx off \<Rightarrow> Ok () | _ \<Rightarrow> fail pc (Calling Packet_R6))"

section \<open>Reading the stack\<close>

definition stack_bounds_error :: "u32 \<Rightarrow> u8 \<Rightarrow> i16 \<Rightarrow> i32 \<Rightarrow> i32 \<Rightarrow> int \<Rightarrow> exec_msg failure" where
  "stack_bounds_error pc base off mn mx min_off =
     (if 0 \<le> min_off \<and> base = 10 \<and> mn = 0 \<and> mx = 0 then Failure pc (Access (Stack_Away off))
      else Failure pc (Access (Stack_Exceeds base off mn mx)))"

definition is_scalar_spill :: "reg_state option \<Rightarrow> bool" where
  "is_scalar_spill sp \<longleftrightarrow> (case sp of Some (Scalar b) \<Rightarrow> True | _ \<Rightarrow> False)"

definition constant_zero :: "reg_state option \<Rightarrow> bool" where
  "constant_zero sp \<longleftrightarrow> (case sp of Some (Scalar b) \<Rightarrow> scalar_is_constant b \<and> smin b = 0 | _ \<Rightarrow> False)"

definition unreadable :: "stack_byte \<Rightarrow> bool" where
  "unreadable b \<longleftrightarrow> b = SB_Invalid \<or> b = SB_Dynptr"

text \<open>The byte walk of \<open>fixed_stack_read\<close>, after its spill branch.\<close>

definition byte_walk :: "u32 \<Rightarrow> i16 \<Rightarrow> stack_state \<Rightarrow> nat \<Rightarrow> nat \<Rightarrow> (exec_error, reg_state) res" where
  "byte_walk pc off st lo hi =
     (let bs = map (\<lambda>i. sbytes st ! i) [lo..<Suc hi] in
      if list_ex unreadable bs then fail pc (Access (Slot_Uninit (sint off)))
      else if list_all (\<lambda>b. b = SB_Zero) bs \<or>
              list_all (\<lambda>b. b = SB_Spill) bs \<and> constant_zero (spilled st ! (hi div 8))
        then Ok (Scalar (scalar_constant 0))
      else Ok (Scalar scalar_unknown))"

definition fixed_stack_read ::
  "u32 \<Rightarrow> u8 \<Rightarrow> i16 \<Rightarrow> stack_state \<Rightarrow> nat \<Rightarrow> nat \<Rightarrow> int \<Rightarrow> nat \<Rightarrow> bool \<Rightarrow> (exec_error, reg_state) res" where
  "fixed_stack_read pc base off st lo hi min_off sz sign_extend =
     (if list_all (\<lambda>i. sbytes st ! i = SB_Spill) [lo..<Suc hi]
      then (case spilled st ! (hi div 8) of
              None \<Rightarrow> byte_walk pc off st lo hi
            | Some v \<Rightarrow>
                if sz = 8 then Ok v
                else (case v of
                    Scalar b \<Rightarrow>
                      if min_off mod 8 = 0 then Ok (Scalar (coerce_scalar b sz sign_extend))
                      else byte_walk pc off st lo hi
                  | _ \<Rightarrow> fail pc (Access (Fill_Size base off v))))
      else byte_walk pc off st lo hi)"

text \<open>A variable-offset read: the first unreadable byte or pointer spill of the range fails it.\<close>

fun variable_stack_read ::
  "u32 \<Rightarrow> u8 \<Rightarrow> i16 \<Rightarrow> i32 \<Rightarrow> i32 \<Rightarrow> stack_state \<Rightarrow> nat list \<Rightarrow> (exec_error, unit) res" where
  "variable_stack_read pc base off mn mx st [] = Ok ()"
| "variable_stack_read pc base off mn mx st (i # is) =
     (if STACK_SIZE \<le> i then Err Exec_Panic
      else if unreadable (sbytes st ! i) then fail pc (Access (Var_Uninit base off mn mx))
      else if sbytes st ! i = SB_Spill \<and> \<not> is_scalar_spill (spilled st ! (i div 8))
        then fail pc (Access (Indirect_Read base off))
      else variable_stack_read pc base off mn mx st is)"

text \<open>
  The checks in front of a stack access, shared by reads and writes: alignment, then the frame bounds.
  They yield the byte range.
\<close>

definition stack_access_check ::
  "u32 \<Rightarrow> u8 \<Rightarrow> i16 \<Rightarrow> i32 \<Rightarrow> i32 \<Rightarrow> u8 \<Rightarrow> int \<Rightarrow> (exec_error, nat \<times> nat) res" where
  "stack_access_check pc base off mn mx al sz =
     (let min_off = sint mn + sint off; max_off = sint mx + sint off + sz in
      if al = ALIGN_UNKNOWN then fail pc (Access (Stack_Align_Unknown base sz))
      else if (uint al + sint off) mod sz \<noteq> 0 \<or> min_off mod sz \<noteq> 0 then fail pc (Access (Not_Aligned base off sz))
      else if min_off < - 512 \<or> 0 < max_off then Err (Exec_Fail (stack_bounds_error pc base off mn mx min_off))
      else Ok (stack_byte_range min_off max_off))"

definition stack_read ::
  "u32 \<Rightarrow> u8 \<Rightarrow> verifier_state \<Rightarrow> i16 \<Rightarrow> mem_size \<Rightarrow> bool \<Rightarrow> (exec_error, reg_state) res" where
  "stack_read pc base s off sz sign_extend =
     rbind (of_reg (read_reg pc s base)) (\<lambda>bs.
     case bs of
       PtrToStack mn mx al f \<Rightarrow>
         rbind (stack_access_check pc base off mn mx al (int (mem_bytes sz))) (\<lambda>(lo, hi).
         rbind (frame_stack s f) (\<lambda>st.
           if mn = mx then
             fixed_stack_read pc base off st lo hi (sint mn + sint off) (mem_bytes sz) sign_extend
           else rbind (variable_stack_read pc base off mn mx st [lo..<Suc hi]) (\<lambda>_.
             Ok (Scalar (if lo \<le> hi then scalar_unknown else scalar_constant 0)))))
     | PtrToMapValue mn mx al vs i \<Rightarrow>
         rbind (map_value_access_check pc base bs off) (\<lambda>_. Ok (Scalar scalar_unknown))
     | PtrToMem mn mx al i p \<Rightarrow>
         rbind (mem_access_check pc base off mn mx (int (mem_bytes sz))) (\<lambda>_. Ok (Scalar scalar_unknown))
     | _ \<Rightarrow> fail pc (Access (Non_Stack_Base ''load'' base)))"

section \<open>Writing the stack\<close>

text \<open>
  A write to a slot that holds a dynptr destroys it: its bytes become invalid, its metadata goes, and
  the identifier of the last one destroyed is returned.
\<close>

definition destroy_dynptr :: "nat \<Rightarrow> stack_state \<times> u32 option \<Rightarrow> stack_state \<times> u32 option" where
  "destroy_dynptr slot acc =
     (case acc of (st, destroyed) \<Rightarrow>
        if sbytes st ! (slot * 8) = SB_Dynptr then
          (st\<lparr>sbytes := fill_bytes [slot * 8..<slot * 8 + 8] SB_Invalid (sbytes st),
              dynptrs := (dynptrs st)[slot := None]\<rparr>,
           case dynptrs st ! slot of Some ds \<Rightarrow> Some (dyn_id ds) | None \<Rightarrow> destroyed)
        else (st, destroyed))"

definition kill_slice :: "u32 \<Rightarrow> reg_state \<Rightarrow> reg_state" where
  "kill_slice d r =
     (case r of
        PtrToMem mn mx al i p \<Rightarrow> if i = d \<or> p = d then unknown_scalar else r
      | PtrToMemOrNull i p sz \<Rightarrow> if i = d \<or> p = d then unknown_scalar else r
      | _ \<Rightarrow> r)"

definition destroy_slices :: "u8 \<Rightarrow> u32 \<Rightarrow> verifier_state \<Rightarrow> (exec_error, verifier_state) res" where
  "destroy_slices f d s =
     (let s' = s\<lparr>regs := map (kill_slice d) (regs s)\<rparr> in
      rbind (frame_stack s' f) (\<lambda>st. Ok (put_frame_stack s' f (map_spilled (kill_slice d) st))))"

definition stored_value ::
  "u32 \<Rightarrow> verifier_state \<Rightarrow> u8 option \<Rightarrow> i32 option \<Rightarrow> (exec_error, reg_state) res" where
  "stored_value pc s src imm =
     (case src of
        Some r \<Rightarrow> of_reg (read_reg pc s r)
      | None \<Rightarrow> (case imm of Some v \<Rightarrow> Ok (Scalar (scalar_constant (scast v))) | None \<Rightarrow> Err Exec_Panic))"

fun check_corrupt_spill ::
  "u32 \<Rightarrow> u8 \<Rightarrow> i16 \<Rightarrow> stack_state \<Rightarrow> nat list \<Rightarrow> (exec_error, unit) res" where
  "check_corrupt_spill pc base off st [] = Ok ()"
| "check_corrupt_spill pc base off st (slot # slots) =
     (case spilled st ! slot of
        Some (Scalar b) \<Rightarrow> check_corrupt_spill pc base off st slots
      | None \<Rightarrow> check_corrupt_spill pc base off st slots
      | Some v \<Rightarrow> fail pc (Access (Corrupt_Spill base off v slot)))"

text \<open>An aligned store at a known offset: a spill of the low bytes of the slot.\<close>

definition spill_store :: "nat \<Rightarrow> nat \<Rightarrow> reg_state \<Rightarrow> stack_state \<Rightarrow> stack_state" where
  "spill_store lo hi v st =
     (let slot = hi div 8 in
      st\<lparr>sbytes := fill_bytes [slot * 8..<lo] SB_Misc (fill_bytes [lo..<Suc hi] SB_Spill (sbytes st)),
         spilled := (spilled st)[slot := Some v]\<rparr>)"

text \<open>A partial or variable-offset store: the covered slots lose their spill and dynptr metadata.\<close>

definition partial_store :: "nat \<Rightarrow> nat \<Rightarrow> bool \<Rightarrow> stack_state \<Rightarrow> stack_state" where
  "partial_store lo hi zero st =
     (let slots = [lo div 8..<Suc (hi div 8)];
          bs = fill_bytes [lo..<Suc hi] (if zero then SB_Zero else SB_Misc) (sbytes st);
          scrub = concat (map (\<lambda>slot. filter (\<lambda>i. bs ! i = SB_Spill) [slot * 8..<slot * 8 + 8]) slots)
      in st\<lparr>spilled := fold (\<lambda>slot sp. sp[slot := None]) slots (spilled st),
            dynptrs := fold (\<lambda>slot d. d[slot := None]) slots (dynptrs st),
            sbytes := fill_bytes scrub SB_Misc bs\<rparr>)"

definition memory_store_scalar ::
  "u32 \<Rightarrow> verifier_state \<Rightarrow> u8 option \<Rightarrow> i32 option \<Rightarrow> string \<Rightarrow> (exec_error, unit) res" where
  "memory_store_scalar pc s src imm kind =
     rbind (stored_value pc s src imm) (\<lambda>v.
     case v of
       Scalar b \<Rightarrow> Ok ()
     | _ \<Rightarrow> if kind = ''map value'' then Ok () else fail pc (Access (Store_Pointer kind)))"

definition stack_store ::
  "u32 \<Rightarrow> u8 \<Rightarrow> verifier_state \<Rightarrow> i16 \<Rightarrow> mem_size \<Rightarrow> u8 option \<Rightarrow> i32 option \<Rightarrow>
   i32 \<Rightarrow> i32 \<Rightarrow> u8 \<Rightarrow> nat \<times> nat \<Rightarrow> (exec_error, verifier_state) res" where
  "stack_store pc base s off sz src imm mn mx f rng =
     (case rng of (lo, hi) \<Rightarrow>
      if lo \<le> hi \<and> STACK_SIZE \<le> hi then Err Exec_Panic
      else
      rbind (frame_stack s f) (\<lambda>st0.
      let (st1, destroyed) = fold destroy_dynptr [lo div 8..<Suc (hi div 8)] (st0, None);
          s1 = put_frame_stack s f st1 in
      rbind (case destroyed of None \<Rightarrow> Ok s1 | Some d \<Rightarrow> destroy_slices f d s1) (\<lambda>s2.
      rbind (frame_stack s2 f) (\<lambda>st2.
      if mn = mx \<and> (sint mn + sint off) mod 8 = 0 then
        rbind (stored_value pc s src imm) (\<lambda>v.
          if (case v of Scalar b \<Rightarrow> False | _ \<Rightarrow> mem_bytes sz \<noteq> 8) then fail pc (Access (Spill_Size base off v))
          else if (case v of PtrToStack a b c d \<Rightarrow> f \<noteq> curframe s | _ \<Rightarrow> False)
            then fail pc (Access Spill_To_Caller)
          else Ok (put_frame_stack s2 f (spill_store lo hi v st2)))
      else
        rbind (check_corrupt_spill pc base off st2 [lo div 8..<Suc (hi div 8)]) (\<lambda>_.
        rbind (stored_value pc s src imm) (\<lambda>v.
          Ok (put_frame_stack s2 f (partial_store lo hi (constant_zero (Some v)) st2))))))))"

definition stack_write ::
  "u32 \<Rightarrow> u8 \<Rightarrow> verifier_state \<Rightarrow> i16 \<Rightarrow> mem_size \<Rightarrow> u8 option \<Rightarrow> i32 option \<Rightarrow>
   (exec_error, verifier_state) res" where
  "stack_write pc base s off sz src imm =
     rbind (of_reg (read_reg pc s base)) (\<lambda>bs.
     case bs of
       PtrToStack mn mx al f \<Rightarrow>
         rbind (stack_access_check pc base off mn mx al (int (mem_bytes sz)))
           (stack_store pc base s off sz src imm mn mx f)
     | PtrToMapValue mn mx al vs i \<Rightarrow>
         rbind (map_value_access_check pc base bs off) (\<lambda>_.
         rbind (memory_store_scalar pc s src imm ''map value'') (\<lambda>_. Ok s))
     | PtrToMem mn mx al i p \<Rightarrow>
         rbind (mem_access_check pc base off mn mx (int (mem_bytes sz))) (\<lambda>_.
         rbind (memory_store_scalar pc s src imm ''referenced memory'') (\<lambda>_. Ok s))
     | _ \<Rightarrow> fail pc (Access (Non_Stack_Base ''store'' base)))"

text \<open>The slots an access covers, used by the precision backtracking.\<close>

definition stack_access_range ::
  "u32 \<Rightarrow> u8 \<Rightarrow> verifier_state \<Rightarrow> i16 \<Rightarrow> nat \<Rightarrow> (exec_error, nat \<times> nat) res" where
  "stack_access_range pc base s off sz =
     (case regs s ! unat base of
        PtrToStack mn mx al f \<Rightarrow>
          (let min_off = sint mn + sint off; max_off = sint mx + sint off + int sz;
               own = (base = 10 \<and> mn = 0 \<and> mx = 0) in
           if al = ALIGN_UNKNOWN then fail pc (Access (Stack_Align_Unknown base (int sz)))
           else if (uint al + sint off) mod int sz \<noteq> 0 then fail pc (Access (Not_Aligned base off (int sz)))
           else if 0 \<le> min_off then
             (if own then fail pc (Access (Stack_Away off)) else fail pc (Access (Stack_Exceeds base off mn mx)))
           else if min_off < - 512 \<or> 0 < max_off then
             (if own then fail pc (Access (Stack_Exceeds_R10 off))
              else fail pc (Access (Stack_Exceeds base off mn mx)))
           else Ok (nat (- max_off) div 8, nat (- min_off - 1) div 8))
      | _ \<Rightarrow> Err Exec_Panic)"

end
