(* ===== verification/Refs.thy ===== *)
theory Refs
  imports Memory
begin

text \<open>
  Helper and kfunc calls of \<open>src/src/exec.rs\<close>: reference counting of acquired buffers and objects,
  dynptr slots, map buffers, and the effect of a call on the registers.
\<close>

section \<open>References\<close>

text \<open>
  \<open>fresh_reference_id\<close> counts up from the base of the reference identifiers until it finds one that
  is not held. The first argument bounds the search; one more step than references are held is
  enough.
\<close>

fun fresh_from :: "nat \<Rightarrow> u32 list \<Rightarrow> u32 \<Rightarrow> u32" where
  "fresh_from 0 active i = i"
| "fresh_from (Suc n) active i = (if i \<in> set active then fresh_from n active (i + 1) else i)"

definition active_refs :: "verifier_state \<Rightarrow> u32 list" where
  "active_refs s = take (unat (refs_cnt s)) (refs s)"

definition fresh_reference_id :: "verifier_state \<Rightarrow> u32" where
  "fresh_reference_id s = fresh_from (Suc (length (active_refs s))) (active_refs s) (REF_ID_BASE + 1)"

definition push_ref :: "u32 \<Rightarrow> verifier_state \<Rightarrow> (exec_error, u32 \<times> verifier_state) res" where
  "push_ref pc s =
     (if MAX_REFS \<le> unat (refs_cnt s) then fail pc (Calling Too_Many_Refs)
      else let i = fresh_reference_id s in
        Ok (i, s\<lparr>refs := (refs s)[unat (refs_cnt s) := i], refs_cnt := refs_cnt s + 1\<rparr>))"

definition drop_ref :: "u32 \<Rightarrow> verifier_state \<Rightarrow> verifier_state option" where
  "drop_ref i s =
     (case position (\<lambda>r. r = i) (active_refs s) of
        None \<Rightarrow> None
      | Some k \<Rightarrow>
          Some (s\<lparr>refs := (refs s)[k := refs s ! (unat (refs_cnt s) - 1)], refs_cnt := refs_cnt s - 1\<rparr>))"

definition kill_alias :: "u32 \<Rightarrow> reg_state \<Rightarrow> reg_state" where
  "kill_alias d r =
     (case r of
        PtrToMem mn mx al i p \<Rightarrow> if i = d \<or> p = d then unknown_scalar else r
      | PtrToMemOrNull i p sz \<Rightarrow> if i = d \<or> p = d then unknown_scalar else r
      | PtrToBtfId b ro \<Rightarrow> if ro = d then unknown_scalar else r
      | _ \<Rightarrow> r)"

definition invalidate_in_frame :: "u32 \<Rightarrow> frame_state \<Rightarrow> frame_state" where
  "invalidate_in_frame d fr =
     fr\<lparr>fr_regs := map (kill_alias d) (fr_regs fr), fr_stack := map_spilled (kill_alias d) (fr_stack fr)\<rparr>"

definition invalidate_reference_aliases :: "u32 \<Rightarrow> verifier_state \<Rightarrow> verifier_state" where
  "invalidate_reference_aliases d s =
     (map_frame (kill_alias d) s)\<lparr>saved := map (map_option (invalidate_in_frame d)) (saved s)\<rparr>"

definition release_ref :: "u32 \<Rightarrow> u32 \<Rightarrow> verifier_state \<Rightarrow> (exec_error, verifier_state) res" where
  "release_ref pc i s =
     (case drop_ref i s of
        None \<Rightarrow> fail pc (Calling (Release_Unacquired i))
      | Some s' \<Rightarrow> Ok (invalidate_reference_aliases i s'))"

section \<open>Stack buffers and dynptrs\<close>

definition known_size :: "reg_state \<Rightarrow> i64 option" where
  "known_size r = (case r of Scalar b \<Rightarrow> if scalar_is_constant b \<and> 0 \<le>s smin b then Some (smin b) else None | _ \<Rightarrow> None)"

definition init_stack_buffer ::
  "u32 \<Rightarrow> verifier_state \<Rightarrow> i32 \<Rightarrow> i32 \<Rightarrow> int \<Rightarrow> (exec_error, verifier_state) res" where
  "init_stack_buffer pc s mn mx len =
     (if len < 0 \<or> sint mx < sint mn then fail pc (Argument Read_Buffer_Range)
      else if len = 0 then Ok s
      else if sint mn < - 512 \<or> 0 < sint mx + len then fail pc (Argument Read_Buffer_Frame)
      else let (lo, hi) = stack_byte_range (sint mn) (sint mx + len) in
        Ok (s\<lparr>stack := (stack s)\<lparr>sbytes := fill_bytes [lo..<Suc hi] SB_Misc (sbytes (stack s))\<rparr>\<rparr>))"

fun check_bytes_readable :: "u32 \<Rightarrow> i32 \<Rightarrow> stack_state \<Rightarrow> nat list \<Rightarrow> (exec_error, unit) res" where
  "check_bytes_readable pc mn st [] = Ok ()"
| "check_bytes_readable pc mn st (i # is) =
     (if STACK_SIZE \<le> i then Err Exec_Panic
      else if unreadable (sbytes st ! i) then fail pc (Argument (Uninit_Stack_Read mn))
      else if sbytes st ! i = SB_Spill \<and> \<not> is_scalar_spill (spilled st ! (i div 8))
        then fail pc (Argument (Invalid_Stack_Read mn))
      else check_bytes_readable pc mn st is)"

definition check_stack_range_initialized ::
  "u32 \<Rightarrow> verifier_state \<Rightarrow> i32 \<Rightarrow> i32 \<Rightarrow> (exec_error, unit) res" where
  "check_stack_range_initialized pc s mn mx =
     check_bytes_readable pc mn (stack s) [stack_byte_index (sint mx - 1)..<Suc (stack_byte_index (sint mn))]"

definition dynptr_slot_of ::
  "u32 \<Rightarrow> verifier_state \<Rightarrow> nat \<Rightarrow> nat \<Rightarrow> (exec_error, nat \<times> dynptr_state) res" where
  "dynptr_slot_of pc s reg argno =
     (case regs s ! reg of
        PtrToStack mn mx al f \<Rightarrow>
          (if mn \<noteq> mx \<or> al \<noteq> 0 \<or> sint mn mod 16 \<noteq> 0
           then fail pc (Argument (Dynptr_Not_Exact (argno + 1) (of_nat reg)))
           else if sint mn < - 512 \<or> - 16 < sint mn
           then fail pc (Argument (Dynptr_Out_Of_Frame (argno + 1) (of_nat reg) mn))
           else
             let spi = nat (- sint mn - 1) div 8; lo_slot = spi - 1 in
             if list_ex (\<lambda>slot. list_ex (\<lambda>b. b \<noteq> SB_Dynptr) (slot_bytes (stack s) slot)) [lo_slot..<Suc spi]
             then fail pc (Argument (Dynptr_Uninit (argno + 1)))
             else (case dynptrs (stack s) ! spi of
                 None \<Rightarrow> fail pc (Argument (Dynptr_Uninit (argno + 1)))
               | Some ds \<Rightarrow> Ok (spi, ds)))
      | _ \<Rightarrow> fail pc (Argument (Dynptr_Not_Stack (argno + 1) (of_nat reg))))"

definition dynptr_from_mem :: "u32 \<Rightarrow> verifier_state \<Rightarrow> verifier_state \<Rightarrow> (exec_error, verifier_state) res" where
  "dynptr_from_mem pc s next =
     (case known_size (regs s ! 2) of
        None \<Rightarrow> fail pc (Argument From_Mem_Size)
      | Some sz \<Rightarrow>
          (case regs s ! 4 of
             PtrToStack mn mx al f \<Rightarrow>
               (if mn \<noteq> mx \<or> sint mn mod 16 \<noteq> 0 then fail pc (Argument From_Mem_Align)
                else if sint mn < - 512 \<or> - 16 < sint mn then fail pc (Argument From_Mem_Frame)
                else
                  let spi = nat (- sint mn - 1) div 8; lo_slot = spi - 1; st = stack next in
                  Ok (next\<lparr>stack := st\<lparr>sbytes := fill_bytes [lo_slot * 8..<spi * 8 + 8] SB_Dynptr (sbytes st),
                        dynptrs := (dynptrs st)[spi := Some \<lparr>dyn_size = ucast sz, dyn_id = pc + 1\<rparr>]\<rparr>\<rparr>))
           | _ \<Rightarrow> Err Exec_Panic))"

definition dynptr_helper_call ::
  "u32 \<Rightarrow> i32 \<Rightarrow> verifier_state \<Rightarrow> verifier_state \<Rightarrow> (exec_error, verifier_state) res" where
  "dynptr_helper_call pc h s next =
     (if h = 197 then dynptr_from_mem pc s next
      else if h = 201 then
        rbind (dynptr_slot_of pc s 3 3) (\<lambda>_.
          let len = (case known_size (regs s ! 2) of Some v \<Rightarrow> (ucast v :: i32) | None \<Rightarrow> 8) in
          case regs s ! 1 of
            PtrToStack mn mx al f \<Rightarrow> init_stack_buffer pc next mn mx (sint len)
          | _ \<Rightarrow> Ok next)
      else if h = 202 then
        rbind (dynptr_slot_of pc s 1 1) (\<lambda>_.
          let len = (case known_size (regs s ! 4) of Some v \<Rightarrow> (ucast v :: i32) | None \<Rightarrow> 8) in
          case regs s ! 3 of
            PtrToStack mn mx al f \<Rightarrow>
              rbind (check_stack_range_initialized pc next mn (mn + len)) (\<lambda>_. Ok next)
          | _ \<Rightarrow> Ok next)
      else if h = 203 then
        rbind (dynptr_slot_of pc s 1 1) (\<lambda>(_, ds).
          let sz = (case known_size (regs s ! 3) of Some v \<Rightarrow> ucast v | None \<Rightarrow> 0) in
          Ok (next\<lparr>regs := (regs next)[0 := PtrToMemOrNull (dyn_id ds) (dyn_id ds) sz]\<rparr>))
      else Err Exec_Panic)"

section \<open>Map helpers\<close>

fun check_buffer_bytes :: "u32 \<Rightarrow> u8 \<Rightarrow> int \<Rightarrow> stack_state \<Rightarrow> nat list \<Rightarrow> (exec_error, unit) res" where
  "check_buffer_bytes pc reg off st [] = Ok ()"
| "check_buffer_bytes pc reg off st (i # is) =
     (if unreadable (sbytes st ! i) then fail pc (Access (Slot_Uninit off))
      else if sbytes st ! i = SB_Spill \<and> \<not> is_scalar_spill (spilled st ! (i div 8))
        then fail pc (Argument (Indirect_Spill reg off))
      else check_buffer_bytes pc reg off st is)"

definition check_map_buffer ::
  "u32 \<Rightarrow> verifier_state \<Rightarrow> u8 \<Rightarrow> u32 \<Rightarrow> string \<Rightarrow> (exec_error, unit) res" where
  "check_map_buffer pc s reg sz what =
     (case regs s ! unat reg of
        PtrToStack mn mx al f \<Rightarrow>
          (if mn \<noteq> mx \<or> al = ALIGN_UNKNOWN then fail pc (Argument (Map_Buffer_Exact reg what))
           else if sint mn < - 512 \<or> 0 < sint mn + uint sz then fail pc (Argument (Map_Buffer_Frame reg mn what))
           else if 0 < uint sz then
             check_buffer_bytes pc reg (sint mn) (stack s)
               [stack_byte_index (sint mn + uint sz - 1)..<Suc (stack_byte_index (sint mn))]
           else Ok ())
      | Uninit \<Rightarrow> fail pc (Reg_Msg (UninitReg reg))
      | _ \<Rightarrow> fail pc (Argument (Map_Buffer_Base reg what)))"

definition check_map_helper_args :: "u32 \<Rightarrow> i32 \<Rightarrow> verifier_state \<Rightarrow> (exec_error, unit) res" where
  "check_map_helper_args pc h s =
     (case regs s ! 1 of
        PtrToMap ks vs mt \<Rightarrow>
          rbind (check_map_buffer pc s 2 ks ''key'') (\<lambda>_.
            if h = 2 then
              rbind (check_map_buffer pc s 3 vs ''value'') (\<lambda>_.
                case regs s ! 4 of Scalar b \<Rightarrow> Ok () | _ \<Rightarrow> fail pc (Argument Map_Flags))
            else Ok ())
      | _ \<Rightarrow> fail pc (Argument Map_Arg1))"

section \<open>Calls\<close>

definition set_r0 :: "reg_state \<Rightarrow> verifier_state \<Rightarrow> verifier_state" where
  "set_r0 v s = s\<lparr>regs := (regs s)[0 := v]\<rparr>"

definition helper_effect ::
  "u32 \<Rightarrow> i32 \<Rightarrow> helper_proto \<Rightarrow> verifier_state \<Rightarrow> (exec_error, verifier_state) res" where
  "helper_effect pc h proto s =
     (if helper_acquires_ref h then
        rbind (push_ref pc s) (\<lambda>(i, next).
          let sz = (case known_size (regs s ! 2) of Some v \<Rightarrow> ucast v | None \<Rightarrow> 0) in
          Ok (set_r0 (PtrToMemOrNull i 0 sz) next))
      else if h \<in> {197, 201, 202, 203} then
        rbind (dynptr_helper_call pc h s s) (\<lambda>next.
          Ok (if h = 203 then next else set_r0 (hreturn proto) next))
      else if helper_releases_ref h then
        (case regs s ! 1 of
           PtrToMem mn mx al i p \<Rightarrow>
             (if i = 0 then fail pc (Calling Release_Not_Mem)
              else rbind (release_ref pc i s) (\<lambda>next. Ok (set_r0 (hreturn proto) next)))
         | _ \<Rightarrow> fail pc (Calling Release_Not_Mem))
      else Ok (set_r0 (hreturn proto) s))"

definition is_ringbuf :: "reg_state \<Rightarrow> bool" where
  "is_ringbuf r \<longleftrightarrow> (case r of PtrToMap ks vs mt \<Rightarrow> mt = 1 | _ \<Rightarrow> False)"

definition helper_call :: "u32 \<Rightarrow> verifier_state \<Rightarrow> i32 \<Rightarrow> (exec_error, verifier_state) res" where
  "helper_call pc s h =
     (case helper_prototype h of
        None \<Rightarrow> fail pc (Calling (Unknown_Helper h))
      | Some proto \<Rightarrow>
          rbind (if h = 1 \<or> h = 2 then check_map_helper_args pc h s else check_helper_args pc proto s) (\<lambda>_.
            if h = 131 \<and> \<not> is_ringbuf (regs s ! 1) then fail pc (Calling Not_Ringbuf)
            else rbind (helper_effect pc h proto s) (\<lambda>next.
              let next = clobber_scratch next in
              Ok (if h = 1 then (case regs s ! 1 of
                    PtrToMap ks vs mt \<Rightarrow> set_r0 (PtrToMapValueOrNull vs (pc + 1)) next
                  | _ \<Rightarrow> next) else next))))"

definition kfunc_effect ::
  "u32 \<Rightarrow> kfunc_proto \<Rightarrow> verifier_state \<Rightarrow> (exec_error, verifier_state) res" where
  "kfunc_effect pc proto s =
     (if acquires_ref proto then
        rbind (push_ref pc s) (\<lambda>(i, next).
          let btf = (case regs s ! 1 of PtrToBtfId b ro \<Rightarrow> b | _ \<Rightarrow> 0) in
          Ok (set_r0 (PtrToBtfId btf i) next))
      else if releases_ref proto then
        (case regs s ! 1 of
           PtrToBtfId b i \<Rightarrow>
             (if i = 0 then fail pc (Calling Release_Not_Btf)
              else rbind (release_ref pc i s) (\<lambda>next. Ok (set_r0 (kreturn proto) next)))
         | _ \<Rightarrow> fail pc (Calling Release_Not_Btf))
      else Ok (set_r0 (kreturn proto) s))"

definition kfunc_call :: "u32 \<Rightarrow> i32 \<Rightarrow> verifier_state \<Rightarrow> (exec_error, verifier_state) res" where
  "kfunc_call pc btf s =
     (case kfunc_prototype btf of
        None \<Rightarrow> fail pc (Calling (Unknown_Kfunc btf))
      | Some proto \<Rightarrow>
          rbind (check_call_args pc (kargs proto) s) (\<lambda>_.
          rbind (kfunc_effect pc proto s) (\<lambda>next. Ok (clobber_scratch next))))"

end
