(* ===== verification/Exec.thy ===== *)
theory Exec
  imports Refs
begin

text \<open>
  One instruction on the abstract state, \<open>src/src/exec.rs\<close>: \<open>step\<close> with the ALU instructions, the
  pointer arithmetic and its sanity bounds, atomics, loads and stores. The control-flow instructions
  are expanded by \<open>Branch_Exec\<close>; reaching them here is a panic of the sources.
\<close>

section \<open>Pointer arithmetic\<close>

definition BPF_MAX_VAR_OFF :: int where
  "BPF_MAX_VAR_OFF = 2 ^ 28"

definition sat_i32 :: "int \<Rightarrow> i32" where
  "sat_i32 v = word_of_int (max (- (2 ^ 31)) (min (2 ^ 31 - 1) v))"

definition sat_int64 :: "int \<Rightarrow> int" where
  "sat_int64 v = max (- (2 ^ 63)) (min (2 ^ 63 - 1) v)"

definition clamp_offset :: "int \<Rightarrow> i32" where
  "clamp_offset v = sat_i32 v"

definition check_sane_addend :: "u32 \<Rightarrow> string \<Rightarrow> scalar_bounds \<Rightarrow> (exec_error, unit) res" where
  "check_sane_addend pc kind b =
     (let v = sint (smin b); out = (BPF_MAX_VAR_OFF \<le> v \<or> v \<le> - BPF_MAX_VAR_OFF) in
      if scalar_is_constant b then
        (if out then fail pc (Arithmetic (Addend_Not_Allowed kind (smin b))) else Ok ())
      else if smin b = i64_MIN then fail pc (Arithmetic (Addend_Unbounded kind))
      else if out then fail pc (Arithmetic (Addend_Out kind (smin b)))
      else Ok ())"

definition check_sane_result_offset :: "u32 \<Rightarrow> string \<Rightarrow> int \<Rightarrow> (exec_error, unit) res" where
  "check_sane_result_offset pc kind v =
     (if BPF_MAX_VAR_OFF \<le> v \<or> v \<le> - BPF_MAX_VAR_OFF then fail pc (Arithmetic (Offset_Not_Allowed kind v))
      else Ok ())"

text \<open>The alignment of a pointer after the addition of an immediate, and of a scalar range.\<close>

definition align_imm :: "u8 \<Rightarrow> i32 \<Rightarrow> u8" where
  "align_imm al imm = word_of_int ((uint al + sint imm mod 8) mod 8)"

definition align_scalar :: "u8 \<Rightarrow> scalar_bounds \<Rightarrow> u8" where
  "align_scalar al b =
     (if tmask (stnum b) AND 7 = 0 then word_of_int ((uint al + uint (tvalue (stnum b) AND 7)) mod 8)
      else ALIGN_UNKNOWN)"

text \<open>The part \<open>add_scalar_to_stack_ptr\<close> and \<open>add_scalar_to_map_value_ptr\<close> share: the new offset range.\<close>

definition shifted_range :: "u32 \<Rightarrow> string \<Rightarrow> i32 \<Rightarrow> i32 \<Rightarrow> scalar_bounds \<Rightarrow> (exec_error, i32 \<times> i32) res" where
  "shifted_range pc kind mn mx b =
     rbind (check_sane_addend pc kind b) (\<lambda>_.
     let new_min = sat_int64 (sint mn + sint (smin b)); new_max = sat_int64 (sint mx + sint (smax b)) in
     rbind (check_sane_result_offset pc kind new_min) (\<lambda>_.
     Ok (clamp_offset new_min, clamp_offset new_max)))"

definition add_scalar_to_stack_ptr ::
  "u32 \<Rightarrow> u8 \<Rightarrow> i32 \<Rightarrow> i32 \<Rightarrow> u8 \<Rightarrow> u8 \<Rightarrow> scalar_bounds \<Rightarrow> verifier_state \<Rightarrow> (exec_error, verifier_state) res" where
  "add_scalar_to_stack_ptr pc dst mn mx al f b s =
     rbind (shifted_range pc ''stack'' mn mx b) (\<lambda>(mn', mx').
       Ok (set_reg s dst (PtrToStack mn' mx' (align_scalar al b) f)))"

definition map_value_id :: "reg_state \<Rightarrow> u32" where
  "map_value_id r = (case r of PtrToMapValue mn mx al vs i \<Rightarrow> i | _ \<Rightarrow> 0)"

definition add_scalar_to_map_value_ptr ::
  "u32 \<Rightarrow> u8 \<Rightarrow> reg_state \<Rightarrow> scalar_bounds \<Rightarrow> verifier_state \<Rightarrow> (exec_error, verifier_state) res" where
  "add_scalar_to_map_value_ptr pc dst ptr b s =
     (case ptr of
        PtrToMapValue mn mx al vs i \<Rightarrow>
          rbind (shifted_range pc ''map_value'' mn mx b) (\<lambda>(mn', mx').
            Ok (set_reg s dst (PtrToMapValue mn' mx' (align_scalar al b) vs (map_value_id (regs s ! unat dst)))))
      | _ \<Rightarrow> Err Exec_Panic)"

section \<open>ALU instructions\<close>

fun hmul_const :: "u64 \<Rightarrow> u64 \<Rightarrow> mul_high \<Rightarrow> u64" where
  "hmul_const a b Mul_Low = a * b"
| "hmul_const a b UnsignedHigh = word_of_int (uint a * uint b div 2 ^ 64)"
| "hmul_const a b SignedHigh = word_of_int (sint a * sint b div 2 ^ 64)"

definition shift_amount_ok :: "alu_width \<Rightarrow> i32 \<Rightarrow> bool" where
  "shift_amount_ok w imm \<longleftrightarrow> 0 \<le> sint imm \<and> sint imm < (case w of W64 \<Rightarrow> 64 | W32 \<Rightarrow> 32)"

definition alu_imm ::
  "u32 \<Rightarrow> verifier_state \<Rightarrow> u8 \<Rightarrow> i32 \<Rightarrow> alu_op \<Rightarrow> alu_width \<Rightarrow> (exec_error, verifier_state) res" where
  "alu_imm pc s dst imm op w =
     rbind (of_reg (check_reg pc dst)) (\<lambda>_.
     if is_shift op \<and> \<not> shift_amount_ok w imm then fail pc (Arithmetic (Shift_Amount imm))
     else rbind (of_reg (read_reg pc s dst)) (\<lambda>d.
       let const = scalar_constant (scast imm) in
       case d of
         Scalar b \<Rightarrow> Ok (set_reg s dst (Scalar (apply_alu op w b const)))
       | PtrToStack mn mx al f \<Rightarrow>
           (if op \<noteq> Alu_Add \<or> w \<noteq> W64 then fail pc (Arithmetic (Arith_Stack dst))
            else rbind (check_sane_addend pc ''stack'' const) (\<lambda>_.
              rbind (check_sane_result_offset pc ''stack'' (sint mn + sint imm)) (\<lambda>_.
                Ok (set_reg s dst
                  (PtrToStack (sat_i32 (sint mn + sint imm)) (sat_i32 (sint mx + sint imm)) (align_imm al imm) f)))))
       | PtrToCtx off \<Rightarrow>
           (if op \<noteq> Alu_Add \<and> op \<noteq> Alu_Sub \<or> w \<noteq> W64 then fail pc (Arithmetic (Arith_Ctx dst))
            else rbind (check_sane_addend pc ''ctx'' const) (\<lambda>_.
              Ok (set_reg s dst (PtrToCtx (sat_i32 (sint off + sint (if op = Alu_Add then imm else - imm)))))))
       | PtrToMap ks vs mt \<Rightarrow> fail pc (Arithmetic (Arith_Map dst))
       | PtrToMapValue mn mx al vs i \<Rightarrow>
           (if op \<noteq> Alu_Add \<or> w \<noteq> W64 then fail pc (Arithmetic (Arith_Map_Value dst))
            else rbind (check_sane_addend pc ''map_value'' const) (\<lambda>_.
              rbind (check_sane_result_offset pc ''map_value'' (sint mn + sint imm)) (\<lambda>_.
                Ok (set_reg s dst
                  (PtrToMapValue (sat_i32 (sint mn + sint imm)) (sat_i32 (sint mx + sint imm)) (align_imm al imm)
                    vs i)))))
       | PtrToMapValueOrNull vs i \<Rightarrow> fail pc (Arithmetic (Arith_Nullable dst))
       | PtrToMem mn mx al i p \<Rightarrow> fail pc (Arithmetic (Arith_Ref_Mem dst))
       | PtrToMemOrNull i p sz \<Rightarrow> fail pc (Arithmetic (Arith_Ref_Mem dst))
       | PtrToBtfId b r \<Rightarrow> fail pc (Arithmetic (Arith_Btf dst))
       | Uninit \<Rightarrow> Err Exec_Panic))"

text \<open>A pointer to the context plus or minus a register: only a known constant in the sane range.\<close>

definition ctx_plus ::
  "u32 \<Rightarrow> u8 \<Rightarrow> i32 \<Rightarrow> bool \<Rightarrow> scalar_bounds \<Rightarrow> verifier_state \<Rightarrow> (exec_error, verifier_state) res" where
  "ctx_plus pc dst off add b s =
     rbind (check_sane_addend pc ''ctx'' b) (\<lambda>_.
       if \<not> scalar_is_constant b then fail pc (Arithmetic Ctx_Variable)
       else let v = (ucast (smin b) :: i32) in
         Ok (set_reg s dst (PtrToCtx (sat_i32 (sint off + sint (if add then v else - v))))))"

definition alu_scalars ::
  "u32 \<Rightarrow> verifier_state \<Rightarrow> u8 \<Rightarrow> u8 \<Rightarrow> alu_op \<Rightarrow> alu_width \<Rightarrow> scalar_bounds \<Rightarrow> (exec_error, verifier_state) res" where
  "alu_scalars pc s dst src op w d =
     rbind (of_reg (read_scalar pc s src)) (\<lambda>b. Ok (set_reg s dst (Scalar (apply_alu op w d b))))"

definition alu_reg ::
  "u32 \<Rightarrow> verifier_state \<Rightarrow> u8 \<Rightarrow> u8 \<Rightarrow> alu_op \<Rightarrow> alu_width \<Rightarrow> (exec_error, verifier_state) res" where
  "alu_reg pc s dst src op w =
     rbind (of_reg (check_reg pc dst)) (\<lambda>_.
     rbind (of_reg (read_reg pc s dst)) (\<lambda>ds.
     case ds of
       PtrToStack mn mx al f \<Rightarrow>
         (if op \<noteq> Alu_Add \<or> w \<noteq> W64 then fail pc (Arithmetic (Arith_Stack dst))
          else rbind (of_reg (read_scalar pc s src)) (\<lambda>b. add_scalar_to_stack_ptr pc dst mn mx al f b s))
     | PtrToCtx off \<Rightarrow>
         (if op \<noteq> Alu_Add \<and> op \<noteq> Alu_Sub \<or> w \<noteq> W64 then fail pc (Arithmetic (Arith_Ctx dst))
          else rbind (of_reg (read_scalar pc s src)) (\<lambda>b. ctx_plus pc dst off (op = Alu_Add) b s))
     | PtrToMapValue mn mx al vs i \<Rightarrow>
         (if op \<noteq> Alu_Add \<or> w \<noteq> W64 then fail pc (Arithmetic (Arith_Map_Value dst))
          else rbind (of_reg (read_scalar pc s src)) (\<lambda>b. add_scalar_to_map_value_ptr pc dst ds b s))
     | Scalar d \<Rightarrow>
         (if op = Alu_Add \<and> w = W64 then
            rbind (of_reg (read_reg pc s src)) (\<lambda>ss.
            case ss of
              PtrToStack mn mx al f \<Rightarrow>
                rbind (check_sane_addend pc ''stack'' d) (\<lambda>_. add_scalar_to_stack_ptr pc dst mn mx al f d s)
            | PtrToMapValue mn mx al vs i \<Rightarrow> add_scalar_to_map_value_ptr pc dst ss d s
            | PtrToCtx off \<Rightarrow> ctx_plus pc dst off True d s
            | _ \<Rightarrow> alu_scalars pc s dst src op w d)
          else alu_scalars pc s dst src op w d)
     | _ \<Rightarrow> fail pc (Arithmetic (Reg_Offset dst))))"

definition mul_imm ::
  "u32 \<Rightarrow> verifier_state \<Rightarrow> u8 \<Rightarrow> i32 \<Rightarrow> mul_high \<Rightarrow> (exec_error, verifier_state) res" where
  "mul_imm pc s dst imm high =
     (if high = Mul_Low then alu_imm pc s dst imm Alu_Mul W64
      else
        rbind (of_reg (check_reg pc dst)) (\<lambda>_.
        rbind (of_reg (read_reg pc s dst)) (\<lambda>ds.
        case ds of
          Scalar d \<Rightarrow>
            Ok (set_reg s dst (Scalar
              (if scalar_is_constant d then scalar_constant (hmul_const (smin d) (scast imm) high)
               else scalar_unknown)))
        | _ \<Rightarrow> fail pc (Arithmetic (Arith_Pointer dst)))))"

definition mul_reg ::
  "u32 \<Rightarrow> verifier_state \<Rightarrow> u8 \<Rightarrow> u8 \<Rightarrow> mul_high \<Rightarrow> (exec_error, verifier_state) res" where
  "mul_reg pc s dst src high =
     (if high = Mul_Low then alu_reg pc s dst src Alu_Mul W64
      else
        rbind (of_reg (check_reg pc dst)) (\<lambda>_.
        rbind (of_reg (read_reg pc s dst)) (\<lambda>ds.
        rbind (of_reg (read_reg pc s src)) (\<lambda>ss.
        case (ds, ss) of
          (Scalar d, Scalar b) \<Rightarrow>
            Ok (set_reg s dst (Scalar
              (if scalar_is_constant d \<and> scalar_is_constant b
               then scalar_constant (hmul_const (smin d) (smin b) high)
               else scalar_unknown)))
        | _ \<Rightarrow> fail pc (Arithmetic (Arith_Pointer dst))))))"

definition alu_neg :: "u32 \<Rightarrow> verifier_state \<Rightarrow> u8 \<Rightarrow> alu_width \<Rightarrow> (exec_error, verifier_state) res" where
  "alu_neg pc s dst w =
     rbind (of_reg (check_reg pc dst)) (\<lambda>_.
     rbind (of_reg (read_reg pc s dst)) (\<lambda>ds.
     case ds of
       Scalar d \<Rightarrow>
         Ok (set_reg s dst (Scalar
           (if scalar_is_constant d
            then scalar_constant (case w of W64 \<Rightarrow> alu_const64 Alu_Neg (smin d) 0
                                          | W32 \<Rightarrow> alu_const32 Alu_Neg (smin d) 0)
            else scalar_unknown)))
     | _ \<Rightarrow> fail pc (Arithmetic (Arith_Pointer dst))))"

fun bin_alu :: "bin_op \<Rightarrow> alu_op" where
  "bin_alu Bin_Add = Alu_Add"
| "bin_alu Bin_Sub = Alu_Sub"
| "bin_alu Bin_And = Alu_And"
| "bin_alu Bin_Or = Alu_Or"
| "bin_alu Bin_Xor = Alu_Xor"
| "bin_alu Bin_Lsh = Alu_Lsh"
| "bin_alu Bin_Rsh = Alu_Rsh"
| "bin_alu Bin_Arsh = Alu_Arsh"
| "bin_alu Bin_Div = Alu_Div"
| "bin_alu Bin_Mod = Alu_Mod"

section \<open>Moves, atomics and loads\<close>

definition mov32_bounds :: "scalar_bounds \<Rightarrow> scalar_bounds" where
  "mov32_bounds b =
     (if scalar_is_constant b then scalar_from_signed 0 (umax b AND 0xFFFFFFFF)
      else scalar_from_signed 0 0xFFFFFFFF)"

text \<open>A copy gives both registers a common link identifier, derived from the instruction index.\<close>

definition mov_reg :: "u32 \<Rightarrow> verifier_state \<Rightarrow> u8 \<Rightarrow> u8 \<Rightarrow> (exec_error, verifier_state) res" where
  "mov_reg pc s dst src =
     rbind (of_reg (check_reg pc dst)) (\<lambda>_.
     rbind (of_reg (read_reg pc s src)) (\<lambda>v.
     Ok (case v of
           Scalar b \<Rightarrow>
             (if sid b = 0 \<and> \<not> scalar_is_constant b
              then let linked = Scalar (b\<lparr>sid := pc + 1\<rparr>) in set_reg (set_reg s src linked) dst linked
              else set_reg s dst v)
         | _ \<Rightarrow> set_reg s dst v)))"

definition packet_load :: "mem_size \<Rightarrow> verifier_state \<Rightarrow> verifier_state" where
  "packet_load sz s = set_reg (clobber_scratch s) 0 (Scalar (scalar_for_width (of_nat (mem_bytes sz)) False))"

definition store_old :: "atomic_op \<Rightarrow> bool \<Rightarrow> u8 \<Rightarrow> reg_state \<Rightarrow> verifier_state \<Rightarrow> verifier_state" where
  "store_old op fetch src old s =
     (if op = Atomic_Cmpxchg then set_reg s 0 old
      else if fetch then set_reg s src old
      else s)"

definition forget_bytes :: "nat \<Rightarrow> nat \<Rightarrow> stack_state \<Rightarrow> stack_state" where
  "forget_bytes lo hi st =
     st\<lparr>sbytes := fill_bytes [lo..<Suc hi] SB_Misc (sbytes st),
        spilled := fold (\<lambda>slot sp. sp[slot := None]) [lo div 8..<Suc (hi div 8)] (spilled st)\<rparr>"

definition atomic_stack ::
  "u32 \<Rightarrow> u8 \<Rightarrow> verifier_state \<Rightarrow> i16 \<Rightarrow> mem_size \<Rightarrow> i32 \<Rightarrow> i32 \<Rightarrow> u8 \<Rightarrow> u8 \<Rightarrow>
   (exec_error, reg_state \<times> verifier_state) res" where
  "atomic_stack pc dst s off sz mn mx al f =
     (let bytes = int (mem_bytes sz); lo = sint mn + sint off; hi = sint mx + sint off + bytes in
      if (uint al + sint off) mod bytes \<noteq> 0 \<or> lo mod bytes \<noteq> 0 then fail pc (Atomic_Misaligned dst off bytes)
      else if lo < - 512 \<or> 0 < hi then fail pc (Atomic_Range dst off)
      else rbind (stack_read pc dst s off sz False) (\<lambda>v.
        let old = (if mem_bytes sz = 8 then v else Scalar (scalar_for_width (of_nat (mem_bytes sz)) False)) in
        if f \<noteq> curframe s then fail pc Atomic_Caller_Frame
        else let (first, last) = stack_byte_range lo hi in
          Ok (old, s\<lparr>stack := forget_bytes first last (stack s)\<rparr>)))"

definition atomic_step ::
  "u32 \<Rightarrow> verifier_state \<Rightarrow> u8 \<Rightarrow> u8 \<Rightarrow> i16 \<Rightarrow> mem_size \<Rightarrow> atomic_op \<Rightarrow> bool \<Rightarrow>
   (exec_error, verifier_state) res" where
  "atomic_step pc s dst src off sz op fetch =
     rbind (of_reg (read_reg pc s dst)) (\<lambda>base.
     rbind (of_reg (read_scalar pc s src)) (\<lambda>_.
     rbind (if op = Atomic_Cmpxchg then rbind (of_reg (read_scalar pc s 0)) (\<lambda>_. Ok ()) else Ok ()) (\<lambda>_.
     if sint off mod int (mem_bytes sz) \<noteq> 0 then fail pc (Atomic_Misaligned dst off (int (mem_bytes sz)))
     else (case base of
         PtrToStack mn mx al f \<Rightarrow>
           rbind (atomic_stack pc dst s off sz mn mx al f) (\<lambda>(old, next). Ok (store_old op fetch src old next))
       | PtrToMapValue mn mx al vs i \<Rightarrow>
           rbind (map_value_access_check pc dst base off) (\<lambda>_.
             Ok (store_old op fetch src (Scalar (scalar_for_width (of_nat (mem_bytes sz)) False)) s))
       | _ \<Rightarrow> fail pc (Atomic_Base dst base)))))"

text \<open>The base register of a load is looked up before it is checked.\<close>

definition load_step ::
  "u32 \<Rightarrow> verifier_state \<Rightarrow> u8 \<Rightarrow> u8 \<Rightarrow> i16 \<Rightarrow> mem_size \<Rightarrow> bool \<Rightarrow> (exec_error, verifier_state) res" where
  "load_step pc s dst base off sz sign_extend =
     rbind (of_reg (check_reg pc dst)) (\<lambda>_.
     if NUM_REGS \<le> unat base then Err Exec_Panic
     else rbind (case regs s ! unat base of
              PtrToCtx base_off \<Rightarrow> ctx_read pc (vprog_type s) (sat_i32 (sint base_off + sint off)) sz sign_extend
            | _ \<Rightarrow> stack_read pc base s off sz sign_extend)
         (\<lambda>loaded. Ok (set_reg s dst loaded)))"

section \<open>The step function\<close>

definition step :: "u32 \<Rightarrow> verifier_state \<Rightarrow> bpf_insn \<Rightarrow> (exec_error, verifier_state) res" where
  "step pc s insn =
     (case insn of
        MovImm dst imm \<Rightarrow>
          rbind (of_reg (check_reg pc dst)) (\<lambda>_. Ok (set_reg s dst (Scalar (scalar_constant (scast imm)))))
      | Mov32Imm dst imm \<Rightarrow>
          rbind (of_reg (check_reg pc dst)) (\<lambda>_. Ok (set_reg s dst (Scalar (scalar_from_signed 0 (ucast imm)))))
      | Mov32Reg dst src \<Rightarrow>
          rbind (of_reg (check_reg pc dst)) (\<lambda>_.
          rbind (of_reg (read_scalar pc s src)) (\<lambda>b. Ok (set_reg s dst (Scalar (mov32_bounds b)))))
      | LdAbs sz imm \<Rightarrow> rbind (check_legacy_packet_load pc s) (\<lambda>_. Ok (packet_load sz s))
      | LdInd src sz imm \<Rightarrow>
          rbind (check_legacy_packet_load pc s) (\<lambda>_.
          rbind (of_reg (read_scalar pc s src)) (\<lambda>_. Ok (packet_load sz s)))
      | Atomic dst src off sz op fetch \<Rightarrow> atomic_step pc s dst src off sz op fetch
      | MovReg dst src \<Rightarrow> mov_reg pc s dst src
      | CallSub off \<Rightarrow>
          (case call_subprog (pc + 1) s of Ok s' \<Rightarrow> Ok s' | Err m \<Rightarrow> fail pc (Calling (Call_Depth m)))
      | CallKfunc btf \<Rightarrow> kfunc_call pc btf s
      | LdImm64 dst imm \<Rightarrow>
          rbind (of_reg (check_reg pc dst)) (\<lambda>_. Ok (set_reg s dst (Scalar (scalar_constant imm))))
      | LdMapFd dst fd ks vs mt \<Rightarrow>
          rbind (of_reg (check_reg pc dst)) (\<lambda>_. Ok (set_reg s dst (PtrToMap ks vs mt)))
      | LdMapValue dst fd off ks vs \<Rightarrow>
          rbind (of_reg (check_reg pc dst)) (\<lambda>_.
            Ok (set_reg s dst (PtrToMapValue off off (ucast (off mod 8)) vs 0)))
      | LdImm64Second imm \<Rightarrow> Ok s
      | AluImm op w dst imm \<Rightarrow> alu_imm pc s dst imm (bin_alu op) w
      | AluReg op w dst src \<Rightarrow> alu_reg pc s dst src (bin_alu op) w
      | MulImm dst imm high \<Rightarrow> mul_imm pc s dst imm high
      | MulReg dst src high \<Rightarrow> mul_reg pc s dst src high
      | Mul32Imm dst imm \<Rightarrow> alu_imm pc s dst imm Alu_Mul W32
      | Mul32Reg dst src \<Rightarrow> alu_reg pc s dst src Alu_Mul W32
      | NegInsn w dst \<Rightarrow> alu_neg pc s dst w
      | StMem src base off sz \<Rightarrow> stack_write pc base s off sz (Some src) None
      | StMemImm imm base off sz \<Rightarrow> stack_write pc base s off sz None (Some imm)
      | LdMem dst base off sz sign_extend \<Rightarrow> load_step pc s dst base off sz sign_extend
      | Call imm \<Rightarrow> helper_call pc s imm
      | Jset dst src off \<Rightarrow> fail pc Branch_In_Step
      | JsetImm dst imm off \<Rightarrow> fail pc Branch_In_Step
      | Jmp32 dst src imm off op \<Rightarrow> fail pc Branch_In_Step
      | Exit \<Rightarrow> Err Exec_Panic
      | Jmp off \<Rightarrow> Err Exec_Panic
      | CondReg op dst src off \<Rightarrow> Err Exec_Panic
      | CondImm op dst imm off \<Rightarrow> Err Exec_Panic)"

end
