(* ===== verification/Branch_Exec.thy ===== *)
theory Branch_Exec
  imports Exec
begin

text \<open>
  The expansion of an instruction into its successor states, \<open>successors\<close> of \<open>src/src/exec.rs\<close> (here
  \<open>exec_successors\<close>): conditional branches with the refinement of their operands and of every scalar
  linked to them, null checks of map values and of acquired buffers, and the comparisons of pointers.
\<close>

section \<open>Linked scalars\<close>

definition bounds_equal :: "scalar_bounds \<Rightarrow> scalar_bounds \<Rightarrow> bool" where
  "bounds_equal a b \<longleftrightarrow>
     smin a = smin b \<and> smax a = smax b \<and> umin a = umin b \<and> umax a = umax b \<and> stnum a = stnum b"

text \<open>The bounds of a scalar linked to a refined one, moved by the difference of their deltas.\<close>

definition link_shift :: "i32 \<Rightarrow> i32 \<Rightarrow> i64" where
  "link_shift d known_delta = scast d - scast known_delta"

definition linked_bounds :: "i32 \<Rightarrow> scalar_bounds \<Rightarrow> scalar_bounds \<Rightarrow> scalar_bounds" where
  "linked_bounds known_delta known b =
     (let shift = link_shift (delta b) known_delta;
          shifted = (if shift = 0 then known else apply_alu Alu_Add W64 known (scalar_constant shift))
      in shifted\<lparr>sid := sid b, delta := delta b\<rparr>)"

definition sync_reg :: "u32 \<Rightarrow> i32 \<Rightarrow> scalar_bounds \<Rightarrow> reg_state \<Rightarrow> reg_state" where
  "sync_reg link known_delta known r =
     (case r of
        Scalar b \<Rightarrow> if sid b \<noteq> link \<or> bounds_equal b known then r else Scalar (linked_bounds known_delta known b)
      | _ \<Rightarrow> r)"

definition sync_spill :: "u32 \<Rightarrow> i32 \<Rightarrow> scalar_bounds \<Rightarrow> reg_state \<Rightarrow> reg_state" where
  "sync_spill link known_delta known r =
     (case r of
        Scalar b \<Rightarrow> if sid b \<noteq> link then r else Scalar (linked_bounds known_delta known b)
      | _ \<Rightarrow> r)"

definition sync_linked_scalars :: "u32 \<Rightarrow> i32 \<Rightarrow> scalar_bounds \<Rightarrow> verifier_state \<Rightarrow> verifier_state" where
  "sync_linked_scalars link known_delta known s =
     (if link = 0 then s
      else s\<lparr>regs := map (sync_reg link known_delta known) (regs s),
             stack := map_spilled (sync_spill link known_delta known) (stack s)\<rparr>)"

section \<open>Conditional branches\<close>

type_synonym successors = "(u32 \<times> verifier_state) list"

text \<open>The state of one side of a compare of two scalars.\<close>

definition refined_side ::
  "verifier_state \<Rightarrow> u8 \<Rightarrow> u8 option \<Rightarrow> scalar_bounds \<Rightarrow> scalar_bounds \<Rightarrow> refined_pair \<Rightarrow> verifier_state" where
  "refined_side s dst src d b new =
     (let s1 = set_reg s dst (Scalar (fst new));
          s2 = (case src of Some r \<Rightarrow> set_reg s1 r (Scalar (snd new)) | None \<Rightarrow> s1);
          s3 = sync_linked_scalars (sid d) (delta d) (fst new) s2
      in case src of Some r \<Rightarrow> sync_linked_scalars (sid b) (delta b) (snd new) s3 | None \<Rightarrow> s3)"

definition cond_scalars ::
  "u32 \<Rightarrow> u8 \<Rightarrow> u8 option \<Rightarrow> scalar_bounds \<Rightarrow> scalar_bounds \<Rightarrow> i16 \<Rightarrow> cond_op \<Rightarrow> verifier_state \<Rightarrow> successors" where
  "cond_scalars pc dst src d b off op s =
     (let verdict = is_branch_taken op d b; (taken, fall) = refine_cmp op d b in
      (if verdict \<noteq> AlwaysNotTaken then [(branch_target pc off, refined_side s dst src d b taken)] else []) @
      (if verdict \<noteq> AlwaysTaken then [(pc + 1, refined_side s dst src d b fall)] else []))"

text \<open>Null checks: what becomes of the registers and spills with the identifier of the checked pointer.\<close>

definition null_map_value :: "u32 \<Rightarrow> reg_state \<Rightarrow> reg_state" where
  "null_map_value i r =
     (case r of PtrToMapValueOrNull vs j \<Rightarrow> if j = i then Scalar (scalar_constant 0) else r | _ \<Rightarrow> r)"

definition valid_map_value :: "u32 \<Rightarrow> reg_state \<Rightarrow> reg_state" where
  "valid_map_value i r =
     (case r of PtrToMapValueOrNull vs j \<Rightarrow> if j = i then PtrToMapValue 0 0 0 vs j else r | _ \<Rightarrow> r)"

definition null_mem :: "u32 \<Rightarrow> reg_state \<Rightarrow> reg_state" where
  "null_mem i r =
     (case r of
        PtrToMem mn mx al j p \<Rightarrow> if j = i then Scalar (scalar_constant 0) else r
      | PtrToMemOrNull j p sz \<Rightarrow> if p = 0 \<and> j = i then Scalar (scalar_constant 0) else r
      | _ \<Rightarrow> r)"

definition valid_mem :: "u32 \<Rightarrow> reg_state \<Rightarrow> reg_state" where
  "valid_mem i r =
     (case r of
        PtrToMemOrNull j p sz \<Rightarrow> if j = i then PtrToMem 0 (if sz < 8 then 0 else sz - 8) 0 i p else r
      | _ \<Rightarrow> r)"

definition forget_ref :: "u32 \<Rightarrow> verifier_state \<Rightarrow> verifier_state" where
  "forget_ref i s = (case drop_ref i s of None \<Rightarrow> s | Some s' \<Rightarrow> s')"

text \<open>
  The two sides of a null check in the order of the sources, the null side first; an equality sends
  the null side to the branch target.
\<close>

definition null_sides ::
  "u32 \<Rightarrow> i16 \<Rightarrow> cond_op \<Rightarrow> verifier_state \<Rightarrow> verifier_state \<Rightarrow> successors" where
  "null_sides pc off op null_state valid =
     (if op = Cond_Eq then [(branch_target pc off, null_state), (pc + 1, valid)]
      else [(pc + 1, null_state), (branch_target pc off, valid)])"

definition is_eq_op :: "cond_op \<Rightarrow> bool" where
  "is_eq_op op \<longleftrightarrow> op = Cond_Eq \<or> op = Cond_Ne"

definition null_check_value ::
  "u32 \<Rightarrow> u8 \<Rightarrow> u8 \<Rightarrow> u8 option \<Rightarrow> u32 \<Rightarrow> u32 \<Rightarrow> i16 \<Rightarrow> cond_op \<Rightarrow> verifier_state \<Rightarrow>
   (exec_error, successors) res" where
  "null_check_value pc dst ptr src vs i off op s =
     (if is_eq_op op then
        Ok (null_sides pc off op
             (set_reg (map_frame (null_map_value i) s) ptr (Scalar (scalar_constant 0)))
             (set_reg (map_frame (valid_map_value i) s) ptr (PtrToMapValue 0 0 0 vs i)))
      else fail pc (Compare_Types dst src))"

definition null_check_mem ::
  "u32 \<Rightarrow> u8 \<Rightarrow> u8 \<Rightarrow> u8 option \<Rightarrow> u32 \<Rightarrow> i16 \<Rightarrow> cond_op \<Rightarrow> verifier_state \<Rightarrow> (exec_error, successors) res" where
  "null_check_mem pc dst ptr src i off op s =
     (if is_eq_op op then
        Ok (null_sides pc off op
             (set_reg (map_frame (null_mem i) (forget_ref i s)) ptr (Scalar (scalar_constant 0)))
             (set_reg (map_frame (valid_mem i) s) ptr (PtrToMem 0 0 0 i 0)))
      else fail pc (Compare_Types dst src))"

definition both_sides :: "u32 \<Rightarrow> i16 \<Rightarrow> verifier_state \<Rightarrow> successors" where
  "both_sides pc off s = [(branch_target pc off, s), (pc + 1, s)]"

definition comparable_pointer :: "reg_state \<Rightarrow> bool" where
  "comparable_pointer r =
     (case r of
        PtrToStack a b c d \<Rightarrow> True
      | PtrToCtx a \<Rightarrow> True
      | PtrToMap a b c \<Rightarrow> True
      | PtrToMapValue a b c d e \<Rightarrow> True
      | PtrToMapValueOrNull a b \<Rightarrow> True
      | PtrToMem a b c d e \<Rightarrow> True
      | _ \<Rightarrow> False)"

definition same_pointer_kind :: "reg_state \<Rightarrow> reg_state \<Rightarrow> bool" where
  "same_pointer_kind x y =
     (case x of
        PtrToStack a b c d \<Rightarrow> (case y of PtrToStack a b c d \<Rightarrow> True | _ \<Rightarrow> False)
      | PtrToCtx a \<Rightarrow> (case y of PtrToCtx a \<Rightarrow> True | _ \<Rightarrow> False)
      | PtrToMap a b c \<Rightarrow> (case y of PtrToMap a b c \<Rightarrow> True | _ \<Rightarrow> False)
      | PtrToMapValue a b c d e \<Rightarrow> (case y of PtrToMapValue a b c d e \<Rightarrow> True | _ \<Rightarrow> False)
      | PtrToMapValueOrNull a b \<Rightarrow> (case y of PtrToMapValueOrNull a b \<Rightarrow> True | _ \<Rightarrow> False)
      | _ \<Rightarrow> False)"

text \<open>
  A pointer (in register \<open>ptr\<close>, missing for an immediate) against a scalar, whichever side it is on.
\<close>

definition pointer_vs_scalar ::
  "u32 \<Rightarrow> u8 \<Rightarrow> u8 option \<Rightarrow> u8 option \<Rightarrow> reg_state \<Rightarrow> scalar_bounds \<Rightarrow> i16 \<Rightarrow> cond_op \<Rightarrow> verifier_state \<Rightarrow>
   (exec_error, successors) res" where
  "pointer_vs_scalar pc dst src ptr v b off op s =
     (case v of
        PtrToMapValueOrNull vs i \<Rightarrow>
          (if scalar_is_zero b then
             (case ptr of
                Some p \<Rightarrow> null_check_value pc dst p src vs i off op s
              | None \<Rightarrow> if is_eq_op op then Err Exec_Panic else fail pc (Compare_Types dst src))
           else Ok (both_sides pc off s))
      | PtrToMemOrNull i p sz \<Rightarrow>
          (if scalar_is_zero b then
             (case ptr of
                Some p \<Rightarrow> null_check_mem pc dst p src i off op s
              | None \<Rightarrow> if is_eq_op op then Err Exec_Panic else fail pc (Compare_Types dst src))
           else fail pc (Compare_Types dst src))
      | PtrToMapValue mn mx al vs i \<Rightarrow>
          (if scalar_is_zero b \<and> \<not> is_eq_op op then fail pc (Compare_Types dst src)
           else Ok (both_sides pc off s))
      | Uninit \<Rightarrow> Err Exec_Panic
      | _ \<Rightarrow> if comparable_pointer v then Ok (both_sides pc off s) else fail pc (Compare_Types dst src))"

definition cond_branch_impl ::
  "u32 \<Rightarrow> u8 \<Rightarrow> u8 option \<Rightarrow> reg_state \<Rightarrow> i16 \<Rightarrow> cond_op \<Rightarrow> verifier_state \<Rightarrow> (exec_error, successors) res" where
  "cond_branch_impl pc dst src src_state off op s =
     rbind (of_reg (read_reg pc s dst)) (\<lambda>dst_state.
     case (dst_state, src_state) of
       (Scalar d, Scalar b) \<Rightarrow> Ok (cond_scalars pc dst src d b off op s)
     | (Scalar d, v) \<Rightarrow> pointer_vs_scalar pc dst src src v d off op s
     | (v, Scalar b) \<Rightarrow> pointer_vs_scalar pc dst src (Some dst) v b off op s
     | (v, w) \<Rightarrow>
         (if v = Uninit \<or> w = Uninit then Err Exec_Panic
          else if same_pointer_kind v w then
            (if is_eq_op op then Ok (both_sides pc off s) else fail pc (Compare_Pointers dst (cond_symbol op) src))
          else fail pc (Compare_Types dst src)))"

definition reflexive_op :: "cond_op \<Rightarrow> bool" where
  "reflexive_op op \<longleftrightarrow> op \<in> {Cond_Eq, Cond_Ule, Cond_Uge, Cond_Sle, Cond_Sge}"

definition cond_branch ::
  "u32 \<Rightarrow> u8 \<Rightarrow> u8 \<Rightarrow> i16 \<Rightarrow> cond_op \<Rightarrow> verifier_state \<Rightarrow> (exec_error, successors) res" where
  "cond_branch pc dst src off op s =
     rbind (if src = dst
            then rbind (of_reg (read_reg pc s dst)) (\<lambda>v. Ok (case v of Scalar b \<Rightarrow> True | _ \<Rightarrow> False))
            else Ok False) (\<lambda>same_scalar.
     if same_scalar then Ok [(if reflexive_op op then branch_target pc off else pc + 1, s)]
     else rbind (of_reg (read_reg pc s src)) (\<lambda>v. cond_branch_impl pc dst (Some src) v off op s))"

definition cond_branch_imm ::
  "u32 \<Rightarrow> u8 \<Rightarrow> i32 \<Rightarrow> i16 \<Rightarrow> cond_op \<Rightarrow> verifier_state \<Rightarrow> (exec_error, successors) res" where
  "cond_branch_imm pc dst imm off op s =
     cond_branch_impl pc dst None (Scalar (scalar_constant (scast imm))) off op s"

definition branch_or_both :: "u32 \<Rightarrow> i16 \<Rightarrow> bool option \<Rightarrow> verifier_state \<Rightarrow> successors" where
  "branch_or_both pc off taken s =
     (case taken of
        Some True \<Rightarrow> [(branch_target pc off, s)]
      | Some False \<Rightarrow> [(pc + 1, s)]
      | None \<Rightarrow> both_sides pc off s)"

definition jset_not_taken :: "u8 \<Rightarrow> i32 \<Rightarrow> verifier_state \<Rightarrow> verifier_state" where
  "jset_not_taken dst imm s =
     (case regs s ! unat dst of Scalar b \<Rightarrow> set_reg s dst (Scalar (jset_cleared b imm)) | _ \<Rightarrow> s)"

definition jset_imm_branch :: "u32 \<Rightarrow> u8 \<Rightarrow> i32 \<Rightarrow> i16 \<Rightarrow> verifier_state \<Rightarrow> (exec_error, successors) res" where
  "jset_imm_branch pc dst imm off s =
     rbind (of_reg (read_scalar pc s dst)) (\<lambda>d.
       case jset_verdict d (scalar_constant (scast imm)) of
         Some v \<Rightarrow> Ok (branch_or_both pc off (Some v) s)
       | None \<Rightarrow> Ok [(branch_target pc off, s), (pc + 1, jset_not_taken dst imm s)])"

definition jmp32_branch ::
  "u32 \<Rightarrow> u8 \<Rightarrow> u8 option \<Rightarrow> i32 option \<Rightarrow> i16 \<Rightarrow> jmp32_op \<Rightarrow> verifier_state \<Rightarrow> (exec_error, successors) res" where
  "jmp32_branch pc dst src imm off op s =
     rbind (of_reg (read_scalar pc s dst)) (\<lambda>d.
     rbind (case src of
              Some r \<Rightarrow> of_reg (read_scalar pc s r)
            | None \<Rightarrow> (case imm of Some v \<Rightarrow> Ok (scalar_constant (scast v)) | None \<Rightarrow> Err Exec_Panic)) (\<lambda>b.
     Ok (branch_or_both pc off (jmp32_verdict d b op) s)))"

section \<open>Successors\<close>

definition exec_successors :: "u32 \<Rightarrow> bpf_insn \<Rightarrow> verifier_state \<Rightarrow> (exec_error, successors) res" where
  "exec_successors pc insn s =
     (case insn of
        Exit \<Rightarrow> Ok []
      | Jmp off \<Rightarrow> Ok [(branch_target pc off, s)]
      | CallSub off \<Rightarrow>
          (case call_subprog (pc + 1) s of
             Ok callee \<Rightarrow> Ok [(branch_target pc (ucast off), callee)]
           | Err m \<Rightarrow> fail pc (Calling (Call_Depth m)))
      | CondReg op dst src off \<Rightarrow> cond_branch pc dst src off op s
      | CondImm op dst imm off \<Rightarrow> cond_branch_imm pc dst imm off op s
      | Jset dst src off \<Rightarrow>
          rbind (of_reg (read_scalar pc s dst)) (\<lambda>d.
          rbind (of_reg (read_scalar pc s src)) (\<lambda>b.
          Ok (branch_or_both pc off (jset_verdict d b) s)))
      | JsetImm dst imm off \<Rightarrow> jset_imm_branch pc dst imm off s
      | Jmp32 dst src imm off op \<Rightarrow> jmp32_branch pc dst src imm off op s
      | _ \<Rightarrow> rbind (step pc s insn) (\<lambda>next. Ok [(pc + 1, next)]))"

end
