(* ===== verification/Exec_Wf.thy ===== *)
theory Exec_Wf
  imports Branch_Exec
begin

text \<open>
  The invariant of the executor: the shape of the state (\<open>vstate_wf\<close>), tracked numbers without
  contradictory bits, no scalar marked precise (the marks are set on stored checkpoints only), stack
  pointers that only name active frames, at most eight distinct references held. Every instruction keeps it, and in a state that has it the executor does not panic.
\<close>

section \<open>The invariant\<close>

definition reg_ok :: "nat \<Rightarrow> reg_state \<Rightarrow> bool" where
  "reg_ok k r =
     (case r of
        Scalar b \<Rightarrow> scalar_wf b \<and> \<not> precise b
      | PtrToStack mn mx al f \<Rightarrow> unat f \<le> k
      | _ \<Rightarrow> True)"

definition stack_ok :: "nat \<Rightarrow> stack_state \<Rightarrow> bool" where
  "stack_ok k st \<longleftrightarrow> stack_wf st \<and> (\<forall>r. Some r \<in> set (spilled st) \<longrightarrow> reg_ok k r)"

definition regs_ok :: "nat \<Rightarrow> reg_state list \<Rightarrow> bool" where
  "regs_ok k rs \<longleftrightarrow> length rs = NUM_REGS \<and> (\<forall>r\<in>set rs. reg_ok k r)"

definition frame_ok :: "nat \<Rightarrow> frame_state \<Rightarrow> bool" where
  "frame_ok k f \<longleftrightarrow> regs_ok k (fr_regs f) \<and> stack_ok k (fr_stack f)"

definition refs_ok :: "verifier_state \<Rightarrow> bool" where
  "refs_ok s \<longleftrightarrow> length (refs s) = MAX_REFS \<and> unat (refs_cnt s) \<le> MAX_REFS \<and> distinct (active_refs s)"

definition saved_ok :: "verifier_state \<Rightarrow> bool" where
  "saved_ok s \<longleftrightarrow>
     length (saved s) = MAX_CALL_FRAMES - 1 \<and> unat (curframe s) < MAX_CALL_FRAMES \<and>
     (\<forall>i < MAX_CALL_FRAMES - 1.
        saved s ! i = None \<and> unat (curframe s) \<le> i \<or>
        (\<exists>f. saved s ! i = Some f \<and> frame_ok i f \<and> i < unat (curframe s)))"

definition exec_wf :: "verifier_state \<Rightarrow> bool" where
  "exec_wf s \<longleftrightarrow>
     regs_ok (unat (curframe s)) (regs s) \<and> stack_ok (unat (curframe s)) (stack s) \<and> saved_ok s \<and> refs_ok s"

named_theorems exec_wf_intros "rules that keep the invariant of the executor"

lemma reg_ok_simps [simp]:
  "reg_ok k Uninit" "reg_ok k (Scalar b) \<longleftrightarrow> scalar_wf b \<and> \<not> precise b" "reg_ok k (PtrToStack mn mx al f) \<longleftrightarrow> unat f \<le> k"
  "reg_ok k (PtrToCtx off)" "reg_ok k (PtrToMap ks vs mt)" "reg_ok k (PtrToMapValue mn mx al vs i)"
  "reg_ok k (PtrToMapValueOrNull vs i)" "reg_ok k (PtrToMem mn mx al i p)"
  "reg_ok k (PtrToMemOrNull i p sz)" "reg_ok k (PtrToBtfId t r)"
  by (simp_all add: reg_ok_def)

lemma reg_ok_mono: "reg_ok k r \<Longrightarrow> k \<le> l \<Longrightarrow> reg_ok l r"
  by (cases r) auto

lemma saved_ok_frame:
  assumes "saved_ok s" "i < unat (curframe s)"
  shows "\<exists>f. saved s ! i = Some f \<and> frame_ok i f"
proof -
  have "i < MAX_CALL_FRAMES - 1" using assms unfolding saved_ok_def by linarith
  then show ?thesis using assms unfolding saved_ok_def by (meson not_le)
qed

lemma exec_wf_state: "exec_wf s \<Longrightarrow> vstate_wf s"
  using saved_ok_frame [of s]
  by (fastforce simp: exec_wf_def vstate_wf_def saved_ok_def regs_ok_def stack_ok_def refs_ok_def frame_ok_def
      frame_wf_def)

lemma regs_ok_nth: "regs_ok k rs \<Longrightarrow> i < NUM_REGS \<Longrightarrow> reg_ok k (rs ! i)"
  by (simp add: regs_ok_def)

lemma regs_ok_update: "regs_ok k rs \<Longrightarrow> reg_ok k v \<Longrightarrow> regs_ok k (rs[i := v])"
  by (auto simp: regs_ok_def dest!: set_update_subset_insert [THEN subsetD])

lemma exec_wf_read: "exec_wf s \<Longrightarrow> read_reg pc s r = Ok v \<Longrightarrow> reg_ok (unat (curframe s)) v"
  by (auto simp: exec_wf_def read_reg_Ok_iff intro: regs_ok_nth)

lemma exec_wf_scalar: "exec_wf s \<Longrightarrow> read_scalar pc s r = Ok b \<Longrightarrow> scalar_wf b"
  using regs_ok_nth [of _ "regs s" "unat r"] by (fastforce simp: exec_wf_def read_scalar_Ok_iff)

lemma regs_ok_initial: "regs_ok k initial_reg_state"
proof -
  have "regs_ok k (replicate NUM_REGS Uninit)" by (simp add: regs_ok_def)
  then show ?thesis unfolding initial_reg_state_def by (simp add: regs_ok_update)
qed

lemma stack_ok_new: "stack_ok k stack_new"
  by (simp add: stack_ok_def stack_new_def stack_wf_def)

lemma exec_wf_initial: "exec_wf (initial_with t)"
  using regs_ok_initial stack_ok_new
  by (simp add: exec_wf_def initial_with_def saved_ok_def refs_ok_def active_refs_def)

section \<open>Updates of registers\<close>

lemma exec_wf_set_reg [exec_wf_intros]:
  "exec_wf s \<Longrightarrow> reg_ok (unat (curframe s)) v \<Longrightarrow> exec_wf (set_reg s r v)"
  by (simp add: exec_wf_def set_reg_def regs_ok_update saved_ok_def refs_ok_def active_refs_def)

lemma exec_wf_set_r0 [exec_wf_intros]:
  "exec_wf s \<Longrightarrow> reg_ok (unat (curframe s)) v \<Longrightarrow> exec_wf (set_r0 v s)"
  by (simp add: exec_wf_def set_r0_def regs_ok_update saved_ok_def refs_ok_def active_refs_def)

lemma exec_wf_clobber [exec_wf_intros]: "exec_wf s \<Longrightarrow> exec_wf (clobber_scratch s)"
  by (simp add: exec_wf_def clobber_scratch_def regs_ok_update saved_ok_def refs_ok_def active_refs_def)

lemma curframe_simps [simp]:
  "curframe (set_reg s r v) = curframe s" "curframe (set_r0 v s) = curframe s"
  "curframe (clobber_scratch s) = curframe s" "curframe (put_frame_stack s f st) = curframe s"
  "curframe (map_frame h s) = curframe s"
  by (simp_all add: set_reg_def set_r0_def clobber_scratch_def put_frame_stack_def map_frame_def)

section \<open>Updates of stacks\<close>

lemma length_fill_bytes [simp]: "length (fill_bytes is b bs) = length bs"
  unfolding fill_bytes_def by (induction "is" arbitrary: bs) simp_all

lemma length_fold_update [simp]: "length (fold (\<lambda>slot xs. xs[slot := v]) is xs) = length xs"
  by (induction "is" arbitrary: xs) simp_all

lemma set_fold_clear: "Some r \<in> set (fold (\<lambda>slot xs. xs[slot := None]) is xs) \<Longrightarrow> Some r \<in> set xs"
  by (induction "is" arbitrary: xs) (auto dest!: set_update_subset_insert [THEN subsetD])

lemma stack_ok_bytes [exec_wf_intros]:
  "stack_ok k st \<Longrightarrow> length bs = STACK_SIZE \<Longrightarrow> stack_ok k (st\<lparr>sbytes := bs\<rparr>)"
  by (simp add: stack_ok_def stack_wf_def)

lemma stack_okD: "stack_ok k st \<Longrightarrow> length (sbytes st) = STACK_SIZE \<and> length (spilled st) = STACK_SLOTS \<and>
    length (dynptrs st) = STACK_SLOTS"
  by (simp add: stack_ok_def stack_wf_def)

lemma stack_ok_spilled: "stack_ok k st \<Longrightarrow> i < STACK_SLOTS \<Longrightarrow> spilled st ! i = Some r \<Longrightarrow> reg_ok k r"
  using nth_mem [of i "spilled st"] by (auto simp: stack_ok_def stack_wf_def)

lemma map_spilled_mem:
  assumes "Some r \<in> set (spilled (map_spilled h st))"
  shows "\<exists>r'. Some r' \<in> set (spilled st) \<and> (r = r' \<or> r = h r')"
proof -
  obtain i sp where "(i, sp) \<in> set (enumerate 0 (spilled st))" "Some r = (if full_spill st i then map_option h sp else sp)"
    using assms by (auto simp: map_spilled_def)
  moreover have "sp \<in> set (spilled st)"
    using calculation(1) by (auto simp: in_set_enumerate_eq)
  ultimately show ?thesis by (cases sp) (auto split: if_splits)
qed

lemma stack_ok_map_spilled [exec_wf_intros]:
  assumes "stack_ok k st" "\<And>r. reg_ok k r \<Longrightarrow> reg_ok k (h r)"
  shows "stack_ok k (map_spilled h st)"
proof -
  have "stack_wf (map_spilled h st)" using assms(1) by (simp add: stack_ok_def stack_wf_def map_spilled_def)
  moreover have "reg_ok k r" if "Some r \<in> set (spilled (map_spilled h st))" for r
    using map_spilled_mem [OF that] assms unfolding stack_ok_def by blast
  ultimately show ?thesis by (simp add: stack_ok_def)
qed

lemma exec_wf_stack [exec_wf_intros]:
  "exec_wf s \<Longrightarrow> stack_ok (unat (curframe s)) st \<Longrightarrow> exec_wf (s\<lparr>stack := st\<rparr>)"
  by (simp add: exec_wf_def saved_ok_def refs_ok_def active_refs_def)

lemma exec_wf_regs:
  "exec_wf s \<Longrightarrow> regs_ok (unat (curframe s)) rs \<Longrightarrow> exec_wf (s\<lparr>regs := rs\<rparr>)"
  by (simp add: exec_wf_def saved_ok_def refs_ok_def active_refs_def)

lemma regs_ok_map: "regs_ok k rs \<Longrightarrow> (\<And>r. reg_ok k r \<Longrightarrow> reg_ok k (h r)) \<Longrightarrow> regs_ok k (map h rs)"
  by (auto simp: regs_ok_def)

lemma exec_wf_map_frame [exec_wf_intros]:
  assumes "exec_wf s" "\<And>k r. reg_ok k r \<Longrightarrow> reg_ok k (h r)"
  shows "exec_wf (map_frame h s)"
proof -
  let ?k = "unat (curframe s)"
  have "regs_ok ?k (map h (regs s))" "stack_ok ?k (map_spilled h (stack s))"
    using assms unfolding exec_wf_def by (blast intro: regs_ok_map stack_ok_map_spilled)+
  then show ?thesis
    using assms(1) by (simp add: map_frame_def exec_wf_def saved_ok_def refs_ok_def active_refs_def)
qed

lemma frame_stack_Ok:
  assumes "exec_wf s" "unat f \<le> unat (curframe s)"
  obtains st where "frame_stack s f = Ok st" "stack_ok (unat f) st"
proof (cases "f = curframe s")
  case True
  then show ?thesis using that [of "stack s"] assms(1) by (simp add: frame_stack_def exec_wf_def)
next
  case False
  then have lt: "unat f < unat (curframe s)" using assms(2) by (simp add: order_le_less word_unat_eq_iff)
  moreover obtain fr where "saved s ! unat f = Some fr" "frame_ok (unat f) fr"
    using saved_ok_frame [of s "unat f"] assms(1) lt by (auto simp: exec_wf_def)
  moreover have "unat f < length (saved s)"
    using assms(1) lt unfolding exec_wf_def saved_ok_def by linarith
  ultimately show ?thesis using that [of "fr_stack fr"] False by (simp add: frame_stack_def frame_ok_def)
qed

lemma frame_stack_ok:
  "exec_wf s \<Longrightarrow> unat f \<le> unat (curframe s) \<Longrightarrow> frame_stack s f = Ok st \<Longrightarrow> stack_ok (unat f) st"
  by (metis frame_stack_Ok Inr_inject)

lemma exec_wf_put_frame_stack [exec_wf_intros]:
  assumes "exec_wf s" "unat f \<le> unat (curframe s)" "stack_ok (unat f) st"
  shows "exec_wf (put_frame_stack s f st)"
proof (cases "f = curframe s")
  case True
  then show ?thesis using assms exec_wf_stack by (simp add: put_frame_stack_def)
next
  case False
  then have lt: "unat f < unat (curframe s)" using assms(2) by (simp add: order_le_less word_unat_eq_iff)
  obtain fr where fr: "saved s ! unat f = Some fr" "frame_ok (unat f) fr"
    using saved_ok_frame [of s "unat f"] assms(1) lt by (auto simp: exec_wf_def)
  have "saved_ok (put_frame_stack s f st)"
    using assms(1,3) fr lt False
    by (auto simp: put_frame_stack_def saved_ok_def exec_wf_def nth_list_update frame_ok_def)
  then show ?thesis
    using assms(1) False by (simp add: put_frame_stack_def exec_wf_def refs_ok_def active_refs_def)
qed

section \<open>Values\<close>

lemma scalar_wf_for_width [simp]: "scalar_wf (scalar_for_width sz se)"
  by (simp add: scalar_for_width_def wf_intros)

lemma scalar_wf_coerce [simp]: "scalar_wf b \<Longrightarrow> scalar_wf (coerce_scalar b sz se)"
  by (auto simp: coerce_scalar_def Let_def scalar_wf_def wf_intros scalar_constant_def bit_simps
      intro!: tnum_wfI dest: tnum_wf_bit)

lemma scalar_wf_linked [simp]:
  "scalar_wf known \<Longrightarrow> scalar_wf (linked_bounds kd known b)"
  using apply_alu_wf [of known Alu_Add W64 "scalar_constant (link_shift (delta b) kd)"]
  by (simp add: linked_bounds_def Let_def scalar_wf_def)

lemma scalar_wf_mov32 [simp]: "scalar_wf (mov32_bounds b)"
  by (simp add: mov32_bounds_def wf_intros)

lemma scalar_wf_link [simp]: "scalar_wf (b\<lparr>sid := i\<rparr>) \<longleftrightarrow> scalar_wf b"
  by (simp add: scalar_wf_def)

lemmas scalar_wf_simps [simp] = scalar_wf_constant scalar_wf_unknown scalar_wf_from_signed apply_alu_wf

lemma precise_synced [simp]: "precise (synced b) = precise b"
  by (simp add: synced_def synced_tnum_def synced_s32_def synced_u32_def synced_ranges_def Let_def)

lemma imprecise_basic [simp]:
  "\<not> precise (scalar_constant v)" "\<not> precise (scalar_from_signed lo hi)" "\<not> precise scalar_unknown"
  by (simp_all add: scalar_constant_def scalar_from_signed_def scalar_unknown_def Let_def)

lemma imprecise_alu [simp]: "\<not> precise (apply_alu_inner op w a b)" "\<not> precise (apply_alu op w a b)"
proof -
  show inner: "\<not> precise (apply_alu_inner op w a b)" for op w
    by (simp add: apply_alu_inner_def alu_bounds_def Let_def split: alu_width.split prod.split)
  show "\<not> precise (apply_alu op w a b)"
    using inner by (simp add: apply_alu_def apply_linking_def clear_link_def Let_def split: option.split)
qed

lemma imprecise_derived [simp]:
  "\<not> precise (scalar_for_width sz se)" "\<not> precise (mov32_bounds b)" "\<not> precise (jset_cleared b imm)"
  "\<not> precise known \<Longrightarrow> \<not> precise (linked_bounds kd known b)" "\<not> precise b \<Longrightarrow> \<not> precise (coerce_scalar b n se)"
  by (simp_all add: scalar_for_width_def mov32_bounds_def jset_cleared_def linked_bounds_def coerce_scalar_def Let_def)

lemma imprecise_refine:
  assumes "\<not> precise d" "\<not> precise b" "refine_cmp op d b = ((td, tb), (fd, fb))"
  shows "\<not> precise td \<and> \<not> precise tb \<and> \<not> precise fd \<and> \<not> precise fb"
  using assms
  by (auto simp: refine_cmp_def refine_eq_def refine_ne_def exclude_bounds_def bounds_inter_def Let_def
      split: option.splits if_splits prod.splits)

lemma scalar_wf_jset [simp]: "scalar_wf b \<Longrightarrow> scalar_wf (jset_cleared b imm)"
  by (simp add: jset_cleared_def)

lemma scalar_wf_refine:
  assumes "scalar_wf d" "scalar_wf b" "refine_cmp op d b = ((td, tb), (fd, fb))"
  shows "scalar_wf td \<and> scalar_wf tb \<and> scalar_wf fd \<and> scalar_wf fb"
proof -
  have wf: "scalar_wf (exclude_bounds x y)" "scalar_wf (x\<lparr>smin := u, smax := v\<rparr>)"
    "scalar_wf (x\<lparr>umin := u, umax := v\<rparr>)" if "scalar_wf x" for x y u v
    using that by (simp_all add: exclude_bounds_def scalar_wf_def Let_def)
  have inter: "scalar_wf (bounds_inter d b)"
    by (simp add: bounds_inter_def scalar_wf_def wf_intros)
  show ?thesis
    using assms
    by (auto simp: refine_cmp_def refine_eq_def refine_ne_def Let_def wf inter scalar_wf_synced
        split: option.splits if_splits prod.splits)
qed

lemma reg_ok_alias [simp]:
  "reg_ok k r \<Longrightarrow> reg_ok k (kill_slice d r)" "reg_ok k r \<Longrightarrow> reg_ok k (kill_alias d r)"
  "reg_ok k r \<Longrightarrow> reg_ok k (null_map_value i r)" "reg_ok k r \<Longrightarrow> reg_ok k (valid_map_value i r)"
  "reg_ok k r \<Longrightarrow> reg_ok k (null_mem i r)" "reg_ok k r \<Longrightarrow> reg_ok k (valid_mem i r)"
  by (auto simp: kill_slice_def kill_alias_def null_map_value_def valid_map_value_def null_mem_def valid_mem_def
      split: reg_state.splits)

lemma reg_ok_sync [simp]:
  "reg_ok k r \<Longrightarrow> scalar_wf known \<Longrightarrow> \<not> precise known \<Longrightarrow> reg_ok k (sync_reg link kd known r)"
  "reg_ok k r \<Longrightarrow> scalar_wf known \<Longrightarrow> \<not> precise known \<Longrightarrow> reg_ok k (sync_spill link kd known r)"
  by (auto simp: sync_reg_def sync_spill_def split: reg_state.splits)

lemma exec_wf_sync [exec_wf_intros]:
  assumes "exec_wf s" "scalar_wf known" "\<not> precise known"
  shows "exec_wf (sync_linked_scalars link kd known s)"
proof -
  let ?k = "unat (curframe s)"
  have "regs_ok ?k (map (sync_reg link kd known) (regs s))"
    "stack_ok ?k (map_spilled (sync_spill link kd known) (stack s))"
    using assms unfolding exec_wf_def by (auto intro!: regs_ok_map stack_ok_map_spilled)
  then show ?thesis
    using assms(1) by (simp add: sync_linked_scalars_def exec_wf_def saved_ok_def refs_ok_def active_refs_def)
qed

lemma curframe_sync [simp]: "curframe (sync_linked_scalars link kd known s) = curframe s"
  by (simp add: sync_linked_scalars_def)

section \<open>Reading the stack\<close>

lemma stack_access_check_Ok:
  assumes "stack_access_check pc base off mn mx al sz = Ok (lo, hi)" "0 < sz" "sint mn \<le> sint mx"
  shows "lo \<le> hi \<and> hi < STACK_SIZE \<and> int lo = - (sint mx + sint off + sz) \<and> int hi = - (sint mn + sint off) - 1"
proof -
  let ?a = "sint mn + sint off" and ?b = "sint mx + sint off + sz"
  have r: "- 512 \<le> ?a" "?b \<le> 0" "lo = stack_byte_index (?b - 1)" "hi = stack_byte_index ?a"
    using assms(1) by (auto simp: stack_access_check_def Let_def stack_byte_range_def split: if_splits)
  have "lo = nat (- ?b)" "hi = nat (- ?a - 1)"
    unfolding r(3,4) stack_byte_index_def using r(1,2) assms(2,3) by (simp_all add: zmod_trivial_iff)
  then show ?thesis using r(1,2) assms(2,3) by auto
qed

lemma byte_walk_ok: "byte_walk pc off st lo hi = Ok v \<Longrightarrow> reg_ok k v"
  by (auto simp: byte_walk_def Let_def wf_intros split: if_splits)

lemma fixed_stack_read_ok:
  assumes "fixed_stack_read pc base off st lo hi mo sz se = Ok v" "stack_ok k st" "hi < STACK_SIZE"
  shows "reg_ok k v"
proof -
  have "reg_ok k r" if "spilled st ! (hi div 8) = Some r" for r
    using stack_ok_spilled [OF assms(2) _ that] assms(3) by simp
  then show ?thesis
    using assms(1)
    by (fastforce simp: fixed_stack_read_def byte_walk_ok split: if_splits option.splits reg_state.splits)
qed

lemma stack_read_ok:
  assumes "exec_wf s" "stack_read pc base s off sz se = Ok v"
  shows "reg_ok (unat (curframe s)) v"
proof -
  obtain bs where bs: "read_reg pc s base = Ok bs" "reg_ok (unat (curframe s)) bs"
    using assms exec_wf_read [OF assms(1)] by (auto simp: stack_read_def rbind_Ok_iff)
  show ?thesis
  proof (cases bs)
    case (PtrToStack mn mx al f)
    then obtain lo hi st where c: "stack_access_check pc base off mn mx al (int (mem_bytes sz)) = Ok (lo, hi)"
      and st: "frame_stack s f = Ok st" "unat f \<le> unat (curframe s)"
      using assms(2) bs by (auto simp: stack_read_def rbind_Ok_iff)
    have ok: "stack_ok (unat f) st" using frame_stack_ok [OF assms(1) st(2,1)] .
    show ?thesis
    proof (cases "mn = mx")
      case True
      have "0 < int (mem_bytes sz)" by (cases sz) simp_all
      then have "hi < STACK_SIZE" using stack_access_check_Ok [OF c] True by simp
      then have "reg_ok (unat f) v"
        using assms(2) bs(1) PtrToStack c st(1) True ok fixed_stack_read_ok
        by (auto simp: stack_read_def)
      then show ?thesis using st(2) reg_ok_mono by blast
    next
      case False
      then show ?thesis
        using assms(2) bs(1) PtrToStack c st(1) by (auto simp: stack_read_def rbind_Ok_iff wf_intros)
    qed
  qed (use assms(2) bs(1) in \<open>auto simp: stack_read_def rbind_Ok_iff wf_intros\<close>)
qed

section \<open>Writing the stack\<close>

lemma stack_ok_destroy: "stack_ok k (fst acc) \<Longrightarrow> stack_ok k (fst (destroy_dynptr slot acc))"
  by (cases acc) (auto simp: destroy_dynptr_def stack_ok_def stack_wf_def)

lemma stack_ok_destroy_all: "stack_ok k (fst acc) \<Longrightarrow> stack_ok k (fst (fold destroy_dynptr slots acc))"
  by (induction slots arbitrary: acc) (simp_all add: stack_ok_destroy)

lemma stack_ok_spill_store: "stack_ok k st \<Longrightarrow> reg_ok k v \<Longrightarrow> stack_ok k (spill_store lo hi v st)"
  by (auto simp: spill_store_def Let_def stack_ok_def stack_wf_def dest!: set_update_subset_insert [THEN subsetD])

lemma stack_ok_partial_store: "stack_ok k st \<Longrightarrow> stack_ok k (partial_store lo hi z st)"
  by (auto simp: partial_store_def Let_def stack_ok_def stack_wf_def simp del: upt_Suc dest: set_fold_clear)

lemma exec_wf_destroy_slices:
  assumes "exec_wf s" "unat f \<le> unat (curframe s)" "destroy_slices f d s = Ok s'"
  shows "exec_wf s' \<and> curframe s' = curframe s"
proof -
  let ?s = "s\<lparr>regs := map (kill_slice d) (regs s)\<rparr>"
  have wf: "exec_wf ?s" using assms(1) by (intro exec_wf_regs regs_ok_map) (auto simp: exec_wf_def)
  obtain st where st: "frame_stack ?s f = Ok st" "s' = put_frame_stack ?s f (map_spilled (kill_slice d) st)"
    using assms(3) by (auto simp: destroy_slices_def Let_def rbind_Ok_iff)
  have "stack_ok (unat f) st" using frame_stack_ok [OF wf _ st(1)] assms(2) by simp
  then have "exec_wf s'" unfolding st(2)
    using assms(2) by (intro exec_wf_intros wf) simp_all
  then show ?thesis by (simp add: st(2))
qed

lemma stored_value_ok: "exec_wf s \<Longrightarrow> stored_value pc s src imm = Ok v \<Longrightarrow> reg_ok (unat (curframe s)) v"
  using exec_wf_read by (auto simp: stored_value_def wf_intros split: option.splits)

text \<open>The decomposition of a successful store: the frame, the dynptrs it destroys, the value, the new frame.\<close>

lemma stack_store_Ok:
  assumes "stack_store pc base s off sz src imm mn mx f (lo, hi) = Ok s'"
  obtains st0 st1 destroyed s2 st2 v where
    "frame_stack s f = Ok st0"
    "fold destroy_dynptr [lo div 8..<Suc (hi div 8)] (st0, None) = (st1, destroyed)"
    "(case destroyed of None \<Rightarrow> Ok (put_frame_stack s f st1) | Some d \<Rightarrow> destroy_slices f d (put_frame_stack s f st1)) =
      Ok s2"
    "frame_stack s2 f = Ok st2" "stored_value pc s src imm = Ok v"
    "mn = mx \<and> (sint mn + sint off) mod 8 = 0 \<and>
       (case v of Scalar b \<Rightarrow> True | PtrToStack a b c d \<Rightarrow> mem_bytes sz = 8 \<and> f = curframe s | _ \<Rightarrow> mem_bytes sz = 8) \<and>
       s' = put_frame_stack s2 f (spill_store lo hi v st2) \<or>
     \<not> (mn = mx \<and> (sint mn + sint off) mod 8 = 0) \<and>
       check_corrupt_spill pc base off st2 [lo div 8..<Suc (hi div 8)] = Ok () \<and>
       s' = put_frame_stack s2 f (partial_store lo hi (constant_zero (Some v)) st2)"
proof -
  have guard: "\<not> (lo \<le> hi \<and> STACK_SIZE \<le> hi)"
    using assms by (auto simp: stack_store_def)
  obtain st0 where st0: "frame_stack s f = Ok st0"
    using assms guard by (auto simp: stack_store_def rbind_Ok_iff)
  obtain st1 destroyed where st1: "fold destroy_dynptr [lo div 8..<Suc (hi div 8)] (st0, None) = (st1, destroyed)"
    by fastforce
  let ?s1 = "put_frame_stack s f st1"
  obtain s2 st2 where s2: "(case destroyed of None \<Rightarrow> Ok ?s1 | Some d \<Rightarrow> destroy_slices f d ?s1) = Ok s2"
      "frame_stack s2 f = Ok st2"
    using assms guard by (simp only: stack_store_def prod.case if_False rbind_simps st0 st1 Let_def)
        (meson rbind_Ok_iff)
  show ?thesis
  proof (cases "mn = mx \<and> (sint mn + sint off) mod 8 = 0")
    case True
    obtain v where v: "stored_value pc s src imm = Ok v" "s' = put_frame_stack s2 f (spill_store lo hi v st2)"
      "\<not> (case v of Scalar b \<Rightarrow> False | _ \<Rightarrow> mem_bytes sz \<noteq> 8)"
      "\<not> (case v of PtrToStack a b c d \<Rightarrow> f \<noteq> curframe s | _ \<Rightarrow> False)"
      using assms guard True
      by (simp only: stack_store_def prod.case if_False if_True rbind_simps st0 st1 Let_def s2 simp_thms)
        (auto simp: rbind_Ok_iff split: if_splits)
    show ?thesis
      by (rule that [OF st0 st1 s2 v(1)]) (use True v(2-4) in \<open>auto split: reg_state.splits\<close>)
  next
    case False
    obtain v where v: "stored_value pc s src imm = Ok v"
      "s' = put_frame_stack s2 f (partial_store lo hi (constant_zero (Some v)) st2)"
      "check_corrupt_spill pc base off st2 [lo div 8..<Suc (hi div 8)] = Ok ()"
      using assms guard False
      by (simp only: stack_store_def prod.case if_False rbind_simps st0 st1 Let_def s2 simp_thms)
        (auto simp: rbind_Ok_iff simp del: upt_Suc)
    show ?thesis by (rule that [OF st0 st1 s2 v(1)]) (use False v(2,3) in blast)
  qed
qed

lemma stack_store_wf:
  assumes wf: "exec_wf s" and f: "unat f \<le> unat (curframe s)"
    and r: "stack_store pc base s off sz src imm mn mx f (lo, hi) = Ok s'"
  shows "exec_wf s' \<and> curframe s' = curframe s"
proof -
  from r obtain st0 st1 destroyed s2 st2 v where st0: "frame_stack s f = Ok st0"
    and st1: "fold destroy_dynptr [lo div 8..<Suc (hi div 8)] (st0, None) = (st1, destroyed)"
    and s2: "(case destroyed of None \<Rightarrow> Ok (put_frame_stack s f st1)
                              | Some d \<Rightarrow> destroy_slices f d (put_frame_stack s f st1)) = Ok s2"
    and st2: "frame_stack s2 f = Ok st2" and v: "stored_value pc s src imm = Ok v"
    and s': "mn = mx \<and> (sint mn + sint off) mod 8 = 0 \<and>
       (case v of Scalar b \<Rightarrow> True | PtrToStack a b c d \<Rightarrow> mem_bytes sz = 8 \<and> f = curframe s | _ \<Rightarrow> mem_bytes sz = 8) \<and>
       s' = put_frame_stack s2 f (spill_store lo hi v st2) \<or>
     \<not> (mn = mx \<and> (sint mn + sint off) mod 8 = 0) \<and>
       check_corrupt_spill pc base off st2 [lo div 8..<Suc (hi div 8)] = Ok () \<and>
       s' = put_frame_stack s2 f (partial_store lo hi (constant_zero (Some v)) st2)"
    by (rule stack_store_Ok)
  let ?s1 = "put_frame_stack s f st1"
  have "stack_ok (unat f) st1"
    using stack_ok_destroy_all [of "unat f" "(st0, None)"] frame_stack_ok [OF wf f st0] st1 by (metis fst_conv)
  then have wf1: "exec_wf ?s1" using wf f by (intro exec_wf_intros)
  have wf2: "exec_wf s2" "curframe s2 = curframe s"
    using s2 wf1 f exec_wf_destroy_slices [of ?s1 f _ s2] by (auto split: option.splits)
  have ok2: "stack_ok (unat f) st2" using frame_stack_ok [OF wf2(1) _ st2] wf2(2) f by simp
  have "reg_ok (unat f) v" if "case v of PtrToStack a b c d \<Rightarrow> f = curframe s | _ \<Rightarrow> True"
    using that stored_value_ok [OF wf v] by (cases v) auto
  then have "s' = put_frame_stack s2 f (spill_store lo hi v st2) \<and> reg_ok (unat f) v \<or>
      s' = put_frame_stack s2 f (partial_store lo hi (constant_zero (Some v)) st2)"
    using s' by (auto split: reg_state.splits)
  then show ?thesis
    using wf2 f ok2 by (auto intro!: exec_wf_intros stack_ok_spill_store stack_ok_partial_store)
qed

lemma stack_write_wf:
  assumes "exec_wf s" "stack_write pc base s off sz src imm = Ok s'"
  shows "exec_wf s' \<and> curframe s' = curframe s"
proof -
  obtain bs where bs: "read_reg pc s base = Ok bs" "reg_ok (unat (curframe s)) bs"
    using assms exec_wf_read [OF assms(1)] by (auto simp: stack_write_def rbind_Ok_iff)
  show ?thesis
  proof (cases bs)
    case (PtrToStack mn mx al f)
    then show ?thesis
      using assms bs stack_store_wf [OF assms(1), of f] by (auto simp: stack_write_def rbind_Ok_iff)
  qed (use assms bs in \<open>auto simp: stack_write_def rbind_Ok_iff\<close>)
qed

section \<open>References\<close>

text \<open>
  The search for a fresh identifier: among as many candidates as references are held and one more, one
  is free, so the search of \<open>fresh_reference_id\<close> ends within the bound.
\<close>

lemma fresh_from_found:
  assumes "j \<le> n" "i + of_nat j \<notin> set active"
  shows "fresh_from (Suc n) active i \<notin> set active"
  using assms
proof (induction n arbitrary: i j)
  case (Suc n)
  show ?case
  proof (cases j)
    case (Suc j')
    then have "j' \<le> n" "i + 1 + of_nat j' \<notin> set active"
      using Suc.prems by (simp_all add: algebra_simps)
    then show ?thesis using Suc.IH by simp
  qed (use Suc.prems in simp)
qed simp

lemma fresh_candidate:
  assumes "length active < 2 ^ 32"
  shows "\<exists>j \<le> length active. (i :: u32) + of_nat j \<notin> set active"
proof (rule ccontr)
  assume "\<not> ?thesis"
  then have "(\<lambda>j. i + of_nat j) ` {..length active} \<subseteq> set active" by auto
  moreover have "inj_on (\<lambda>j. i + of_nat j :: u32) {..length active}"
  proof (rule inj_onI)
    fix a b assume "a \<in> {..length active}" "b \<in> {..length active}" "i + of_nat a = i + of_nat b"
    then have "a < 2 ^ 32" "b < 2 ^ 32" "unat (of_nat a :: u32) = unat (of_nat b :: u32)" using assms by simp_all
    then show "a = b" by (simp add: unat_of_nat)
  qed
  ultimately have "Suc (length active) \<le> card (set active)"
    by (metis card_atMost card_image card_mono List.finite_set)
  then show False using card_length [of active] by linarith
qed

lemma fresh_reference_id_fresh:
  assumes "refs_ok s"
  shows "fresh_reference_id s \<notin> set (active_refs s)"
proof -
  have "length (active_refs s) < 2 ^ 32" using assms by (simp add: refs_ok_def active_refs_def)
  from fresh_candidate [OF this] show ?thesis
    unfolding fresh_reference_id_def by (meson fresh_from_found)
qed

lemma refs_ok_cong: "refs s' = refs s \<Longrightarrow> refs_cnt s' = refs_cnt s \<Longrightarrow> refs_ok s' = refs_ok s"
  by (simp add: refs_ok_def active_refs_def)

lemma push_ref_wf:
  assumes "exec_wf s" "push_ref pc s = Ok (i, s')"
  shows "exec_wf s' \<and> curframe s' = curframe s \<and> regs s' = regs s \<and> i \<notin> set (active_refs s) \<and>
    active_refs s' = active_refs s @ [i]"
proof -
  have c: "unat (refs_cnt s) < MAX_REFS" and i: "i = fresh_reference_id s"
    and s': "s' = s\<lparr>refs := (refs s)[unat (refs_cnt s) := i], refs_cnt := refs_cnt s + 1\<rparr>"
    using assms(2) by (auto simp: push_ref_def Let_def split: if_splits)
  have r: "refs_ok s" "length (refs s) = MAX_REFS" using assms(1) by (simp_all add: exec_wf_def refs_ok_def)
  have cnt: "unat (refs_cnt s + 1) = Suc (unat (refs_cnt s))" using c unat_succ8 [of "refs_cnt s"] by simp
  have act: "active_refs s' = active_refs s @ [i]"
    using c r cnt by (simp add: s' active_refs_def take_Suc_conv_app_nth)
  have fresh: "i \<notin> set (active_refs s)" using fresh_reference_id_fresh [OF r(1)] by (simp add: i)
  have "refs_ok s'"
    using r act fresh c cnt by (simp add: refs_ok_def s')
  then have "exec_wf s'"
    using assms(1) by (simp add: exec_wf_def s' saved_ok_def)
  then show ?thesis using act fresh by (simp add: s')
qed

lemma drop_ref_Some:
  assumes "refs_ok s" "drop_ref i s = Some s'"
  shows "refs_ok s' \<and> set (active_refs s') = set (active_refs s) - {i} \<and> i \<in> set (active_refs s)"
proof -
  let ?n = "unat (refs_cnt s)"
  obtain k where k: "position (\<lambda>r. r = i) (active_refs s) = Some k"
    and s': "s' = s\<lparr>refs := (refs s)[k := refs s ! (?n - 1)], refs_cnt := refs_cnt s - 1\<rparr>"
    using assms(2) by (auto simp: drop_ref_def split: option.splits)
  have len: "length (active_refs s) = ?n" "length (refs s) = MAX_REFS" "distinct (active_refs s)" "?n \<le> MAX_REFS"
    using assms(1) by (auto simp: refs_ok_def active_refs_def)
  have pos: "k < ?n" "active_refs s ! k = i" using position_SomeD [OF k] len(1) by simp_all
  then have cnt: "unat (refs_cnt s - 1) = ?n - 1" by (intro unat_pred8) auto
  define xs where "xs = active_refs s"
  have act: "active_refs s' = take (?n - 1) (xs[k := xs ! (?n - 1)])"
    using pos cnt len by (simp add: s' active_refs_def xs_def take_update_swap [symmetric])
  obtain m where m: "?n = Suc m" using pos by (cases ?n) simp_all
  obtain ys y where xs: "xs = ys @ [y]" "length ys = m"
    using len(1) m by (metis xs_def length_Suc_conv_rev)
  have d: "distinct ys" "y \<notin> set ys" using len(3) by (simp_all add: xs(1) flip: xs_def)
  have "distinct (active_refs s') \<and> set (active_refs s') = set xs - {i}"
  proof (cases "k = m")
    case True
    then show ?thesis using act m xs d pos(2) by (simp add: xs_def [symmetric] nth_append)
  next
    case False
    then have km: "k < length ys" using pos(1) m xs(2) by simp
    have "xs ! m = y" using xs by (simp add: nth_append)
    then have a: "active_refs s' = ys[k := y]" using act m xs km by (simp add: list_update_append)
    have "ys ! k = i" using pos(2) km xs by (simp add: xs_def [symmetric] nth_append)
    then show ?thesis
      using d km unfolding a xs(1) by (auto simp: set_update_distinct intro!: distinct_list_update)
  qed
  moreover have "i \<in> set (active_refs s)" using pos len(1) by (metis nth_mem)
  moreover have "length (refs s') = MAX_REFS" "unat (refs_cnt s') \<le> MAX_REFS"
    using len cnt by (simp_all add: s')
  ultimately show ?thesis by (simp add: refs_ok_def xs_def)
qed

end
