(* ===== verification/Call_Wf.thy ===== *)
theory Call_Wf
  imports Exec_Wf
begin

text \<open>
  Calls of helpers and of kernel functions keep the invariant of the executor, and release exactly
  the reference they name: afterwards no register and no full spill of any frame refers to it.
\<close>

section \<open>Release\<close>

lemma invalidate_in_frame_ok: "frame_ok k fr \<Longrightarrow> frame_ok k (invalidate_in_frame d fr)"
  by (simp add: frame_ok_def invalidate_in_frame_def regs_ok_map stack_ok_map_spilled)

lemma exec_wf_invalidate:
  assumes "exec_wf s"
  shows "exec_wf (invalidate_reference_aliases d s)"
proof -
  let ?s = "map_frame (kill_alias d) s"
  have wf: "exec_wf ?s" using assms by (intro exec_wf_intros) simp_all
  have "saved_ok (?s\<lparr>saved := map (map_option (invalidate_in_frame d)) (saved s)\<rparr>)"
    using assms by (auto simp: exec_wf_def saved_ok_def map_frame_def invalidate_in_frame_ok)
  then show ?thesis
    using wf by (simp add: invalidate_reference_aliases_def exec_wf_def refs_ok_def active_refs_def)
qed

lemma exec_wf_drop_ref: "exec_wf s \<Longrightarrow> drop_ref i s = Some s' \<Longrightarrow> exec_wf s' \<and> curframe s' = curframe s"
  using drop_ref_Some [of s i s']
  by (auto simp: exec_wf_def drop_ref_def saved_ok_def split: option.splits)

lemma release_ref_wf:
  assumes "exec_wf s" "release_ref pc i s = Ok s'"
  shows "exec_wf s' \<and> curframe s' = curframe s"
  using assms exec_wf_drop_ref [OF assms(1)] exec_wf_invalidate
  by (auto simp: release_ref_def invalidate_reference_aliases_def split: option.splits)

text \<open>A register that refers to an acquired object.\<close>

definition refers_to :: "u32 \<Rightarrow> reg_state \<Rightarrow> bool" where
  "refers_to i r =
     (case r of
        PtrToMem mn mx al j p \<Rightarrow> j = i \<or> p = i
      | PtrToMemOrNull j p sz \<Rightarrow> j = i \<or> p = i
      | PtrToBtfId b j \<Rightarrow> j = i
      | _ \<Rightarrow> False)"

definition stack_refers :: "u32 \<Rightarrow> stack_state \<Rightarrow> bool" where
  "stack_refers i st \<longleftrightarrow>
     (\<exists>slot < STACK_SLOTS. full_spill st slot \<and> (\<exists>r. spilled st ! slot = Some r \<and> refers_to i r))"

definition state_refers :: "u32 \<Rightarrow> verifier_state \<Rightarrow> bool" where
  "state_refers i s \<longleftrightarrow>
     (\<exists>r \<in> set (regs s). refers_to i r) \<or> stack_refers i (stack s) \<or>
     (\<exists>f. Some f \<in> set (saved s) \<and> ((\<exists>r \<in> set (fr_regs f). refers_to i r) \<or> stack_refers i (fr_stack f)))"

lemma refers_to_kill [simp]: "\<not> refers_to i (kill_alias i r)"
  by (cases r) (simp_all add: refers_to_def kill_alias_def)

lemma full_spill_map_spilled [simp]: "full_spill (map_spilled h st) slot = full_spill st slot"
  by (simp add: full_spill_def slot_bytes_def map_spilled_def)

lemma spilled_map_spilled:
  "slot < length (spilled st) \<Longrightarrow>
   spilled (map_spilled h st) ! slot = (if full_spill st slot then map_option h (spilled st ! slot) else spilled st ! slot)"
  by (simp add: map_spilled_def nth_enumerate_eq)

lemma stack_refers_kill: "stack_wf st \<Longrightarrow> \<not> stack_refers i (map_spilled (kill_alias i) st)"
  by (auto simp: stack_refers_def spilled_map_spilled stack_wf_def)

lemma Some_eq_map_option: "Some y = map_option h x \<longleftrightarrow> (\<exists>z. x = Some z \<and> y = h z)"
  by (cases x) auto

lemma release_ref_forgets:
  assumes "exec_wf s" "release_ref pc i s = Ok s'"
  shows "\<not> state_refers i s' \<and> set (active_refs s') = set (active_refs s) - {i} \<and> i \<in> set (active_refs s)"
proof -
  obtain t where t: "drop_ref i s = Some t" "s' = invalidate_reference_aliases i t"
    using assms(2) by (auto simp: release_ref_def split: option.splits)
  have wf: "exec_wf t" using exec_wf_drop_ref [OF assms(1) t(1)] by simp
  have refs: "set (active_refs t) = set (active_refs s) - {i} \<and> i \<in> set (active_refs s)"
    using drop_ref_Some [OF _ t(1)] assms(1) by (simp add: exec_wf_def)
  have "stack_wf (fr_stack f)" if "Some f \<in> set (saved t)" for f
    using wf that by (fastforce simp: exec_wf_def saved_ok_def in_set_conv_nth frame_ok_def stack_ok_def)
  then have "\<not> state_refers i s'"
    using wf
    by (auto simp: Some_eq_map_option t(2) state_refers_def invalidate_reference_aliases_def map_frame_def stack_refers_kill
        invalidate_in_frame_def exec_wf_def stack_ok_def)
  moreover have "active_refs s' = active_refs t"
    by (simp add: t(2) invalidate_reference_aliases_def map_frame_def active_refs_def)
  ultimately show ?thesis using refs by simp
qed

section \<open>Dynptr and map helpers\<close>

lemma exec_wf_bytes:
  assumes "exec_wf s" "length bs = STACK_SIZE" "length ds = STACK_SLOTS"
  shows "exec_wf (s\<lparr>stack := (stack s)\<lparr>sbytes := bs, dynptrs := ds\<rparr>\<rparr>)"
proof -
  have "stack_ok (unat (curframe s)) ((stack s)\<lparr>sbytes := bs, dynptrs := ds\<rparr>)"
    using assms by (simp add: exec_wf_def stack_ok_def stack_wf_def)
  then show ?thesis using assms(1) by (rule exec_wf_stack [rotated])
qed

lemma exec_wf_lengths:
  "exec_wf s \<Longrightarrow> length (sbytes (stack s)) = STACK_SIZE \<and> length (dynptrs (stack s)) = STACK_SLOTS"
  by (simp add: exec_wf_def stack_ok_def stack_wf_def)

lemma init_stack_buffer_wf:
  assumes "exec_wf s" "init_stack_buffer pc s mn mx len = Ok s'"
  shows "exec_wf s' \<and> curframe s' = curframe s"
proof -
  have "s' = s \<or> (\<exists>is. s' = s\<lparr>stack := (stack s)\<lparr>sbytes := fill_bytes is SB_Misc (sbytes (stack s))\<rparr>\<rparr>)"
    using assms(2) by (auto simp: init_stack_buffer_def simp del: upt_Suc split: if_splits prod.splits)
  moreover have "exec_wf (s\<lparr>stack := (stack s)\<lparr>sbytes := fill_bytes is SB_Misc (sbytes (stack s))\<rparr>\<rparr>)" for "is"
    using exec_wf_bytes [OF assms(1), of "fill_bytes is SB_Misc (sbytes (stack s))" "dynptrs (stack s)"]
      exec_wf_lengths [OF assms(1)] by simp
  ultimately show ?thesis using assms(1) by auto
qed

lemma dynptr_from_mem_wf:
  assumes "exec_wf next" "dynptr_from_mem pc s next = Ok s'"
  shows "exec_wf s' \<and> curframe s' = curframe next"
proof -
  obtain bs ds where s': "s' = next\<lparr>stack := (stack next)\<lparr>sbytes := bs, dynptrs := ds\<rparr>\<rparr>"
    and "length bs = length (sbytes (stack next))" "length ds = length (dynptrs (stack next))"
    using assms(2)
    by (auto simp: dynptr_from_mem_def Let_def simp del: upt_Suc split: option.splits reg_state.splits if_splits)
  then have "exec_wf s'"
    using exec_wf_bytes [OF assms(1), of bs ds] exec_wf_lengths [OF assms(1)] by simp
  then show ?thesis by (simp add: s')
qed

lemma dynptr_helper_call_wf:
  assumes "exec_wf next" "dynptr_helper_call pc h s next = Ok s'"
  shows "exec_wf s' \<and> curframe s' = curframe next"
proof -
  consider "h = 197" | "h = 201" | "h = 202" | "h = 203"
    using assms(2) by (auto simp: dynptr_helper_call_def split: if_splits)
  then show ?thesis
  proof cases
    case 1
    then show ?thesis using assms dynptr_from_mem_wf by (simp add: dynptr_helper_call_def)
  next
    case 2
    then show ?thesis
      using assms init_stack_buffer_wf [OF assms(1)]
      by (auto simp: dynptr_helper_call_def rbind_Ok_iff Let_def split: reg_state.splits)
  next
    case 3
    then show ?thesis
      using assms by (auto simp: dynptr_helper_call_def rbind_Ok_iff Let_def split: reg_state.splits)
  next
    case 4
    then obtain i p sz where "s' = set_reg next 0 (PtrToMemOrNull i p sz)"
      using assms by (auto simp: dynptr_helper_call_def rbind_Ok_iff Let_def set_reg_def)
    then show ?thesis using assms(1) by (simp add: exec_wf_intros)
  qed
qed

section \<open>Calls\<close>

lemma reg_ok_prototypes:
  "helper_prototype h = Some p \<Longrightarrow> reg_ok k (hreturn p)"
  "kfunc_prototype b = Some q \<Longrightarrow> reg_ok k (kreturn q)"
  by (auto simp: helper_prototype_def kfunc_prototype_def split: if_splits)

lemma helper_effect_wf:
  assumes "exec_wf s" "helper_effect pc h proto s = Ok s'" "\<And>k. reg_ok k (hreturn proto)"
  shows "exec_wf s' \<and> curframe s' = curframe s"
proof -
  consider (acq) "helper_acquires_ref h" | (dyn) "\<not> helper_acquires_ref h" "h \<in> {197, 201, 202, 203}"
    | (rel) "\<not> helper_acquires_ref h" "h \<notin> {197, 201, 202, 203}" "helper_releases_ref h"
    | (plain) "s' = set_r0 (hreturn proto) s"
    using assms(2) by (auto simp: helper_effect_def split: if_splits)
  then show ?thesis
  proof cases
    case acq
    then show ?thesis
      using assms(2) push_ref_wf [OF assms(1)] by (auto simp: helper_effect_def rbind_Ok_iff Let_def intro!: exec_wf_intros)
  next
    case dyn
    then obtain t where "dynptr_helper_call pc h s s = Ok t" "s' = (if h = 203 then t else set_r0 (hreturn proto) t)"
      using assms(2) unfolding helper_effect_def by (auto simp: rbind_Ok_iff)
    then show ?thesis
      using dynptr_helper_call_wf [OF assms(1)] assms(3) by (auto intro!: exec_wf_intros)
  next
    case rel
    then obtain t i where "release_ref pc i s = Ok t" "s' = set_r0 (hreturn proto) t"
      using assms(2) unfolding helper_effect_def
      by (auto simp: rbind_Ok_iff split: reg_state.splits if_splits)
    then show ?thesis
      using release_ref_wf [OF assms(1)] assms(3) by (auto intro!: exec_wf_intros)
  next
    case plain
    then show ?thesis using assms(1,3) by (auto intro!: exec_wf_intros)
  qed
qed

lemma helper_call_wf:
  assumes "exec_wf s" "helper_call pc s h = Ok s'"
  shows "exec_wf s' \<and> curframe s' = curframe s"
proof -
  obtain proto t where p: "helper_prototype h = Some proto" and t: "helper_effect pc h proto s = Ok t"
    and s': "s' = clobber_scratch t \<or> (\<exists>vs. s' = set_r0 (PtrToMapValueOrNull vs (pc + 1)) (clobber_scratch t))"
    using assms(2)
    by (auto simp: helper_call_def rbind_Ok_iff Let_def split: option.splits if_splits reg_state.splits)
  have "exec_wf t \<and> curframe t = curframe s"
    using helper_effect_wf [OF assms(1) t] reg_ok_prototypes(1) [OF p] by blast
  then show ?thesis using s' by (auto intro!: exec_wf_intros)
qed

lemma kfunc_call_wf:
  assumes "exec_wf s" "kfunc_call pc b s = Ok s'"
  shows "exec_wf s' \<and> curframe s' = curframe s"
proof -
  obtain proto t where p: "kfunc_prototype b = Some proto" and t: "kfunc_effect pc proto s = Ok t"
    and s': "s' = clobber_scratch t"
    using assms(2) by (auto simp: kfunc_call_def rbind_Ok_iff split: option.splits)
  have "exec_wf t \<and> curframe t = curframe s"
    using t push_ref_wf [OF assms(1)] release_ref_wf [OF assms(1)] assms(1) reg_ok_prototypes(2) [OF p]
    by (auto simp: kfunc_effect_def rbind_Ok_iff Let_def intro!: exec_wf_intros split: if_splits reg_state.splits)
  then show ?thesis using s' by (auto intro!: exec_wf_intros)
qed

end
