(* ===== verification/Step_Wf.thy ===== *)
theory Step_Wf
  imports Call_Wf
begin

text \<open>
  Every instruction keeps the invariant of the executor, and in a state that has it the executor
  returns states or an error message, never a panic, on what the decoder produces: the exceptions are
  stated as \<open>panic_free\<close>.
\<close>

section \<open>Arithmetic\<close>

lemma alu_imm_wf:
  assumes "exec_wf s" "alu_imm pc s dst imm op w = Ok s'"
  shows "exec_wf s' \<and> curframe s' = curframe s"
proof -
  obtain d where d: "read_reg pc s dst = Ok d" "reg_ok (unat (curframe s)) d"
    using assms exec_wf_read [OF assms(1)] by (auto simp: alu_imm_def rbind_Ok_iff split: if_splits)
  have "\<exists>v. s' = set_reg s dst v \<and> reg_ok (unat (curframe s)) v"
    using assms(2) d by (cases d) (auto simp: alu_imm_def rbind_Ok_iff Let_def split: if_splits)
  then show ?thesis using assms(1) by (auto intro!: exec_wf_intros)
qed

lemma add_scalar_wf:
  "add_scalar_to_stack_ptr pc dst mn mx al f b s = Ok s' \<Longrightarrow> unat f \<le> k \<Longrightarrow> \<exists>v. s' = set_reg s dst v \<and> reg_ok k v"
  "add_scalar_to_map_value_ptr pc dst ptr b s = Ok s' \<Longrightarrow> \<exists>v. s' = set_reg s dst v \<and> reg_ok k v"
  "ctx_plus pc dst off add b s = Ok s' \<Longrightarrow> \<exists>v. s' = set_reg s dst v \<and> reg_ok k v"
  "alu_scalars pc s dst src op w d = Ok s' \<Longrightarrow> scalar_wf d \<and> \<not> precise d \<Longrightarrow> \<exists>v. s' = set_reg s dst v \<and> reg_ok k v"
  by (auto simp: add_scalar_to_stack_ptr_def add_scalar_to_map_value_ptr_def ctx_plus_def alu_scalars_def
      rbind_Ok_iff Let_def split: reg_state.splits if_splits)

lemma alu_reg_wf:
  assumes "exec_wf s" "alu_reg pc s dst src op w = Ok s'"
  shows "exec_wf s' \<and> curframe s' = curframe s"
proof -
  let ?k = "unat (curframe s)"
  obtain d where d: "read_reg pc s dst = Ok d" "reg_ok ?k d"
    using assms exec_wf_read [OF assms(1)] by (auto simp: alu_reg_def rbind_Ok_iff)
  have src: "reg_ok ?k v" if "read_reg pc s src = Ok v" for v
    using exec_wf_read [OF assms(1) that] .
  have "\<exists>v. s' = set_reg s dst v \<and> reg_ok ?k v"
  proof (cases d)
    case (Scalar b)
    then have b: "scalar_wf b" "\<not> precise b" using d(2) by simp_all
    show ?thesis
    proof (cases "op = Alu_Add \<and> w = W64")
      case True
      then obtain v where v: "read_reg pc s src = Ok v" "reg_ok ?k v"
        using assms(2) d(1) Scalar src by (auto simp: alu_reg_def rbind_Ok_iff)
      show ?thesis
        using assms(2) d(1) Scalar True v b
        by (cases v) (auto simp: alu_reg_def rbind_Ok_iff dest: add_scalar_wf)
    next
      case False
      then have "alu_scalars pc s dst src op w b = Ok s'"
        using assms(2) d(1) Scalar by (auto simp: alu_reg_def rbind_Ok_iff)
      then show ?thesis using add_scalar_wf(4) b by blast
    qed
  qed (use assms(2) d in \<open>auto simp: alu_reg_def rbind_Ok_iff split: if_splits dest: add_scalar_wf\<close>)
  then show ?thesis using assms(1) by (auto intro!: exec_wf_intros)
qed

lemma mul_imm_wf:
  assumes "exec_wf s" "mul_imm pc s dst imm high = Ok s'"
  shows "exec_wf s' \<and> curframe s' = curframe s"
proof (cases "high = Mul_Low")
  case False
  then obtain d where "read_reg pc s dst = Ok d" using assms(2) by (auto simp: mul_imm_def rbind_Ok_iff)
  then show ?thesis
    using assms False by (cases d) (auto simp: mul_imm_def rbind_Ok_iff intro!: exec_wf_intros)
qed (use assms alu_imm_wf in \<open>simp add: mul_imm_def\<close>)

lemma mul_reg_wf:
  assumes "exec_wf s" "mul_reg pc s dst src high = Ok s'"
  shows "exec_wf s' \<and> curframe s' = curframe s"
proof (cases "high = Mul_Low")
  case False
  then obtain d v where "read_reg pc s dst = Ok d" "read_reg pc s src = Ok v"
    using assms(2) by (auto simp: mul_reg_def rbind_Ok_iff)
  then show ?thesis
    using assms False by (cases d; cases v) (auto simp: mul_reg_def rbind_Ok_iff intro!: exec_wf_intros)
qed (use assms alu_reg_wf in \<open>simp add: mul_reg_def\<close>)

lemma alu_neg_wf:
  assumes "exec_wf s" "alu_neg pc s dst w = Ok s'"
  shows "exec_wf s' \<and> curframe s' = curframe s"
proof -
  obtain d where "read_reg pc s dst = Ok d" using assms(2) by (auto simp: alu_neg_def rbind_Ok_iff)
  then show ?thesis
    using assms by (cases d) (auto simp: alu_neg_def rbind_Ok_iff intro!: exec_wf_intros)
qed

section \<open>Moves, atomics, loads\<close>

lemma mov_reg_wf:
  assumes "exec_wf s" "mov_reg pc s dst src = Ok s'"
  shows "exec_wf s' \<and> curframe s' = curframe s"
proof -
  obtain v where v: "read_reg pc s src = Ok v" "reg_ok (unat (curframe s)) v"
    using assms exec_wf_read [OF assms(1)] by (auto simp: mov_reg_def rbind_Ok_iff)
  show ?thesis
    using assms v by (cases v) (auto simp: mov_reg_def rbind_Ok_iff Let_def intro!: exec_wf_intros split: if_splits)
qed

lemma packet_load_wf: "exec_wf s \<Longrightarrow> exec_wf (packet_load sz s) \<and> curframe (packet_load sz s) = curframe s"
  by (simp add: packet_load_def exec_wf_intros)

lemma stack_ok_forget: "stack_ok k st \<Longrightarrow> stack_ok k (forget_bytes lo hi st)"
  by (auto simp: forget_bytes_def stack_ok_def stack_wf_def simp del: upt_Suc dest: set_fold_clear)

lemma store_old_wf:
  "exec_wf s \<Longrightarrow> reg_ok (unat (curframe s)) v \<Longrightarrow>
   exec_wf (store_old op fetch src v s) \<and> curframe (store_old op fetch src v s) = curframe s"
  by (simp add: store_old_def exec_wf_intros)

lemma atomic_stack_wf:
  assumes "exec_wf s" "atomic_stack pc dst s off sz mn mx al f = Ok (old, s')"
  shows "exec_wf s' \<and> curframe s' = curframe s \<and> reg_ok (unat (curframe s)) old"
proof -
  obtain v lo hi where v: "stack_read pc dst s off sz False = Ok v"
    and s': "s' = s\<lparr>stack := forget_bytes lo hi (stack s)\<rparr>"
    and old: "old = (if mem_bytes sz = 8 then v else Scalar (scalar_for_width (of_nat (mem_bytes sz)) False))"
    using assms(2)
    by (auto simp: atomic_stack_def Let_def rbind_Ok_iff simp del: upt_Suc split: if_splits prod.splits)
  have "stack_ok (unat (curframe s)) (forget_bytes lo hi (stack s))"
    using assms(1) by (simp add: exec_wf_def stack_ok_forget)
  then show ?thesis
    using assms(1) stack_read_ok [OF assms(1) v] by (auto simp: s' old intro!: exec_wf_intros)
qed

lemma atomic_step_wf:
  assumes "exec_wf s" "atomic_step pc s dst src off sz op fetch = Ok s'"
  shows "exec_wf s' \<and> curframe s' = curframe s"
proof -
  obtain b where b: "read_reg pc s dst = Ok b"
    using assms(2) by (auto simp: atomic_step_def rbind_Ok_iff)
  show ?thesis
  proof (cases b)
    case (PtrToStack mn mx al f)
    then obtain old t where "atomic_stack pc dst s off sz mn mx al f = Ok (old, t)" "s' = store_old op fetch src old t"
      using assms(2) b by (auto simp: atomic_step_def rbind_Ok_iff split: if_splits prod.splits)
    then show ?thesis using atomic_stack_wf [OF assms(1)] store_old_wf by metis
  next
    case (PtrToMapValue mn mx al vs i)
    then have "s' = store_old op fetch src (Scalar (scalar_for_width (of_nat (mem_bytes sz)) False)) s"
      using assms(2) b by (auto simp: atomic_step_def rbind_Ok_iff split: if_splits)
    then show ?thesis using store_old_wf [OF assms(1)] by simp
  qed (use assms(2) b in \<open>auto simp: atomic_step_def rbind_Ok_iff split: if_splits\<close>)
qed

lemma ctx_read_ok: "ctx_read pc pt off sz se = Ok v \<Longrightarrow> reg_ok k v"
proof (cases "ctx_read_access pt off (of_nat (mem_bytes sz))")
  case (Inl e)
  then show "ctx_read pc pt off sz se = Ok v \<Longrightarrow> ?thesis" by (cases e) (simp_all add: ctx_read_def Let_def)
next
  case (Inr a)
  then show "ctx_read pc pt off sz se = Ok v \<Longrightarrow> ?thesis" by (cases a) (auto simp: ctx_read_def Let_def)
qed

lemma load_step_wf:
  assumes "exec_wf s" "load_step pc s dst base off sz se = Ok s'"
  shows "exec_wf s' \<and> curframe s' = curframe s"
proof -
  obtain v where s': "s' = set_reg s dst v"
    and v: "(\<exists>o'. ctx_read pc (vprog_type s) o' sz se = Ok v) \<or> stack_read pc base s off sz se = Ok v"
    using assms(2) by (auto simp: load_step_def rbind_Ok_iff split: if_splits reg_state.splits)
  have "reg_ok (unat (curframe s)) v"
    using v stack_read_ok [OF assms(1)] ctx_read_ok by blast
  then show ?thesis using assms(1) by (simp add: s' exec_wf_intros)
qed

section \<open>Subprogram calls and returns\<close>

lemma callee_regs_ok:
  assumes "regs_ok k rs" "unat d = Suc k"
  shows "regs_ok (Suc k) (callee_regs rs d)"
proof -
  have arg: "reg_ok (Suc k) (rs ! i)" if "i < NUM_REGS" for i
    using regs_ok_nth [OF assms(1) that] reg_ok_mono by fastforce
  have "callee_regs rs d = initial_reg_state[1 := rs ! 1, 2 := rs ! 2, 3 := rs ! 3, 4 := rs ! 4, 5 := rs ! 5,
      10 := PtrToStack 0 0 0 d]"
    by (simp add: callee_regs_def frame_new_def initial_reg_state_def Let_def set_frameno_def)
  then show ?thesis
    using arg assms(2) by (simp add: regs_ok_update regs_ok_initial)
qed

lemma call_subprog_wf:
  assumes "exec_wf s" "call_subprog rp s = Ok s'"
  shows "exec_wf s'"
proof -
  let ?c = "unat (curframe s)"
  let ?fr = "\<lparr>fr_regs = regs s, fr_stack = stack s, fr_ret_pc = ret_pc s\<rparr>"
  have c: "?c < MAX_CALL_FRAMES - 1" "unat (curframe s + 1) = Suc ?c"
    and s': "s' = s\<lparr>saved := (saved s)[?c := Some ?fr], curframe := curframe s + 1,
        regs := callee_regs (regs s) (curframe s + 1), stack := stack_new, ret_pc := rp\<rparr>"
    using assms(2) unat_succ8 [of "curframe s"] by (simp_all add: call_subprog_Ok_iff)
  have fr: "frame_ok ?c ?fr" using assms(1) by (simp add: frame_ok_def exec_wf_def)
  have old: "saved s ! i = None \<and> ?c \<le> i \<or> (\<exists>f. saved s ! i = Some f \<and> frame_ok i f \<and> i < ?c)"
    if "i < MAX_CALL_FRAMES - 1" for i
    using assms(1) that unfolding exec_wf_def saved_ok_def by blast
  have "saved_ok s'"
    unfolding saved_ok_def
  proof (intro conjI allI impI)
    show "length (saved s') = MAX_CALL_FRAMES - 1" "unat (curframe s') < MAX_CALL_FRAMES"
      using assms(1) c by (simp_all add: s' exec_wf_def saved_ok_def)
    fix i assume i: "i < MAX_CALL_FRAMES - 1"
    show "saved s' ! i = None \<and> unat (curframe s') \<le> i \<or>
        (\<exists>f. saved s' ! i = Some f \<and> frame_ok i f \<and> i < unat (curframe s'))"
      using old [OF i] i c fr assms(1)
      by (cases "i = ?c") (auto simp: s' nth_list_update exec_wf_def saved_ok_def)
  qed
  moreover have "regs_ok (Suc ?c) (callee_regs (regs s) (curframe s + 1))"
    using assms(1) c(2) by (intro callee_regs_ok) (simp_all add: exec_wf_def)
  ultimately show ?thesis
    using assms(1) c stack_ok_new by (simp add: exec_wf_def s' refs_ok_def active_refs_def)
qed

text \<open>A return needs a result that does not point into the frame it leaves.\<close>

lemma return_from_subprog_wf:
  assumes "exec_wf s" "return_from_subprog s = Some s'" "reg_ok (unat (curframe s) - 1) (regs s ! 0)"
  shows "exec_wf s'"
proof -
  let ?c = "unat (curframe s)"
  obtain caller where caller: "curframe s \<noteq> 0" "saved s ! (?c - 1) = Some caller"
    and s': "s' = s\<lparr>curframe := curframe s - 1, saved := (saved s)[?c - 1 := None],
            ret_pc := fr_ret_pc caller, regs := clobber_args (fr_regs caller) (regs s ! 0),
            stack := fr_stack caller\<rparr>"
    using assms(2) by (auto simp: return_from_subprog_Some_iff)
  have pos: "0 < ?c" and c: "unat (curframe s - 1) = ?c - 1" using caller(1) by (simp_all add: unat_gt_0 unat_pred8)
  have fr: "frame_ok (?c - 1) caller"
    using saved_ok_frame [of s "?c - 1"] assms(1) caller(2) pos by (auto simp: exec_wf_def)
  have old: "saved s ! i = None \<and> ?c \<le> i \<or> (\<exists>f. saved s ! i = Some f \<and> frame_ok i f \<and> i < ?c)"
    if "i < MAX_CALL_FRAMES - 1" for i
    using assms(1) that unfolding exec_wf_def saved_ok_def by blast
  have lens: "length (saved s) = MAX_CALL_FRAMES - 1" "?c < MAX_CALL_FRAMES"
    using assms(1) by (simp_all add: exec_wf_def saved_ok_def)
  have "saved_ok s'"
    unfolding saved_ok_def
  proof (intro conjI allI impI)
    show "length (saved s') = MAX_CALL_FRAMES - 1" "unat (curframe s') < MAX_CALL_FRAMES"
      using lens c by (simp_all add: s')
    fix i assume i: "i < MAX_CALL_FRAMES - 1"
    show "saved s' ! i = None \<and> unat (curframe s') \<le> i \<or>
        (\<exists>f. saved s' ! i = Some f \<and> frame_ok i f \<and> i < unat (curframe s'))"
      using old [OF i] i c lens by (cases "i = ?c - 1") (auto simp: s' nth_list_update)
  qed
  moreover have "regs_ok (?c - 1) (clobber_args (fr_regs caller) (regs s ! 0))"
    using fr assms(3) by (simp add: clobber_args_def frame_ok_def regs_ok_update)
  ultimately show ?thesis
    using assms(1) fr c by (simp add: exec_wf_def s' refs_ok_def active_refs_def frame_ok_def)
qed

section \<open>Instructions\<close>

lemma step_wf:
  assumes wf: "exec_wf s" and r: "step pc s insn = Ok s'"
  shows "exec_wf s'"
proof (cases insn)
  case (CallSub off)
  then show ?thesis using r call_subprog_wf [OF wf] by (auto simp: step_def split: sum.splits)
qed (use wf r stack_write_wf [OF wf] alu_imm_wf [OF wf] alu_reg_wf [OF wf] mul_imm_wf [OF wf] mul_reg_wf [OF wf] alu_neg_wf [OF wf] mov_reg_wf [OF wf]
    packet_load_wf [OF wf] atomic_step_wf [OF wf] load_step_wf [OF wf] helper_call_wf [OF wf] kfunc_call_wf [OF wf]
  in \<open>auto simp: step_def rbind_Ok_iff intro!: exec_wf_set_reg\<close>)

section \<open>Branches\<close>

lemma exec_wf_forget_ref [exec_wf_intros]: "exec_wf s \<Longrightarrow> exec_wf (forget_ref i s)"
  using exec_wf_drop_ref by (auto simp: forget_ref_def split: option.splits)

lemma exec_wf_refined_side:
  assumes "exec_wf s" "scalar_wf (fst new)" "scalar_wf (snd new)" "\<not> precise (fst new)" "\<not> precise (snd new)"
  shows "exec_wf (refined_side s dst src d b new)"
  using assms by (cases src) (simp_all add: refined_side_def Let_def exec_wf_intros)

lemma cond_scalars_wf:
  assumes "exec_wf s" "reg_ok k (Scalar d)" "reg_ok k (Scalar b)" "(p, s') \<in> set (cond_scalars pc dst src d b off op s)"
  shows "exec_wf s'"
proof -
  obtain td tb fd fb where r: "refine_cmp op d b = ((td, tb), (fd, fb))" by (metis surj_pair)
  then have "s' = refined_side s dst src d b (td, tb) \<or> s' = refined_side s dst src d b (fd, fb)"
    using assms(4) by (auto simp: cond_scalars_def Let_def split: if_splits)
  then show ?thesis
    using scalar_wf_refine [OF _ _ r] imprecise_refine [OF _ _ r] exec_wf_refined_side [OF assms(1)] assms(2,3) by auto
qed

lemma pointer_vs_scalar_wf:
  assumes "exec_wf s" "pointer_vs_scalar pc dst src ptr v b off op s = Ok succs" "(p, s') \<in> set succs"
  shows "exec_wf s'"
proof -
  consider "s' = s"
    | r i where "s' = set_reg (map_frame (null_map_value i) s) r (Scalar (scalar_constant 0))"
    | r vs i where "s' = set_reg (map_frame (valid_map_value i) s) r (PtrToMapValue 0 0 0 vs i)"
    | r i where "s' = set_reg (map_frame (null_mem i) (forget_ref i s)) r (Scalar (scalar_constant 0))"
    | r i where "s' = set_reg (map_frame (valid_mem i) s) r (PtrToMem 0 0 0 i 0)"
    using assms(2,3)
    by (cases v) (auto simp: pointer_vs_scalar_def both_sides_def null_check_value_def null_check_mem_def
        null_sides_def split: if_splits option.splits)
  then show ?thesis using assms(1) by cases (auto intro!: exec_wf_intros)
qed

lemma cond_branch_impl_wf:
  assumes "exec_wf s" "reg_ok (unat (curframe s)) w" "cond_branch_impl pc dst src w off op s = Ok succs"
    "(p, s') \<in> set succs"
  shows "exec_wf s'"
proof -
  obtain v where v: "read_reg pc s dst = Ok v" "reg_ok (unat (curframe s)) v"
    using assms(3) exec_wf_read [OF assms(1)] by (auto simp: cond_branch_impl_def rbind_Ok_iff)
  have same: "s' = s" if "(\<nexists>d. v = Scalar d)" "(\<nexists>d. w = Scalar d)"
    using that assms(3,4) v(1)
    by (cases v; cases w) (auto simp: cond_branch_impl_def both_sides_def split: if_splits)
  consider (ss) d b where "v = Scalar d" "w = Scalar b" | (sp) d where "v = Scalar d" "\<nexists>b. w = Scalar b"
    | (ps) b where "w = Scalar b" "\<nexists>d. v = Scalar d" | (pp) "\<nexists>d. v = Scalar d" "\<nexists>b. w = Scalar b"
    by blast
  then show ?thesis
  proof cases
    case ss
    then show ?thesis
      using assms v cond_scalars_wf [OF assms(1)] by (auto simp: cond_branch_impl_def)
  next
    case sp
    then have "pointer_vs_scalar pc dst src src w d off op s = Ok succs"
      using assms(3) v(1) by (cases w) (simp_all add: cond_branch_impl_def)
    then show ?thesis using pointer_vs_scalar_wf [OF assms(1) _ assms(4)] by blast
  next
    case ps
    then have "pointer_vs_scalar pc dst src (Some dst) v b off op s = Ok succs"
      using assms(3) v(1) by (cases v) (simp_all add: cond_branch_impl_def)
    then show ?thesis using pointer_vs_scalar_wf [OF assms(1) _ assms(4)] by blast
  next
    case pp
    then show ?thesis using same assms(1) by simp
  qed
qed

lemma cond_branch_wf:
  assumes "exec_wf s" "cond_branch pc dst src off op s = Ok succs" "(p, s') \<in> set succs"
  shows "exec_wf s'"
proof -
  have "s' = s \<or> (\<exists>v. read_reg pc s src = Ok v \<and> cond_branch_impl pc dst (Some src) v off op s = Ok succs)"
    using assms(2,3) by (auto simp: cond_branch_def rbind_Ok_iff split: if_splits)
  then show ?thesis
    using assms(1,3) cond_branch_impl_wf [OF assms(1)] exec_wf_read [OF assms(1)] by blast
qed

lemma exec_successors_keep:
  assumes wf: "exec_wf s" and r: "exec_successors pc insn s = Ok succs" and mem: "(p, s') \<in> set succs"
  shows "exec_wf s'"
proof -
  have both: "s' = s" if "(p, s') \<in> set (branch_or_both pc off t s)" for off t
    using that by (auto simp: branch_or_both_def both_sides_def split: option.splits bool.splits)
  have jset: "exec_wf (jset_not_taken dst imm s)" for dst imm
  proof (cases "unat dst < NUM_REGS")
    case True
    then have "reg_ok (unat (curframe s)) (regs s ! unat dst)"
      using wf regs_ok_nth by (simp add: exec_wf_def)
    then show ?thesis
      using wf by (cases "regs s ! unat dst") (simp_all add: jset_not_taken_def exec_wf_intros)
  next
    case False
    then have "set_reg s dst v = s" for v
      using wf by (simp add: set_reg_def exec_wf_def regs_ok_def list_update_beyond)
    then show ?thesis using wf by (simp add: jset_not_taken_def split: reg_state.split)
  qed
  show ?thesis
  proof (cases insn)
    case (CondReg op dst src off)
    then show ?thesis using r mem cond_branch_wf [OF wf] by (simp add: exec_successors_def)
  next
    case (CondImm op dst imm off)
    then show ?thesis
      using r mem cond_branch_impl_wf [OF wf, of "Scalar (scalar_constant (scast imm))"]
      by (simp add: exec_successors_def cond_branch_imm_def)
  next
    case (CallSub off)
    then show ?thesis
      using r mem call_subprog_wf [OF wf] by (auto simp: exec_successors_def split: sum.splits)
  next
    case (JsetImm dst imm off)
    then show ?thesis
      using r mem jset wf
      by (auto simp: exec_successors_def jset_imm_branch_def rbind_Ok_iff dest!: both split: option.splits)
  qed (use r mem wf step_wf [OF wf] in \<open>auto simp: exec_successors_def jmp32_branch_def rbind_Ok_iff dest!: both\<close>)
qed

end
