(* ===== verification/Panic_Free.thy ===== *)
theory Panic_Free
  imports Step_Wf
begin

text \<open>
  The executor returns states or an error message: in a state with its invariant no index is out of
  range and no unreachable branch is reached, apart from the cases \<open>panic_free\<close> excludes: accesses through
  stack pointers with an empty offset range and dynptr writes from outside the frame, which do panic, and
  two shapes of instructions the decoder never yields (a base register past \<open>r10\<close>, a compare without an
  operand).
\<close>

section \<open>Panics\<close>

abbreviation panics :: "(exec_error, 'a) res \<Rightarrow> bool" where
  "panics r \<equiv> r = Err Exec_Panic"

lemma panics_rbind [simp]:
  "panics (rbind m f) \<longleftrightarrow> panics m \<or> (\<exists>x. m = Ok x \<and> panics (f x))"
  by (cases m) simp_all

lemma panics_check [simp]:
  "\<not> panics (check_sane_addend pc k b)" "\<not> panics (check_sane_result_offset pc k v)"
  "\<not> panics (shifted_range pc k mn mx b)" "\<not> panics (add_scalar_to_stack_ptr pc dst mn mx al f b s)"
  "\<not> panics (ctx_plus pc dst co add b s)" "\<not> panics (alu_scalars pc s dst src op w d)"
  "\<not> panics (stack_access_check pc base o' mn mx al sz)" "\<not> panics (byte_walk pc o' st lo hi)"
  "\<not> panics (fixed_stack_read pc base o' st lo hi mo n se)" "\<not> panics (mem_access_check pc base o' mn mx sz)"
  "\<not> panics (check_legacy_packet_load pc s)"
  by (simp_all add: check_sane_addend_def check_sane_result_offset_def shifted_range_def
      add_scalar_to_stack_ptr_def ctx_plus_def alu_scalars_def stack_access_check_def byte_walk_def
      fixed_stack_read_def mem_access_check_def check_legacy_packet_load_def Let_def split: prod.splits
      option.splits reg_state.splits)

lemma panics_map_value [simp]: "panics (map_value_access_check pc base r off) \<longleftrightarrow> \<not> (\<exists>mn mx al vs i. r = PtrToMapValue mn mx al vs i)"
  by (cases r) (simp_all add: map_value_access_check_def Let_def)

lemma read_reg_not_Uninit: "read_reg pc s r = Ok v \<Longrightarrow> v \<noteq> Uninit"
  by (simp add: read_reg_Ok_iff)

lemma panics_alu_imm [simp]: "\<not> panics (alu_imm pc s dst imm op w)"
  by (auto simp: alu_imm_def Let_def dest: read_reg_not_Uninit split: reg_state.splits)

lemma panics_map_value_ptr [simp]:
  "panics (add_scalar_to_map_value_ptr pc dst r b s) \<longleftrightarrow> \<not> (\<exists>mn mx al vs i. r = PtrToMapValue mn mx al vs i)"
  by (cases r) (simp_all add: add_scalar_to_map_value_ptr_def split: prod.splits)

lemma panics_alu_reg [simp]: "\<not> panics (alu_reg pc s dst src op w)"
  by (auto simp: alu_reg_def split: reg_state.splits if_splits)

lemma panics_mul [simp]: "\<not> panics (mul_imm pc s dst imm high)" "\<not> panics (mul_reg pc s dst src high)" "\<not> panics (alu_neg pc s dst w)"
  by (auto simp: mul_imm_def mul_reg_def alu_neg_def split: reg_state.splits)

lemma panics_ctx_read [simp]: "\<not> panics (ctx_read pc pt off sz se)"
proof (cases "ctx_read_access pt off (of_nat (mem_bytes sz))")
  case (Inl e)
  then show ?thesis by (cases e) (simp_all add: ctx_read_def Let_def)
next
  case (Inr a)
  then show ?thesis by (cases a) (simp_all add: ctx_read_def Let_def)
qed

section \<open>The stack\<close>

text \<open>
  A pointer with an empty offset range, which only a branch that cannot be taken produces, escapes the
  bounds check.
\<close>

definition pointer_nonempty :: "reg_state \<Rightarrow> bool" where
  "pointer_nonempty r = (case r of PtrToStack mn mx al f \<Rightarrow> sint mn \<le> sint mx | _ \<Rightarrow> True)"

lemma variable_read_no_panic:
  "list_all (\<lambda>i. i < STACK_SIZE) is \<Longrightarrow> \<not> panics (variable_stack_read pc base o' mn mx st is)"
  by (induction "is") simp_all

lemma frame_stack_no_panic:
  "exec_wf s \<Longrightarrow> unat f \<le> unat (curframe s) \<Longrightarrow> \<not> panics (frame_stack s f)"
  by (metis frame_stack_Ok sum.distinct(1))

lemma access_range:
  assumes "stack_access_check pc base off mn mx al (int (mem_bytes sz)) = Ok (lo, hi)" "sint mn \<le> sint mx"
  shows "lo \<le> hi \<and> hi < STACK_SIZE"
proof -
  have "0 < int (mem_bytes sz)" by (cases sz) simp_all
  then show ?thesis using stack_access_check_Ok [OF assms(1)] assms(2) by blast
qed

lemma stack_read_no_panic:
  assumes wf: "exec_wf s" and ne: "pointer_nonempty (regs s ! unat base)"
  shows "\<not> panics (stack_read pc base s off sz se)"
proof
  assume p: "panics (stack_read pc base s off sz se)"
  then obtain bs where bs: "read_reg pc s base = Ok bs" "reg_ok (unat (curframe s)) bs"
    using exec_wf_read [OF wf] by (auto simp: stack_read_def)
  show False
  proof (cases bs)
    case (PtrToStack mn mx al f)
    obtain lo hi where c: "stack_access_check pc base off mn mx al (int (mem_bytes sz)) = Ok (lo, hi)"
      using p bs PtrToStack by (auto simp: stack_read_def)
    have "sint mn \<le> sint mx" using ne bs(1) PtrToStack by (simp add: read_reg_Ok_iff pointer_nonempty_def)
    then have hi: "hi < STACK_SIZE" using access_range [OF c] by simp
    obtain st where "frame_stack s f = Ok st"
      using frame_stack_Ok [OF wf, of f] bs(2) PtrToStack by auto
    then have "panics (variable_stack_read pc base off mn mx st [lo..<Suc hi])"
      using p bs(1) PtrToStack c by (auto simp: stack_read_def simp del: upt_Suc split: if_splits)
    then show False using variable_read_no_panic hi by (simp add: list_all_iff del: upt_Suc)
  qed (use p bs(1) in \<open>auto simp: stack_read_def\<close>)
qed

lemma corrupt_spill_no_panic [simp]: "\<not> panics (check_corrupt_spill pc base off st slots)"
  by (induction slots) (simp_all split: option.splits reg_state.splits)

lemma stored_value_no_panic [simp]:
  "src \<noteq> None \<or> imm \<noteq> None \<Longrightarrow> \<not> panics (stored_value pc s src imm)"
  by (cases src; cases imm) (simp_all add: stored_value_def)

lemma memory_store_no_panic [simp]:
  assumes "src \<noteq> None \<or> imm \<noteq> None"
  shows "\<not> panics (memory_store_scalar pc s src imm kind)"
proof -
  have "\<not> panics (case v of Scalar b \<Rightarrow> Ok () | _ \<Rightarrow> if kind = ''map value'' then Ok ()
      else fail pc (Access (Store_Pointer kind)))" for v
    by (cases v) simp_all
  then show ?thesis using assms by (simp add: memory_store_scalar_def)
qed

lemma stack_store_no_panic:
  assumes wf: "exec_wf s" and f: "unat f \<le> unat (curframe s)" and hi: "hi < STACK_SIZE"
    and src: "src \<noteq> None \<or> imm \<noteq> None"
  shows "\<not> panics (stack_store pc base s off sz src imm mn mx f (lo, hi))"
proof -
  obtain st0 where st0: "frame_stack s f = Ok st0" "stack_ok (unat f) st0"
    using frame_stack_Ok [OF wf f] .
  obtain st1 destroyed where st1: "fold destroy_dynptr [lo div 8..<Suc (hi div 8)] (st0, None) = (st1, destroyed)"
    by fastforce
  let ?s1 = "put_frame_stack s f st1"
  have wf1: "exec_wf ?s1"
    using stack_ok_destroy_all [of "unat f" "(st0, None)"] st0(2) st1 wf f
    by (metis exec_wf_put_frame_stack fst_conv)
  have wf1': "exec_wf (?s1\<lparr>regs := map (kill_slice d) (regs ?s1)\<rparr>)" for d
    using wf1 by (intro exec_wf_regs regs_ok_map) (auto simp: exec_wf_def)
  have "\<not> panics (destroy_slices f d ?s1)" for d
    using frame_stack_no_panic [OF wf1', of f d] f by (simp add: destroy_slices_def Let_def)
  then have p2: "\<not> panics (case destroyed of None \<Rightarrow> Ok ?s1 | Some d \<Rightarrow> destroy_slices f d ?s1)"
    by (cases destroyed) simp_all
  have "\<not> panics (frame_stack s2 f)"
    if "(case destroyed of None \<Rightarrow> Ok ?s1 | Some d \<Rightarrow> destroy_slices f d ?s1) = Ok s2" for s2
  proof -
    have "exec_wf s2 \<and> curframe s2 = curframe s"
      using that wf1 f exec_wf_destroy_slices [OF wf1, of f _ s2] by (cases destroyed) auto
    then show ?thesis using frame_stack_no_panic [of s2 f] f by simp
  qed
  then show ?thesis
    using p2 hi src by (auto simp: stack_store_def st0(1) st1 Let_def simp del: upt_Suc split: if_splits)
qed

lemma stack_write_no_panic:
  assumes wf: "exec_wf s" and ne: "pointer_nonempty (regs s ! unat base)" and src: "src \<noteq> None \<or> imm \<noteq> None"
  shows "\<not> panics (stack_write pc base s off sz src imm)"
proof
  assume p: "panics (stack_write pc base s off sz src imm)"
  then obtain bs where bs: "read_reg pc s base = Ok bs" "reg_ok (unat (curframe s)) bs"
    using exec_wf_read [OF wf] by (auto simp: stack_write_def)
  show False
  proof (cases bs)
    case (PtrToStack mn mx al f)
    obtain lo hi where c: "stack_access_check pc base off mn mx al (int (mem_bytes sz)) = Ok (lo, hi)"
      and p': "panics (stack_store pc base s off sz src imm mn mx f (lo, hi))"
      using p bs(1) PtrToStack by (auto simp: stack_write_def)
    have "sint mn \<le> sint mx" using ne bs(1) PtrToStack by (simp add: read_reg_Ok_iff pointer_nonempty_def)
    then show False
      using access_range [OF c] stack_store_no_panic [OF wf _ _ src] bs(2) PtrToStack p' by auto
  qed (use p bs(1) src in \<open>auto simp: stack_write_def\<close>)
qed

lemma atomic_no_panic:
  assumes "exec_wf s" "pointer_nonempty (regs s ! unat dst)"
  shows "\<not> panics (atomic_step pc s dst src off sz op fetch)"
proof
  assume p: "panics (atomic_step pc s dst src off sz op fetch)"
  then obtain b where b: "read_reg pc s dst = Ok b" by (auto simp: atomic_step_def split: if_splits)
  have "\<not> panics (atomic_stack pc dst s off sz mn mx al f)" for mn mx al f
    using stack_read_no_panic [OF assms] by (auto simp: atomic_stack_def Let_def split: prod.splits)
  then show False
    using p b by (cases b) (auto simp: atomic_step_def split: if_splits prod.splits)
qed

section \<open>Calls\<close>

lemma panics_refs [simp]: "\<not> panics (push_ref pc s)" "\<not> panics (release_ref pc i s)"
  by (simp_all add: push_ref_def release_ref_def Let_def split: option.splits)

lemma panics_check_args [simp]: "\<not> panics (check_args_from i pc args s)"
  by (induction i pc args s rule: check_args_from.induct) auto

lemma panics_buffer_bytes [simp]: "\<not> panics (check_buffer_bytes pc reg off st is)"
  by (induction "is") simp_all

lemma panics_map_buffer [simp]: "\<not> panics (check_map_buffer pc s reg n what)"
  by (cases "regs s ! unat reg") (simp_all add: check_map_buffer_def)

lemma panics_map_args [simp]: "\<not> panics (check_map_helper_args pc h s)"
proof -
  have "\<not> panics (case v of Scalar b \<Rightarrow> Ok () | _ \<Rightarrow> fail pc (Argument Map_Flags))" for v
    by (cases v) simp_all
  then show ?thesis by (cases "regs s ! 1") (simp_all add: check_map_helper_args_def)
qed

lemma panics_dynptr_slot [simp]: "\<not> panics (dynptr_slot_of pc s reg n)"
  by (cases "regs s ! reg") (simp_all add: dynptr_slot_of_def Let_def option.case_eq_if)

lemma panics_init_buffer [simp]: "\<not> panics (init_stack_buffer pc s mn mx len)"
  by (simp add: init_stack_buffer_def Let_def split: prod.splits)

lemma bytes_readable_no_panic:
  "list_all (\<lambda>i. i < STACK_SIZE) is \<Longrightarrow> \<not> panics (check_bytes_readable pc mn st is)"
  by (induction "is") simp_all

text \<open>The buffer of the dynptr write helper is read without a bounds check of its own.\<close>

definition write_source_ok :: "verifier_state \<Rightarrow> bool" where
  "write_source_ok s =
     (case regs s ! 3 of PtrToStack mn mx al f \<Rightarrow> - 512 \<le> sint mn \<and> sint mn < 0 | _ \<Rightarrow> True)"

lemma dynptr_helper_no_panic:
  assumes "h \<in> {197, 201, 202, 203}" "h = 197 \<Longrightarrow> arg_matches Arg_PtrToDynptr (regs s ! 4)"
    and "h = 202 \<Longrightarrow> write_source_ok s"
  shows "\<not> panics (dynptr_helper_call pc h s next)"
proof -
  have "\<not> panics (dynptr_from_mem pc s next)" if "h = 197"
    using assms(2) [OF that]
    by (cases "regs s ! 4") (simp_all add: dynptr_from_mem_def arg_matches_def Let_def split: option.splits)
  moreover have "\<not> panics (check_stack_range_initialized pc next mn mx)"
    if "h = 202" "regs s ! 3 = PtrToStack mn mx' al f" for mn mx mx' al f
  proof -
    have r: "- 512 \<le> sint mn" "sint mn < 0" using assms(3) [OF that(1)] that(2) by (simp_all add: write_source_ok_def)
    then have "stack_byte_index (sint mn) = nat (- sint mn - 1)"
      by (simp add: stack_byte_index_def zmod_trivial_iff)
    then have "stack_byte_index (sint mn) < STACK_SIZE" using r by simp
    then show ?thesis
      unfolding check_stack_range_initialized_def
      by (intro bytes_readable_no_panic) (auto simp: list_all_iff simp del: upt_Suc)
  qed
  ultimately show ?thesis
    using assms(1) by (auto simp: dynptr_helper_call_def Let_def split: reg_state.splits prod.splits)
qed

lemma helper_call_no_panic:
  assumes "h = 202 \<Longrightarrow> write_source_ok s"
  shows "\<not> panics (helper_call pc s h)"
proof
  assume p: "panics (helper_call pc s h)"
  obtain proto where proto: "helper_prototype h = Some proto"
    using p by (auto simp: helper_call_def split: option.splits)
  have effect: "panics (helper_effect pc h proto s)"
    and args: "h \<noteq> 1 \<and> h \<noteq> 2 \<longrightarrow> check_helper_args pc proto s = Ok ()"
    using p by (auto simp: helper_call_def proto Let_def check_helper_args_def check_call_args_def
        split: if_splits reg_state.splits)
  have "\<not> panics (dynptr_helper_call pc h s s)" if "h \<in> {197, 201, 202, 203}"
  proof (rule dynptr_helper_no_panic [OF that])
    show "h = 202 \<Longrightarrow> write_source_ok s" by (rule assms)
    show "arg_matches Arg_PtrToDynptr (regs s ! 4)" if "h = 197"
    proof -
      have "hargs proto = [Arg_PtrToMapValue, Arg_Scalar, Arg_Scalar, Arg_PtrToDynptr]"
        using proto that by (auto simp: helper_prototype_def)
      moreover have "check_call_args pc (hargs proto) s = Ok ()"
        using args that by (simp add: check_helper_args_def)
      ultimately have "arg_matches ([Arg_PtrToMapValue, Arg_Scalar, Arg_Scalar, Arg_PtrToDynptr] ! 3) (regs s ! Suc 3)"
        using check_call_args_matches [of pc "[Arg_PtrToMapValue, Arg_Scalar, Arg_Scalar, Arg_PtrToDynptr]" s "()" 3]
        by (simp del: nth_Cons_numeral)
      then show ?thesis by simp
    qed
  qed
  then show False
    using effect by (auto simp: helper_effect_def Let_def split: if_splits reg_state.splits)
qed

lemma kfunc_call_no_panic [simp]: "\<not> panics (kfunc_call pc b s)"
  by (auto simp: kfunc_call_def kfunc_effect_def check_call_args_def Let_def split: option.splits if_splits reg_state.splits)

section \<open>Instructions and branches\<close>

definition panic_free :: "verifier_state \<Rightarrow> bpf_insn \<Rightarrow> bool" where
  "panic_free s insn =
     (case insn of
        LdMem dst base off sz se \<Rightarrow> unat base < NUM_REGS \<and> pointer_nonempty (regs s ! unat base)
      | StMem src base off sz \<Rightarrow> pointer_nonempty (regs s ! unat base)
      | StMemImm imm base off sz \<Rightarrow> pointer_nonempty (regs s ! unat base)
      | Atomic dst src off sz op fetch \<Rightarrow> pointer_nonempty (regs s ! unat dst)
      | Call h \<Rightarrow> h = 202 \<longrightarrow> write_source_ok s
      | Jmp32 dst src imm off op \<Rightarrow> src \<noteq> None \<or> imm \<noteq> None
      | _ \<Rightarrow> True)"

lemma load_step_no_panic:
  assumes "exec_wf s" "unat base < NUM_REGS" "pointer_nonempty (regs s ! unat base)"
  shows "\<not> panics (load_step pc s dst base off sz se)"
  using assms(2) stack_read_no_panic [OF assms(1,3)]
  by (auto simp: load_step_def split: reg_state.splits)

lemma pointer_vs_scalar_no_panic:
  assumes "ptr \<noteq> None" "v \<noteq> Uninit"
  shows "\<not> panics (pointer_vs_scalar pc dst src ptr v b off op s)"
  using assms by (cases v) (auto simp: pointer_vs_scalar_def null_check_value_def null_check_mem_def)

lemma cond_branch_impl_no_panic:
  assumes "src \<noteq> None \<or> (\<exists>b. w = Scalar b)" "w \<noteq> Uninit"
  shows "\<not> panics (cond_branch_impl pc dst src w off op s)"
proof
  assume p: "panics (cond_branch_impl pc dst src w off op s)"
  then obtain v where v: "read_reg pc s dst = Ok v" "v \<noteq> Uninit"
    by (auto simp: cond_branch_impl_def read_reg_Ok_iff)
  have some: "\<not> panics (pointer_vs_scalar pc dst src (Some dst) v b off op s)" for b
    using pointer_vs_scalar_no_panic v(2) by simp
  show False
  proof (cases "\<exists>b. w = Scalar b")
    case True
    then show False using p v some by (cases v) (auto simp: cond_branch_impl_def)
  next
    case False
    then have "\<not> panics (pointer_vs_scalar pc dst src src w d off op s)" for d
      using pointer_vs_scalar_no_panic assms by simp
    then show False
      using p v assms(2) False by (cases v; cases w) (auto simp: cond_branch_impl_def split: if_splits)
  qed
qed

lemma cond_branch_no_panic [simp]: "\<not> panics (cond_branch pc dst src off op s)"
  using cond_branch_impl_no_panic [of "Some src"]
  by (auto simp: cond_branch_def dest: read_reg_not_Uninit split: if_splits)

lemma exec_successors_no_panic:
  assumes wf: "exec_wf s" and ok: "panic_free s insn" and exit: "insn \<noteq> Exit"
  shows "\<not> panics (exec_successors pc insn s)"
proof (cases insn)
  case (CondImm op dst imm off)
  then show ?thesis
    using cond_branch_impl_no_panic [of None "Scalar (scalar_constant (scast imm))"]
    by (simp add: exec_successors_def cond_branch_imm_def)
qed (use ok stack_write_no_panic [OF wf] load_step_no_panic [OF wf] atomic_no_panic [OF wf] helper_call_no_panic [of _ s]
  in \<open>auto simp: exec_successors_def step_def panic_free_def mov_reg_def jset_imm_branch_def jmp32_branch_def
      split: sum.splits option.splits\<close>)

section \<open>Reached states\<close>

text \<open>
  The states the executor reaches from the start of a program of a given type: by the successors of an
  instruction, and by the return the exploration performs at the exit of a subprogram, which refuses a
  stack pointer as the result.
\<close>

inductive explored :: "prog_type \<Rightarrow> verifier_state \<Rightarrow> bool" for t where
  explored_start: "explored t (initial_with t)"
| explored_step: "explored t s \<Longrightarrow> exec_successors pc insn s = Ok succs \<Longrightarrow> (p, s') \<in> set succs \<Longrightarrow> explored t s'"
| explored_return:
    "explored t s \<Longrightarrow> (\<nexists>mn mx al f. regs s ! 0 = PtrToStack mn mx al f) \<Longrightarrow> return_from_subprog s = Some s' \<Longrightarrow>
     explored t s'"

lemma explored_wf: "explored t s \<Longrightarrow> exec_wf s"
proof (induction rule: explored.induct)
  case explored_start
  show ?case by (rule exec_wf_initial)
next
  case (explored_step s pc insn succs p s')
  then show ?case using exec_successors_keep by blast
next
  case (explored_return s s')
  have "reg_ok (unat (curframe s)) (regs s ! 0)"
    using explored_return.IH regs_ok_nth [of _ "regs s" 0] by (simp add: exec_wf_def)
  then have "reg_ok (unat (curframe s) - 1) (regs s ! 0)"
    using explored_return.hyps(2) by (cases "regs s ! 0") auto
  then show ?case using return_from_subprog_wf explored_return by blast
qed

text \<open>A path through the successors: at each instruction the index of the successor to follow.\<close>

fun exec_path :: "(u32 \<times> bpf_insn \<times> nat) list \<Rightarrow> verifier_state \<Rightarrow> (exec_error, verifier_state) res" where
  "exec_path [] s = Ok s"
| "exec_path ((pc, insn, k) # rest) s =
     rbind (exec_successors pc insn s) (\<lambda>succs.
       if k < length succs then exec_path rest (snd (succs ! k)) else Err Exec_Panic)"

lemma explored_path: "explored t s \<Longrightarrow> exec_path steps s = Ok s' \<Longrightarrow> explored t s'"
proof (induction steps s rule: exec_path.induct)
  case (2 pc insn k rest s)
  then obtain succs where "exec_successors pc insn s = Ok succs" "k < length succs" "exec_path rest (snd (succs ! k)) = Ok s'"
    by (auto simp: rbind_Ok_iff split: if_splits)
  moreover from this have "explored t (snd (succs ! k))"
    using explored_step [OF "2.prems"(1), of pc insn succs "fst (succs ! k)"] by simp
  ultimately show ?case using "2.IH" by blast
qed simp

text \<open>
  A dead branch with an empty range: \<open>r0\<close> lies in \<open>[-80, 40]\<close> as a signed number, is at least 48 as
  an unsigned and then at least 0 as a signed number. The last branch cannot be taken, but it is
  explored with the range from 48 to 40.
\<close>

definition empty_range_path :: "(u32 \<times> bpf_insn \<times> nat) list" where
  "empty_range_path =
     [(0, Call 7, 0), (1, AluImm Bin_And W64 0 0x78, 0), (2, AluImm Bin_Sub W64 0 80, 0),
      (3, CondImm Cond_Uge 0 48 1, 0), (5, CondImm Cond_Sge 0 0 1, 0), (7, MovReg 1 10, 0),
      (8, AluReg Bin_Add W64 1 0, 0)]"

lemma empty_range_state:
  obtains s where "exec_path empty_range_path vstate_initial = Ok s" "regs s ! 1 = PtrToStack 48 40 0 0"
    "curframe s = 0" "length (regs s) = NUM_REGS"
proof -
  have "case exec_path empty_range_path vstate_initial of
      Ok s \<Rightarrow> regs s ! 1 = PtrToStack 48 40 0 0 \<and> curframe s = 0 \<and> length (regs s) = NUM_REGS | Err e \<Rightarrow> False"
    by code_simp
  then show thesis using that by (auto split: sum.splits)
qed

lemma exec_path_append:
  "exec_path (xs @ ys) s = rbind (exec_path xs s) (exec_path ys)"
  by (induction xs s rule: exec_path.induct) (auto simp: rbind_def split: sum.splits)

lemma empty_range_panics:
  "exec_path (empty_range_path @ [(9, StMemImm 0 1 (-48) Size_DW, 0)]) vstate_initial = Err Exec_Panic"
proof -
  obtain s where s: "exec_path empty_range_path vstate_initial = Ok s" "regs s ! 1 = PtrToStack 48 40 0 0"
    "curframe s = 0" "length (regs s) = NUM_REGS"
    by (rule empty_range_state)
  have "stack_access_check 9 1 (-48) 48 40 0 8 = Ok (stack_byte_index (-1), stack_byte_index 0)"
    by (simp add: stack_access_check_def Let_def stack_byte_range_def)
  moreover have "stack_byte_index (-1) = 0" "stack_byte_index 0 = 2 ^ 64 - 1"
    by (simp_all add: stack_byte_index_def)
  ultimately have "stack_write 9 1 s (-48) Size_DW None (Some 0) = Err Exec_Panic"
    using s(2-4) by (simp add: stack_write_def read_reg_def check_reg_def stack_store_def)
  then show ?thesis using s(1) by (simp add: exec_path_append exec_successors_def step_def)
qed

text \<open>A dynptr over a map value, and a write into it from the bytes below the frame.\<close>

definition low_source_path :: "(u32 \<times> bpf_insn \<times> nat) list" where
  "low_source_path =
     [(0, LdMapValue 1 3 0 4 64, 0), (2, MovImm 2 8, 0), (3, MovImm 3 0, 0), (4, MovReg 4 10, 0),
      (5, AluImm Bin_Add W64 4 (-16), 0), (6, Call 197, 0), (7, MovReg 1 10, 0),
      (8, AluImm Bin_Add W64 1 (-16), 0), (9, MovImm 2 0, 0), (10, MovReg 3 10, 0),
      (11, AluImm Bin_Add W64 3 (-520), 0), (12, MovImm 4 8, 0), (13, MovImm 5 0, 0), (14, Call 202, 0)]"

lemma low_source_panics: "exec_path low_source_path vstate_initial = Err Exec_Panic"
proof -
  have "case exec_path low_source_path vstate_initial of Err e \<Rightarrow> (case e of Exec_Panic \<Rightarrow> True | _ \<Rightarrow> False) | Ok s \<Rightarrow> False"
    by code_simp
  then show ?thesis by (auto split: sum.splits exec_error.splits)
qed

section \<open>Properties\<close>

text \<open>
  C13: every state the executor reaches satisfies its invariant (eleven registers, a 512-byte frame, the
  frames below the current one saved, stack pointers that name active frames, at most eight distinct
  references, tracked numbers without contradictory bits), and expanding an instruction in it yields
  successors or an error message, never a panic, apart from the cases \<open>panic_free\<close> lists.
\<close>

theorem executor_invariant:
  assumes "explored t s"
  shows "exec_wf s \<and> vstate_wf s \<and>
    (\<forall>pc insn. panic_free s insn \<and> insn \<noteq> Exit \<longrightarrow> exec_successors pc insn s \<noteq> Err Exec_Panic)"
  using explored_wf [OF assms] exec_wf_state exec_successors_no_panic by blast

theorem executor_invariant_witness:
  "\<exists>s. exec_path [(0, Call 7, 0), (1, MovReg 6 0, 0)] vstate_initial = Ok s \<and> exec_wf s \<and>
     exec_successors 2 (CondImm Cond_Eq 6 0 3) s \<noteq> Err Exec_Panic"
proof -
  have "case exec_path [(0, Call 7, 0), (1, MovReg 6 0, 0)] vstate_initial of Ok s \<Rightarrow> True | Err e \<Rightarrow> False"
    by code_simp
  then obtain s where s: "exec_path [(0, Call 7, 0), (1, MovReg 6 0, 0)] vstate_initial = Ok s"
    by (auto split: sum.splits)
  have "explored SocketFilter vstate_initial" by (simp add: vstate_initial_def explored_start)
  then have "explored SocketFilter s" using explored_path s by blast
  then show ?thesis
    using executor_invariant [of SocketFilter s] s by (auto simp: panic_free_def)
qed


end
