(* ===== verification/Memory_Props.thy ===== *)
theory Memory_Props
  imports Call_Wf
begin

text \<open>
  What the memory accesses promise: an accepted stack access stays aligned inside the frame at every
  offset the pointer may have, a spilled register is read back as it was, stores leave the other slots
  alone, and the references held stay distinct. The last section shows where the sources fall short
  of it.
\<close>

section \<open>Bytes of a frame\<close>

lemma nth_fill_bytes:
  "i < length bs \<Longrightarrow> fill_bytes is b bs ! i = (if i \<in> set is then b else bs ! i)"
  unfolding fill_bytes_def by (induction "is" arbitrary: bs) (auto simp: nth_list_update)

lemma nth_fold_clear:
  "i < length xs \<Longrightarrow> fold (\<lambda>slot xs. xs[slot := v]) is xs ! i = (if i \<in> set is then v else xs ! i)"
  by (induction "is" arbitrary: xs) (auto simp: nth_list_update)

lemma full_spill_iff:
  assumes "length (sbytes st) = STACK_SIZE" "slot < STACK_SLOTS"
  shows "full_spill st slot \<longleftrightarrow> (\<forall>j<8. sbytes st ! (slot * 8 + j) = SB_Spill)"
  using assms by (auto simp: full_spill_def slot_bytes_def list_all_length)

lemma frame_stack_put [simp]:
  "frame_stack s f = Ok st \<Longrightarrow> frame_stack (put_frame_stack s f st') f = Ok st'"
  by (auto simp: frame_stack_def put_frame_stack_def split: if_splits option.splits)

lemma put_frame_stack_same:
  assumes "frame_stack s f = Ok st"
  shows "put_frame_stack s f st = s"
proof (cases "f = curframe s")
  case False
  then obtain fr where fr: "saved s ! unat f = Some fr" "st = fr_stack fr"
    using assms by (auto simp: frame_stack_def split: if_splits option.splits)
  then have "(saved s)[unat f := Some fr] = saved s" by (metis list_update_id)
  then show ?thesis using fr False by (simp add: put_frame_stack_def)
qed (use assms in \<open>auto simp: frame_stack_def put_frame_stack_def\<close>)

lemma regs_put_frame_stack [simp]: "regs (put_frame_stack s f st) = regs s"
  by (simp add: put_frame_stack_def)

text \<open>A store that meets no dynptr only changes the frame it writes to.\<close>

lemma destroy_nothing:
  "(\<And>slot. slot \<in> set slots \<Longrightarrow> sbytes st ! (slot * 8) \<noteq> SB_Dynptr) \<Longrightarrow>
   fold destroy_dynptr slots (st, None) = (st, None)"
  by (induction slots) (simp_all add: destroy_dynptr_def)

lemma stack_store_plain:
  assumes store: "stack_store pc base s off sz src imm mn mx f (lo, hi) = Ok s'" and st: "frame_stack s f = Ok st"
    and plain: "\<And>slot. slot \<in> {lo div 8..hi div 8} \<Longrightarrow> sbytes st ! (slot * 8) \<noteq> SB_Dynptr"
  obtains v where "stored_value pc s src imm = Ok v"
    "mn = mx \<and> (sint mn + sint off) mod 8 = 0 \<and>
       (case v of Scalar b \<Rightarrow> True | PtrToStack a b c d \<Rightarrow> mem_bytes sz = 8 \<and> f = curframe s | _ \<Rightarrow> mem_bytes sz = 8) \<and>
       s' = put_frame_stack s f (spill_store lo hi v st) \<or>
     \<not> (mn = mx \<and> (sint mn + sint off) mod 8 = 0) \<and>
       check_corrupt_spill pc base off st [lo div 8..<Suc (hi div 8)] = Ok () \<and>
       s' = put_frame_stack s f (partial_store lo hi (constant_zero (Some v)) st)"
proof -
  have undestroyed: "fold destroy_dynptr [lo div 8..<Suc (hi div 8)] (st, None) = (st, None)"
    using plain by (intro destroy_nothing) (auto simp: less_Suc_eq_le simp del: upt_Suc)
  have same: "put_frame_stack s f st = s" by (rule put_frame_stack_same [OF st])
  show thesis
  proof (rule stack_store_Ok [OF store])
    fix st0 st1 destroyed s2 st2 v
    assume s0: "frame_stack s f = Ok st0" and s1: "fold destroy_dynptr [lo div 8..<Suc (hi div 8)] (st0, None) = (st1, destroyed)"
      and s2: "(case destroyed of None \<Rightarrow> Ok (put_frame_stack s f st1)
                                | Some d \<Rightarrow> destroy_slices f d (put_frame_stack s f st1)) = Ok s2"
      and st2: "frame_stack s2 f = Ok st2" and v: "stored_value pc s src imm = Ok v"
      and s': "mn = mx \<and> (sint mn + sint off) mod 8 = 0 \<and>
       (case v of Scalar b \<Rightarrow> True | PtrToStack a b c d \<Rightarrow> mem_bytes sz = 8 \<and> f = curframe s | _ \<Rightarrow> mem_bytes sz = 8) \<and>
       s' = put_frame_stack s2 f (spill_store lo hi v st2) \<or>
     \<not> (mn = mx \<and> (sint mn + sint off) mod 8 = 0) \<and>
       check_corrupt_spill pc base off st2 [lo div 8..<Suc (hi div 8)] = Ok () \<and>
       s' = put_frame_stack s2 f (partial_store lo hi (constant_zero (Some v)) st2)"
    have "st0 = st" using s0 st by simp
    then have "(st1, destroyed) = (st, None)" using s1 undestroyed \<open>st0 = st\<close> by simp
    then have s: "s2 = s" using s2 same by simp
    then have "st2 = st" using st2 st by simp
    then show thesis using s' by (intro that [OF v]) (simp only: s)
  qed
qed

lemma check_corrupt_spill_Ok:
  "check_corrupt_spill pc base off st slots = Ok u \<Longrightarrow> slot \<in> set slots \<Longrightarrow>
   spilled st ! slot = None \<or> (\<exists>b. spilled st ! slot = Some (Scalar b))"
  by (induction slots) (auto split: option.splits reg_state.splits)

section \<open>Accepted accesses\<close>

lemma access_in_frame:
  assumes c: "stack_access_check pc base off mn mx al (int (mem_bytes sz)) = Ok (lo, hi)"
    and v: "sint mn \<le> v" "v \<le> sint mx" "v mod 8 = uint al"
    and x: "v + sint off \<le> x" "x < v + sint off + int (mem_bytes sz)"
  shows "- 512 \<le> x \<and> x < 0 \<and> (v + sint off) mod int (mem_bytes sz) = 0 \<and>
    lo \<le> stack_byte_index x \<and> stack_byte_index x \<le> hi \<and> hi < STACK_SIZE"
proof -
  have pos: "0 < int (mem_bytes sz)" by (cases sz) simp_all
  note r = stack_access_check_Ok [OF c pos order.trans [OF v(1,2)]]
  have b: "- 512 \<le> sint mn + sint off" "sint mx + sint off + int (mem_bytes sz) \<le> 0"
    "(uint al + sint off) mod int (mem_bytes sz) = 0"
    using c by (auto simp: stack_access_check_def Let_def split: if_splits)
  have x': "- 512 \<le> x" "x < 0" using b v x by linarith+
  have "int (stack_byte_index x) = - x - 1"
    unfolding stack_byte_index_def using x' by (simp add: zmod_trivial_iff)
  then have "int lo \<le> int (stack_byte_index x)" "int (stack_byte_index x) \<le> int hi"
    using r v x by linarith+
  moreover have "(v + sint off) mod int (mem_bytes sz) = 0"
  proof -
    have "int (mem_bytes sz) dvd 8" by (cases sz) simp_all
    then have "(v + sint off) mod int (mem_bytes sz) = (v mod 8 + sint off) mod int (mem_bytes sz)"
      by (metis mod_add_left_eq mod_mod_cancel)
    then show ?thesis using b(3) v(3) by simp
  qed
  ultimately show ?thesis using r x' by simp
qed

lemma aligned_slot:
  assumes "int lo = - (a + 8)" "int hi = - a - 1" "a mod 8 = 0"
  shows "lo = hi div 8 * 8"
proof -
  obtain q where q: "a = 8 * q" using assms(3) by auto
  have "int hi = 8 * (- q - 1) + 7" "int lo = 8 * (- q - 1)" using assms(1,2) q by simp_all
  then have "int (hi div 8) = - q - 1" by (simp add: zdiv_int)
  then have "int lo = int (hi div 8 * 8)" using \<open>int lo = 8 * (- q - 1)\<close> by simp
  then show ?thesis by (rule of_nat_eq_iff [THEN iffD1])
qed

lemma destroy_slices_regs: "destroy_slices f d s = Ok s' \<Longrightarrow> regs s' = map (kill_slice d) (regs s)"
  by (auto simp: destroy_slices_def Let_def rbind_Ok_iff)

lemma spilled_back:
  assumes wf: "exec_wf s" and base: "read_reg pc s base = Ok (PtrToStack mn mn al f)"
    and off: "(sint mn + sint off) mod 8 = 0" and v: "read_reg pc s src = Ok v"
    and w: "stack_write pc base s off Size_DW (Some src) None = Ok s'"
  shows "stack_read pc' base s' off Size_DW se = Ok v"
proof -
  obtain lo hi where c: "stack_access_check pc base off mn mn al 8 = Ok (lo, hi)"
    and store: "stack_store pc base s off Size_DW (Some src) None mn mn f (lo, hi) = Ok s'"
    using w base by (auto simp: stack_write_def rbind_Ok_iff)
  have f: "unat f \<le> unat (curframe s)" using exec_wf_read [OF wf base] by simp
  have range: "int lo = - (sint mn + sint off + 8)" "int hi = - (sint mn + sint off) - 1" "hi < STACK_SIZE"
    using stack_access_check_Ok [OF c] by simp_all
  have slot: "lo = hi div 8 * 8" by (rule aligned_slot [OF range(1,2) off])
  from store obtain st0 st1 destroyed s2 st2 u where s0: "frame_stack s f = Ok st0"
    and s1: "fold destroy_dynptr [lo div 8..<Suc (hi div 8)] (st0, None) = (st1, destroyed)"
    and s2: "(case destroyed of None \<Rightarrow> Ok (put_frame_stack s f st1)
                              | Some d \<Rightarrow> destroy_slices f d (put_frame_stack s f st1)) = Ok s2"
    and st2: "frame_stack s2 f = Ok st2" and u: "stored_value pc s (Some src) None = Ok u"
    and s': "mn = mn \<and> (sint mn + sint off) mod 8 = 0 \<and>
       (case u of Scalar b \<Rightarrow> True | PtrToStack a b c d \<Rightarrow> mem_bytes Size_DW = 8 \<and> f = curframe s
                | _ \<Rightarrow> mem_bytes Size_DW = 8) \<and>
       s' = put_frame_stack s2 f (spill_store lo hi u st2) \<or>
     \<not> (mn = mn \<and> (sint mn + sint off) mod 8 = 0) \<and>
       check_corrupt_spill pc base off st2 [lo div 8..<Suc (hi div 8)] = Ok () \<and>
       s' = put_frame_stack s2 f (partial_store lo hi (constant_zero (Some u)) st2)"
    by (rule stack_store_Ok)
  have uv: "u = v" using u v by (simp add: stored_value_def)
  have s'': "s' = put_frame_stack s2 f (spill_store lo hi v st2)" using s' off uv by simp
  let ?st = "spill_store lo hi v st2"
  have wf1: "exec_wf (put_frame_stack s f st1)"
    using stack_ok_destroy_all [of "unat f" "(st0, None)"] frame_stack_ok [OF wf f s0] s1 wf f
    by (metis exec_wf_put_frame_stack fst_conv)
  have wf2: "exec_wf s2 \<and> curframe s2 = curframe s"
    using s2 wf1 f exec_wf_destroy_slices [OF wf1, of f _ s2] by (auto split: option.splits)
  have regs2: "regs s2 ! unat base = PtrToStack mn mn al f" "unat base < NUM_REGS"
  proof -
    have r: "regs s ! unat base = PtrToStack mn mn al f" "unat base < NUM_REGS" "length (regs s) = NUM_REGS"
      using base wf by (simp_all add: read_reg_Ok_iff exec_wf_def regs_ok_def)
    show "regs s2 ! unat base = PtrToStack mn mn al f"
    proof (cases destroyed)
      case None
      then show ?thesis using s2 r(1) by auto
    next
      case (Some d)
      then have "regs s2 = map (kill_slice d) (regs s)" using s2 destroy_slices_regs by fastforce
      then show ?thesis using r by (simp add: kill_slice_def)
    qed
    show "unat base < NUM_REGS" by (rule r(2))
  qed
  have ok: "stack_ok (unat f) st2" using frame_stack_ok [OF _ _ st2] wf2 f by simp
  have lens: "length (sbytes st2) = STACK_SIZE" "length (spilled st2) = STACK_SLOTS"
    using ok by (simp_all add: stack_ok_def stack_wf_def)
  have spill: "sbytes ?st ! i = SB_Spill" if "lo \<le> i" "i \<le> hi" for i
    using that lens range(3) slot by (simp add: spill_store_def Let_def nth_fill_bytes less_Suc_eq_le del: upt_Suc)
  have "spilled ?st ! (hi div 8) = Some v"
    using lens range(3) by (simp add: spill_store_def Let_def)
  then have "fixed_stack_read pc' base off ?st lo hi (sint mn + sint off) 8 se = Ok v"
    using spill by (simp add: fixed_stack_read_def list_all_iff less_Suc_eq_le del: upt_Suc)
  moreover have "stack_access_check pc' base off mn mn al 8 = Ok (lo, hi)"
    using c by (auto simp: stack_access_check_def Let_def split: if_splits)
  moreover have "read_reg pc' s' base = Ok (PtrToStack mn mn al f)"
    using regs2 by (simp add: s'' read_reg_Ok_iff)
  ultimately show ?thesis
    using st2 by (simp add: stack_read_def s'')
qed

section \<open>Properties\<close>

text \<open>
  C16: a stack access the checks let through is aligned and stays inside the frame at every offset the
  pointer may have, and every byte it touches lies in the byte range the access is carried out on.
\<close>

theorem stack_access_safe:
  assumes "stack_access_check pc base off mn mx al (int (mem_bytes sz)) = Ok (lo, hi)"
    and "sint mn \<le> v" "v \<le> sint mx" "v mod 8 = uint al"
    and "v + sint off \<le> x" "x < v + sint off + int (mem_bytes sz)"
  shows "- 512 \<le> x \<and> x < 0 \<and> (v + sint off) mod int (mem_bytes sz) = 0 \<and>
    lo \<le> stack_byte_index x \<and> stack_byte_index x \<le> hi \<and> hi < STACK_SIZE"
  using assms by (rule access_in_frame)

theorem stack_access_safe_witness:
  "stack_access_check 3 2 (-8) (-24) (-16) 0 (int (mem_bytes Size_W)) = Ok (20, 31) \<and> 20 \<le> stack_byte_index (-30)"
proof -
  have c: "stack_access_check 3 2 (-8) (-24) (-16) 0 (int (mem_bytes Size_W)) = Ok (20, 31)"
    by (simp add: stack_access_check_def Let_def stack_byte_range_def stack_byte_index_def)
  then show ?thesis using stack_access_safe [OF c, of "-24" "-30"] by simp
qed

text \<open>
  C15: a register spilled to a slot of any active frame is read back exactly as it was, pointers with
  their type and scalars with their bounds and link included.
\<close>

theorem spill_fill_roundtrip:
  assumes "exec_wf s" "read_reg pc s base = Ok (PtrToStack mn mn al f)" "(sint mn + sint off) mod 8 = 0"
    and "read_reg pc s src = Ok v" "stack_write pc base s off Size_DW (Some src) None = Ok s'"
  shows "stack_read pc' base s' off Size_DW se = Ok v"
  using assms by (rule spilled_back)

theorem spill_fill_roundtrip_witness:
  "\<exists>s'. stack_write 0 10 vstate_initial (-8) Size_DW (Some 1) None = Ok s' \<and>
     stack_read 1 10 s' (-8) Size_DW False = Ok (PtrToCtx 0)"
proof -
  have r: "read_reg 0 vstate_initial 10 = Ok (PtrToStack 0 0 0 0)" "read_reg 0 vstate_initial 1 = Ok (PtrToCtx 0)"
    by (simp_all add: read_reg_def check_reg_def vstate_initial_def initial_with_def initial_reg_state_def)
  have "case stack_write 0 10 vstate_initial (-8) Size_DW (Some 1) None of Ok s' \<Rightarrow> True | Err e \<Rightarrow> False"
    by code_simp
  then obtain s' where w: "stack_write 0 10 vstate_initial (-8) Size_DW (Some 1) None = Ok s'"
    by (auto split: sum.splits)
  then show ?thesis
    using spill_fill_roundtrip [OF exec_wf_initial [of SocketFilter, folded vstate_initial_def] r(1) _ r(2) w] by auto
qed

text \<open>
  C14: an acquired reference gets an identifier that is not held; a release succeeds only for a held
  identifier, drops exactly that one, and afterwards no register and no full spill of any frame refers to
  the released object.
\<close>

theorem references_tracked:
  assumes "exec_wf s"
  shows "(push_ref pc s = Ok (i, s1) \<longrightarrow> i \<notin> set (active_refs s) \<and> active_refs s1 = active_refs s @ [i]) \<and>
    (release_ref pc i s = Ok s2 \<longrightarrow>
      i \<in> set (active_refs s) \<and> set (active_refs s2) = set (active_refs s) - {i} \<and> \<not> state_refers i s2)"
  using push_ref_wf [OF assms] release_ref_forgets [OF assms] by blast

theorem references_tracked_witness:
  "\<exists>i s1 s2. push_ref 0 vstate_initial = Ok (i, s1) \<and> active_refs s1 = [i] \<and> release_ref 1 i s1 = Ok s2 \<and>
     \<not> state_refers i s2"
proof -
  have wf: "exec_wf vstate_initial" by (simp add: vstate_initial_def exec_wf_initial)
  obtain i s1 where p: "push_ref 0 vstate_initial = Ok (i, s1)"
    by (auto simp: push_ref_def vstate_initial_def initial_with_def Let_def)
  have act: "active_refs s1 = [i]"
    using references_tracked [OF wf, of 0 i s1] p by (simp add: active_refs_def vstate_initial_def initial_with_def)
  have wf1: "exec_wf s1" using push_ref_wf [OF wf p] by simp
  have "position (\<lambda>r. r = i) (active_refs s1) = Some 0" by (simp add: act)
  then obtain s2 where s2: "release_ref 1 i s1 = Ok s2"
    by (simp add: release_ref_def drop_ref_def)
  then show ?thesis using references_tracked [OF wf1, of 1 i undefined s2] p act by blast
qed

text \<open>
  The bounds check of a referenced buffer does not depend on the size of the buffer: the upper end
  cancels, so an aligned access of eight bytes at offset 0 is let through for a buffer of any size, and
  no access at offset 8 or above ever is.
\<close>

theorem buffer_check_ignores_size:
  "mem_access_check pc base off mn mx sz = Ok () \<longleftrightarrow>
     (sint mn + sint off) mod sz = 0 \<and> 0 \<le> sint mn + sint off \<and> sint off + sz \<le> 8"
  by (auto simp: mem_access_check_def Let_def)

end
