(* ===== verification/Exec_Findings.thy ===== *)
theory Exec_Findings
  imports Panic_Free Memory_Props
begin

text \<open>
  Paths through the executor on which it departs from what it means to check, each from the initial
  state: slices that outlive their dynptr.
\<close>

text \<open>A dynptr over a map value at \<open>r10 - 16\<close>, and in \<open>r0\<close> a slice of it after its null check.\<close>

definition slice_prefix :: "(u32 \<times> bpf_insn \<times> nat) list" where
  "slice_prefix =
     [(0, LdMapValue 1 3 0 4 64, 0), (2, MovImm 2 8, 0), (3, MovImm 3 0, 0), (4, MovReg 4 10, 0),
      (5, AluImm Bin_Add W64 4 (-16), 0), (6, Call 197, 0), (7, MovReg 1 10, 0),
      (8, AluImm Bin_Add W64 1 (-16), 0), (9, MovImm 2 0, 0), (10, MovImm 3 8, 0), (11, Call 203, 0)]"

definition slice_path :: "(u32 \<times> bpf_insn \<times> nat) list" where
  "slice_path = slice_prefix @ [(12, CondImm Cond_Eq 0 0 9, 1)]"

definition has_slice :: "reg_state \<Rightarrow> verifier_state \<Rightarrow> bool" where
  "has_slice r s \<longleftrightarrow>
     regs s ! 0 = r \<and> regs s ! 10 = PtrToStack 0 0 0 0 \<and> curframe s = 0 \<and>
     dynptrs (stack s) ! 0 = None \<and> dynptrs (stack s) ! 1 = Some \<lparr>dyn_size = 8, dyn_id = 7\<rparr> \<and>
     sbytes (stack s) ! 0 = SB_Dynptr \<and> sbytes (stack s) ! 8 = SB_Dynptr"

lemma slice_prefix_state:
  obtains s where "exec_path slice_prefix vstate_initial = Ok s" "has_slice (PtrToMemOrNull 7 7 8) s" "exec_wf s"
proof -
  have "case exec_path slice_prefix vstate_initial of Ok s \<Rightarrow> has_slice (PtrToMemOrNull 7 7 8) s | Err e \<Rightarrow> False"
    by code_simp
  then obtain s where s: "exec_path slice_prefix vstate_initial = Ok s" "has_slice (PtrToMemOrNull 7 7 8) s"
    by (auto split: sum.splits)
  have "explored SocketFilter s"
    using explored_path [OF explored_start] s(1) by (simp add: vstate_initial_def)
  then show thesis using that s explored_wf by blast
qed

lemma exec_wf_length_regs: "exec_wf s \<Longrightarrow> length (regs s) = NUM_REGS"
  by (simp add: exec_wf_def regs_ok_def)

lemma slice_checked:
  assumes "has_slice (PtrToMemOrNull 7 7 8) s" "exec_wf s"
  shows "\<exists>s'. exec_path [(12, CondImm Cond_Eq 0 0 9, 1)] s = Ok s' \<and> has_slice (PtrToMem 0 0 0 7 0) s'"
proof -
  let ?s = "set_reg (map_frame (valid_mem 7) s) 0 (PtrToMem 0 0 0 7 0)"
  have "exec_path [(12, CondImm Cond_Eq 0 0 9, 1)] s = Ok ?s"
    using assms exec_wf_length_regs
    by (simp add: has_slice_def exec_successors_def cond_branch_imm_def cond_branch_impl_def read_reg_def check_reg_def
        pointer_vs_scalar_def scalar_is_zero_def scalar_constant_def null_check_mem_def is_eq_op_def null_sides_def)
  moreover have "has_slice (PtrToMem 0 0 0 7 0) ?s"
    using assms exec_wf_length_regs [OF assms(2)]
    by (simp add: has_slice_def map_frame_def set_reg_def map_spilled_def valid_mem_def)
  ultimately show ?thesis by blast
qed

lemma slice_state:
  obtains s where "exec_path slice_path vstate_initial = Ok s" "has_slice (PtrToMem 0 0 0 7 0) s" "exec_wf s"
proof -
  obtain s where s: "exec_path slice_prefix vstate_initial = Ok s" "has_slice (PtrToMemOrNull 7 7 8) s" "exec_wf s"
    by (rule slice_prefix_state)
  then obtain s' where s': "exec_path [(12, CondImm Cond_Eq 0 0 9, 1)] s = Ok s'" "has_slice (PtrToMem 0 0 0 7 0) s'"
    using slice_checked by blast
  then have "exec_path slice_path vstate_initial = Ok s'"
    using s by (simp only: slice_path_def exec_path_append rbind_simps)
  moreover have "explored SocketFilter s'"
    using explored_path [OF explored_start] calculation by (simp add: vstate_initial_def)
  ultimately show thesis using that s'(2) explored_wf by blast
qed

lemma first_bytes: "mem_access_check pc base 0 0 0 8 = Ok ()"
  by (simp add: mem_access_check_def)

text \<open>Writing the other slot of the pair destroys the dynptr, but not the slice.\<close>

lemma slice_after_low_write:
  assumes "has_slice (PtrToMem 0 0 0 7 0) s" "exec_wf s"
  shows "\<exists>s'. exec_path [(13, StMemImm 0 10 (-8) Size_DW, 0), (14, LdMem 7 0 0 Size_DW False, 0)] s = Ok s' \<and>
    sbytes (stack s') ! 0 \<noteq> SB_Dynptr"
proof -
  have lens: "length (regs s) = NUM_REGS" "length (sbytes (stack s)) = STACK_SIZE"
    using exec_wf_length_regs exec_wf_lengths assms(2) by blast+
  have c: "stack_access_check 13 10 (-8) 0 0 0 8 = Ok (0, 7)"
    by (simp add: stack_access_check_def Let_def stack_byte_range_def stack_byte_index_def)
  have "\<exists>st. stack_write 13 10 s (-8) Size_DW None (Some 0) = Ok (s\<lparr>stack := st\<rparr>) \<and> sbytes st ! 0 = SB_Spill"
    using assms(1) lens c
    by (auto simp: has_slice_def stack_write_def read_reg_def check_reg_def stack_store_def frame_stack_def
        destroy_dynptr_def put_frame_stack_def stored_value_def spill_store_def nth_fill_bytes Let_def)
  then obtain st where st: "stack_write 13 10 s (-8) Size_DW None (Some 0) = Ok (s\<lparr>stack := st\<rparr>)" "sbytes st ! 0 = SB_Spill"
    by blast
  have "exec_path [(13, StMemImm 0 10 (-8) Size_DW, 0), (14, LdMem 7 0 0 Size_DW False, 0)] s =
      Ok (set_reg (s\<lparr>stack := st\<rparr>) 7 (Scalar scalar_unknown))"
    using assms(1) st(1) first_bytes [of 14 0]
    by (simp add: has_slice_def exec_successors_def step_def load_step_def check_reg_def stack_read_def read_reg_def)
  then show ?thesis using st(2) by (simp add: set_reg_def)
qed

text \<open>Spilling the slice over its own dynptr keeps a copy the invalidation does not reach.\<close>

lemma slice_spilled:
  assumes "has_slice (PtrToMem 0 0 0 7 0) s" "exec_wf s"
  shows "\<exists>s'. exec_path [(13, StMem 0 10 (-16) Size_DW, 0), (14, LdMem 6 10 (-16) Size_DW False, 0),
      (15, LdMem 7 6 0 Size_DW False, 0)] s = Ok s' \<and> dynptrs (stack s') ! 1 = None"
proof -
  have lens: "length (regs s) = NUM_REGS" "length (sbytes (stack s)) = STACK_SIZE" "length (dynptrs (stack s)) = STACK_SLOTS"
    using exec_wf_length_regs exec_wf_lengths assms(2) by blast+
  have c: "stack_access_check 13 10 (-16) 0 0 0 8 = Ok (8, 15)"
    by (simp add: stack_access_check_def Let_def stack_byte_range_def stack_byte_index_def)
  obtain s1 where s1: "stack_write 13 10 s (-16) Size_DW (Some 0) None = Ok s1" "dynptrs (stack s1) ! 1 = None"
    "regs s1 ! 10 = PtrToStack 0 0 0 0" "length (regs s1) = NUM_REGS"
    using assms(1) lens c
    by (auto simp: has_slice_def stack_write_def read_reg_def check_reg_def stack_store_def frame_stack_def
        destroy_dynptr_def destroy_slices_def put_frame_stack_def stored_value_def spill_store_def kill_slice_def
        map_spilled_def Let_def)
  have base: "read_reg 13 s 10 = Ok (PtrToStack 0 0 0 0)" and src: "read_reg 13 s 0 = Ok (PtrToMem 0 0 0 7 0)"
    using assms(1) by (simp_all add: has_slice_def read_reg_def check_reg_def)
  have off: "(sint (0 :: i32) + sint (-16 :: i16)) mod 8 = 0"
    by simp
  have "stack_read 14 10 s1 (-16) Size_DW False = Ok (PtrToMem 0 0 0 7 0)"
    by (rule spilled_back [OF assms(2) base off src s1(1)])
  then have "exec_path [(13, StMem 0 10 (-16) Size_DW, 0), (14, LdMem 6 10 (-16) Size_DW False, 0),
      (15, LdMem 7 6 0 Size_DW False, 0)] s =
      Ok (set_reg (set_reg s1 6 (PtrToMem 0 0 0 7 0)) 7 (Scalar scalar_unknown))"
    using s1 first_bytes [of 15 6]
    by (simp add: exec_successors_def step_def load_step_def check_reg_def stack_read_def [of 15] read_reg_def set_reg_def)
  then show ?thesis using s1(2) by (simp add: set_reg_def)
qed

section \<open>Properties\<close>

text \<open>
  C35: a slice outlives its dynptr in two ways: a store to the upper slot of the pair destroys the dynptr
  without invalidating its slices, and a store of the slice over the dynptr keeps the stored copy
  although every other copy is invalidated. In both cases the access through the slice is accepted.
\<close>

theorem slices_outlive_dynptr:
  "(\<exists>s. exec_path (slice_path @ [(13, StMemImm 0 10 (-8) Size_DW, 0), (14, LdMem 7 0 0 Size_DW False, 0)])
      vstate_initial = Ok s \<and> sbytes (stack s) ! 0 \<noteq> SB_Dynptr) \<and>
   (\<exists>s. exec_path (slice_path @ [(13, StMem 0 10 (-16) Size_DW, 0), (14, LdMem 6 10 (-16) Size_DW False, 0),
      (15, LdMem 7 6 0 Size_DW False, 0)]) vstate_initial = Ok s \<and> dynptrs (stack s) ! 1 = None)"
proof -
  obtain s where s: "exec_path slice_path vstate_initial = Ok s" "has_slice (PtrToMem 0 0 0 7 0) s" "exec_wf s"
    by (rule slice_state)
  then show ?thesis
    using slice_after_low_write [OF s(2,3)] slice_spilled [OF s(2,3)]
    by (simp only: exec_path_append s(1) rbind_simps)
qed

end
