(* ===== verification/Concrete.thy ===== *)
theory Concrete
  imports Branch_Exec
begin

text \<open>
  The concrete interpreter of \<open>src/src/concrete.rs\<close>, which the sources run next to the verifier to check
  its states: typed values, frames of 64 cells, subprogram calls, memory accesses, ALU instructions and
  branches, helper calls with representative results, map values. The coverage of a concrete state by an
  abstract one (\<open>state_covers\<close>) is modelled in \<open>Coverage\<close>. Arithmetic on \<open>i64\<close> addresses is taken with
  wrap-around, as in a build without overflow checks. A \<open>HashMap\<close> is a partial function.
\<close>

section \<open>Data\<close>

abbreviation "STACK_BASE \<equiv> (0x1000 :: u64)"
abbreviation "CTX_BASE \<equiv> (0x2000 :: u64)"

datatype concrete_value =
    CV_Scalar u64
  | StackPtr u64 u8
  | CtxPtr u64
  | MapPtr u32 "u64 option" i64
  | MemPtr u64

type_synonym map_mem = "u32 \<times> u64 \<times> i64 \<Rightarrow> u64 option"

record map_info =
  mi_type :: u8
  mi_key_size :: u32
  mi_value_size :: u32
  mi_max_entries :: u32

type_synonym map_registry = "u32 \<Rightarrow> map_info option"

fun value_bits :: "concrete_value \<Rightarrow> u64" where
  "value_bits (CV_Scalar v) = v"
| "value_bits (StackPtr v f) = v"
| "value_bits (CtxPtr v) = v"
| "value_bits (MapPtr fd index off) =
     push_bit 32 (ucast fd) XOR word_rotl 11 (case index of Some i \<Rightarrow> i | None \<Rightarrow> 0) XOR off"
| "value_bits (MemPtr v) = v"

type_synonym cells = "concrete_value option list"

record concrete_frame =
  cf_regs :: cells
  cf_stack :: cells
  cf_ret_pc :: u32

record concrete_state =
  cregs :: cells
  cstack :: cells
  csaved :: "concrete_frame option list"
  ccurframe :: u8
  cret_pc :: u32
  cprog_type :: prog_type

datatype concrete_failure =
    UninitializedRead u32 u8
  | CF_InvalidRegister u32 u8
  | StackOutOfFrame u32 i32
  | MisalignedStackAccess u32 i32
  | UninitializedStackRead u32 i32
  | PointerArithmetic u32 u8
  | NonStackBase u32 u8
  | InvalidShiftAmount u32 u64
  | UnknownHelper u32 i32
  | UnsupportedKfunc u32
  | HelperArgMismatch u32 u8
  | InvalidComparison u32 u8 u8
  | InvalidComparisonImm u32 u8
  | MapValueOutOfBounds u32 i64
  | CtxReadUnsupported u32 string
  | InvalidCtxAccess u32 i32 u32
  | UnsupportedHelperReturn u32 i32
  | InternalError u32

datatype concrete_error = Conc_Fail concrete_failure | Conc_Panic

abbreviation cfail :: "concrete_failure \<Rightarrow> (concrete_error, 'a) res" where
  "cfail f \<equiv> Err (Conc_Fail f)"

section \<open>Frames\<close>

definition concrete_initial_with :: "prog_type \<Rightarrow> concrete_state" where
  "concrete_initial_with t =
     \<lparr>cregs = (replicate NUM_REGS None)[1 := Some (CtxPtr CTX_BASE), 10 := Some (StackPtr STACK_BASE 0)],
      cstack = replicate STACK_SLOTS None, csaved = replicate (MAX_CALL_FRAMES - 1) None,
      ccurframe = 0, cret_pc = 0, cprog_type = t\<rparr>"

definition concrete_call_subprog :: "u32 \<Rightarrow> concrete_state \<Rightarrow> (concrete_error, concrete_state) res" where
  "concrete_call_subprog return_pc c =
     (if MAX_CALL_FRAMES - 1 \<le> unat (ccurframe c) then cfail (InternalError 0)
      else
        let depth = ccurframe c + 1; rs = cregs c in
        Ok (c\<lparr>csaved := (csaved c)[unat (ccurframe c) :=
                   Some \<lparr>cf_regs = cregs c, cf_stack = cstack c, cf_ret_pc = cret_pc c\<rparr>],
              ccurframe := depth,
              cregs := (replicate NUM_REGS None)
                [1 := rs ! 1, 2 := rs ! 2, 3 := rs ! 3, 4 := rs ! 4, 5 := rs ! 5,
                 10 := Some (StackPtr STACK_BASE depth)],
              cstack := replicate STACK_SLOTS None,
              cret_pc := return_pc\<rparr>))"

definition concrete_return_from_subprog :: "concrete_state \<Rightarrow> concrete_state option" where
  "concrete_return_from_subprog c =
     (if ccurframe c = 0 then None
      else
        let ret = cregs c ! 0; depth = ccurframe c - 1 in
        case csaved c ! unat depth of
          None \<Rightarrow> None
        | Some caller \<Rightarrow>
            Some (c\<lparr>ccurframe := depth, csaved := (csaved c)[unat depth := None],
                    cret_pc := cf_ret_pc caller,
                    cregs := (cf_regs caller)[0 := ret, 1 := None, 2 := None, 3 := None, 4 := None, 5 := None],
                    cstack := cf_stack caller\<rparr>))"

section \<open>Registers and cells\<close>

definition check_concrete_reg :: "u32 \<Rightarrow> u8 \<Rightarrow> (concrete_error, unit) res" where
  "check_concrete_reg pc r = (if NUM_REGS \<le> unat r then cfail (CF_InvalidRegister pc r) else Ok ())"

definition read_concrete_reg :: "u32 \<Rightarrow> concrete_state \<Rightarrow> u8 \<Rightarrow> (concrete_error, concrete_value) res" where
  "read_concrete_reg pc c r =
     rbind (check_concrete_reg pc r) (\<lambda>_.
     case cregs c ! unat r of None \<Rightarrow> cfail (UninitializedRead pc r) | Some v \<Rightarrow> Ok v)"

definition set_creg :: "concrete_state \<Rightarrow> u8 \<Rightarrow> concrete_value \<Rightarrow> concrete_state" where
  "set_creg c r v = c\<lparr>cregs := (cregs c)[unat r := Some v]\<rparr>"

definition concrete_stack_range :: "u32 \<Rightarrow> i32 \<Rightarrow> nat \<Rightarrow> (concrete_error, nat \<times> nat) res" where
  "concrete_stack_range pc off sz =
     (if 0 \<le> sint off \<or> sint off < - 512 then cfail (StackOutOfFrame pc off)
      else if sz = 0 then Err Conc_Panic
      else if sint off mod int sz \<noteq> 0 then cfail (MisalignedStackAccess pc off)
      else if 0 < sint off + int sz then cfail (StackOutOfFrame pc off)
      else let b = nat (- sint off - 1) in Ok (b div 8, 7 - b mod 8))"

definition concrete_frame_stack :: "concrete_state \<Rightarrow> u8 \<Rightarrow> (concrete_error, cells) res" where
  "concrete_frame_stack c f =
     (if f = ccurframe c then Ok (cstack c)
      else if unat f < length (csaved c)
        then (case csaved c ! unat f of None \<Rightarrow> Err Conc_Panic | Some fr \<Rightarrow> Ok (cf_stack fr))
      else Err Conc_Panic)"

definition put_concrete_stack :: "concrete_state \<Rightarrow> u8 \<Rightarrow> cells \<Rightarrow> concrete_state" where
  "put_concrete_stack c f st =
     (if f = ccurframe c then c\<lparr>cstack := st\<rparr>
      else c\<lparr>csaved := (csaved c)[unat f := map_option (\<lambda>fr. fr\<lparr>cf_stack := st\<rparr>) (csaved c ! unat f)]\<rparr>)"

definition low_mask :: "nat \<Rightarrow> u64" where
  "low_mask sz = mask (sz * 8)"

definition merged_bits :: "u64 \<Rightarrow> nat \<Rightarrow> nat \<Rightarrow> u64 \<Rightarrow> u64" where
  "merged_bits existing in_slot sz v =
     (existing AND NOT (push_bit (in_slot * 8) (low_mask sz))) OR push_bit (in_slot * 8) (v AND low_mask sz)"

definition merge_cell :: "cells \<Rightarrow> nat \<Rightarrow> nat \<Rightarrow> nat \<Rightarrow> concrete_value \<Rightarrow> cells" where
  "merge_cell st slot in_slot sz v =
     (if in_slot = 0 \<and> sz = 8 then st[slot := Some v]
      else st[slot := Some (CV_Scalar (merged_bits (case st ! slot of Some e \<Rightarrow> value_bits e | None \<Rightarrow> 0)
                                        in_slot sz (value_bits v)))])"

definition concrete_merge ::
  "concrete_state \<Rightarrow> u8 \<Rightarrow> nat \<Rightarrow> nat \<Rightarrow> nat \<Rightarrow> concrete_value \<Rightarrow> (concrete_error, concrete_state) res" where
  "concrete_merge c f slot in_slot sz v =
     rbind (concrete_frame_stack c f) (\<lambda>st. Ok (put_concrete_stack c f (merge_cell st slot in_slot sz v)))"

definition concrete_extract :: "concrete_value \<Rightarrow> nat \<Rightarrow> nat \<Rightarrow> bool \<Rightarrow> concrete_value" where
  "concrete_extract v in_slot sz sign_extend =
     (if in_slot = 0 \<and> sz = 8 then v
      else
        let raw = drop_bit (in_slot * 8) (value_bits v) AND low_mask sz in
        CV_Scalar (if sign_extend \<and> raw AND push_bit (sz * 8 - 1) 1 \<noteq> 0 then raw OR NOT (low_mask sz) else raw))"

definition stack_ptr_frameno :: "u32 \<Rightarrow> u8 \<Rightarrow> concrete_value \<Rightarrow> (concrete_error, u8) res" where
  "stack_ptr_frameno pc r base = (case base of StackPtr a f \<Rightarrow> Ok f | _ \<Rightarrow> cfail (NonStackBase pc r))"

definition stack_ptr_access_offset :: "u32 \<Rightarrow> u8 \<Rightarrow> concrete_value \<Rightarrow> i16 \<Rightarrow> (concrete_error, i32) res" where
  "stack_ptr_access_offset pc r base off =
     (case base of StackPtr a f \<Rightarrow> Ok (ucast (a - STACK_BASE + scast off)) | _ \<Rightarrow> cfail (NonStackBase pc r))"

text \<open>The prefix of every stack access: the frame of the base, then the cell and the position in it.\<close>

definition locate ::
  "u32 \<Rightarrow> u8 \<Rightarrow> concrete_value \<Rightarrow> i16 \<Rightarrow> nat \<Rightarrow> (concrete_error, u8 \<times> i32 \<times> nat \<times> nat) res" where
  "locate pc base v off sz =
     rbind (stack_ptr_frameno pc base v) (\<lambda>f.
     rbind (stack_ptr_access_offset pc base v off) (\<lambda>o'.
     rbind (concrete_stack_range pc o' sz) (\<lambda>(slot, in_slot). Ok (f, o', slot, in_slot))))"

section \<open>ALU instructions\<close>

definition concrete_mul_high ::
  "u32 \<Rightarrow> concrete_state \<Rightarrow> u8 \<Rightarrow> i32 \<Rightarrow> mul_high \<Rightarrow> (concrete_error, concrete_state) res" where
  "concrete_mul_high pc c dst imm high =
     rbind (read_concrete_reg pc c dst) (\<lambda>v.
     case v of
       CV_Scalar a \<Rightarrow> Ok (set_creg c dst (CV_Scalar (hmul_const a (scast imm) high)))
     | _ \<Rightarrow> cfail (PointerArithmetic pc dst))"

definition concrete_neg :: "u32 \<Rightarrow> concrete_state \<Rightarrow> u8 \<Rightarrow> alu_width \<Rightarrow> (concrete_error, concrete_state) res" where
  "concrete_neg pc c dst w =
     rbind (read_concrete_reg pc c dst) (\<lambda>v.
     case v of
       CV_Scalar a \<Rightarrow> Ok (set_creg c dst (CV_Scalar (alu_value Alu_Neg w a 0)))
     | _ \<Rightarrow> cfail (PointerArithmetic pc dst))"

text \<open>The checked addition of two \<open>i64\<close>.\<close>

definition checked_add :: "i64 \<Rightarrow> i64 \<Rightarrow> i64 option" where
  "checked_add a b = (if - (2 ^ 63) \<le> sint a + sint b \<and> sint a + sint b < 2 ^ 63 then Some (a + b) else None)"

definition saturating_add :: "i64 \<Rightarrow> i64 \<Rightarrow> i64" where
  "saturating_add a b = word_of_int (sat_int64 (sint a + sint b))"

definition moved_map_ptr ::
  "u32 \<Rightarrow> concrete_state \<Rightarrow> u8 \<Rightarrow> u32 \<Rightarrow> u64 option \<Rightarrow> i64 \<Rightarrow> i64 \<Rightarrow> (concrete_error, concrete_state) res" where
  "moved_map_ptr pc c dst fd index off by =
     (case checked_add off by of
        None \<Rightarrow> cfail (PointerArithmetic pc dst)
      | Some o' \<Rightarrow> Ok (set_creg c dst (MapPtr fd index o')))"

definition concrete_alu_imm ::
  "u32 \<Rightarrow> concrete_state \<Rightarrow> u8 \<Rightarrow> i32 \<Rightarrow> alu_op \<Rightarrow> alu_width \<Rightarrow> (concrete_error, concrete_state) res" where
  "concrete_alu_imm pc c dst imm op w =
     rbind (check_concrete_reg pc dst) (\<lambda>_.
     if is_shift op \<and> \<not> shift_amount_ok w imm then cfail (InvalidShiftAmount pc (scast imm))
     else rbind (read_concrete_reg pc c dst) (\<lambda>v.
     case v of
       CV_Scalar d \<Rightarrow> Ok (set_creg c dst (CV_Scalar (alu_value op w d (scast imm))))
     | StackPtr a f \<Rightarrow>
         (if op \<noteq> Alu_Add \<or> w \<noteq> W64 then cfail (PointerArithmetic pc dst)
          else Ok (set_creg c dst (StackPtr (STACK_BASE + saturating_add (a - STACK_BASE) (scast imm)) f)))
     | MapPtr fd index off \<Rightarrow>
         (if op \<noteq> Alu_Add \<or> w \<noteq> W64 then cfail (PointerArithmetic pc dst)
          else moved_map_ptr pc c dst fd index off (scast imm))
     | CtxPtr a \<Rightarrow>
         (if op \<noteq> Alu_Add \<and> op \<noteq> Alu_Sub \<or> w \<noteq> W64 then cfail (PointerArithmetic pc dst)
          else Ok (set_creg c dst (CtxPtr (if op = Alu_Add then a + scast imm else a - scast imm))))
     | MemPtr a \<Rightarrow> cfail (PointerArithmetic pc dst)))"

definition concrete_alu_reg ::
  "u32 \<Rightarrow> concrete_state \<Rightarrow> u8 \<Rightarrow> u8 \<Rightarrow> alu_op \<Rightarrow> alu_width \<Rightarrow> (concrete_error, concrete_state) res" where
  "concrete_alu_reg pc c dst src op w =
     rbind (check_concrete_reg pc dst) (\<lambda>_.
     rbind (read_concrete_reg pc c dst) (\<lambda>dv.
     rbind (read_concrete_reg pc c src) (\<lambda>sv.
     case (dv, sv) of
       (CV_Scalar d, CV_Scalar s) \<Rightarrow> Ok (set_creg c dst (CV_Scalar (alu_value op w d s)))
     | (StackPtr a f, CV_Scalar s) \<Rightarrow>
         (if op \<noteq> Alu_Add \<or> w \<noteq> W64 then cfail (PointerArithmetic pc dst)
          else Ok (set_creg c dst (StackPtr (STACK_BASE + (a - STACK_BASE + s)) f)))
     | (CV_Scalar d, StackPtr a f) \<Rightarrow>
         (if op \<noteq> Alu_Add \<or> w \<noteq> W64 then cfail (PointerArithmetic pc dst)
          else Ok (set_creg c dst (StackPtr (STACK_BASE + (a - STACK_BASE + d)) f)))
     | (MapPtr fd index off, CV_Scalar s) \<Rightarrow>
         (if op \<noteq> Alu_Add \<or> w \<noteq> W64 then cfail (PointerArithmetic pc dst)
          else moved_map_ptr pc c dst fd index off s)
     | (CV_Scalar s, MapPtr fd index off) \<Rightarrow>
         (if op \<noteq> Alu_Add \<or> w \<noteq> W64 then cfail (PointerArithmetic pc dst)
          else moved_map_ptr pc c dst fd index off s)
     | (CtxPtr a, CV_Scalar s) \<Rightarrow>
         (if op \<noteq> Alu_Add \<and> op \<noteq> Alu_Sub \<or> w \<noteq> W64 then cfail (PointerArithmetic pc dst)
          else Ok (set_creg c dst (CtxPtr (if op = Alu_Add then a + s else a - s))))
     | (CV_Scalar s, CtxPtr a) \<Rightarrow>
         (if op \<noteq> Alu_Add \<and> op \<noteq> Alu_Sub \<or> w \<noteq> W64 then cfail (PointerArithmetic pc dst)
          else Ok (set_creg c dst (CtxPtr (if op = Alu_Add then a + s else a - s))))
     | _ \<Rightarrow> cfail (PointerArithmetic pc dst))))"

definition concrete_mul_high_reg ::
  "u32 \<Rightarrow> concrete_state \<Rightarrow> u8 \<Rightarrow> u8 \<Rightarrow> mul_high \<Rightarrow> (concrete_error, concrete_state) res" where
  "concrete_mul_high_reg pc c dst src high =
     (if high = Mul_Low then concrete_alu_reg pc c dst src Alu_Mul W64
      else rbind (read_concrete_reg pc c dst) (\<lambda>a.
        rbind (read_concrete_reg pc c src) (\<lambda>b.
        case (a, b) of
          (CV_Scalar x, CV_Scalar y) \<Rightarrow> Ok (set_creg c dst (CV_Scalar (hmul_const x y high)))
        | _ \<Rightarrow> cfail (PointerArithmetic pc dst))))"

end
