(* ===== verification/Concrete_Step.thy ===== *)
theory Concrete_Step
  imports Concrete
begin

text \<open>
  One instruction of the concrete interpreter (\<open>concrete_step\<close>), its helper calls and map accesses, the
  branches and the successors (\<open>concrete_successors\<close>), and the cleaning of a state by liveness masks.
  The map memory is threaded explicitly.
\<close>

section \<open>Straight-line instructions\<close>

text \<open>
  The old value of an atomic and where to store the new one: stack targets only, exact for a whole
  cell.
\<close>

definition atomic_target ::
  "u32 \<Rightarrow> concrete_state \<Rightarrow> u8 \<Rightarrow> concrete_value \<Rightarrow> i16 \<Rightarrow> nat \<Rightarrow>
   (concrete_error, concrete_value \<times> (u8 \<times> nat \<times> nat) option) res" where
  "atomic_target pc c dst base off sz =
     (case base of
        StackPtr a f0 \<Rightarrow>
          rbind (locate pc dst base off sz) (\<lambda>(f, o', slot, in_slot).
          rbind (concrete_frame_stack c f) (\<lambda>st.
          case st ! slot of
            None \<Rightarrow> cfail (UninitializedStackRead pc o')
          | Some v \<Rightarrow>
              Ok (if sz = 8 \<and> in_slot = 0 then v else CV_Scalar 0, Some (f, slot, in_slot))))
      | _ \<Rightarrow> Ok (CV_Scalar 0, None))"

definition scalar_or_zero :: "concrete_value \<Rightarrow> u64" where
  "scalar_or_zero v = (case v of CV_Scalar x \<Rightarrow> x | _ \<Rightarrow> 0)"

fun atomic_result :: "atomic_op \<Rightarrow> u64 \<Rightarrow> u64 \<Rightarrow> u64 \<Rightarrow> u64" where
  "atomic_result Atomic_Add old src r0 = old + src"
| "atomic_result Atomic_Or old src r0 = old OR src"
| "atomic_result Atomic_And old src r0 = old AND src"
| "atomic_result Atomic_Xor old src r0 = old XOR src"
| "atomic_result Atomic_Xchg old src r0 = src"
| "atomic_result Atomic_Cmpxchg old src r0 = (if old = r0 then src else old)"

definition concrete_atomic ::
  "u32 \<Rightarrow> concrete_state \<Rightarrow> u8 \<Rightarrow> u8 \<Rightarrow> i16 \<Rightarrow> mem_size \<Rightarrow> atomic_op \<Rightarrow> bool \<Rightarrow>
   (concrete_error, concrete_state) res" where
  "concrete_atomic pc c dst src off sz op fetch =
     rbind (read_concrete_reg pc c dst) (\<lambda>base.
     rbind (read_concrete_reg pc c src) (\<lambda>sv.
     case base of
       CtxPtr a \<Rightarrow> cfail (InvalidCtxAccess pc (scast off) (of_nat (mem_bytes sz)))
     | _ \<Rightarrow>
       if sint off mod int (mem_bytes sz) \<noteq> 0 then cfail (InternalError pc)
       else (case sv of
         CV_Scalar src_bits \<Rightarrow>
           rbind (atomic_target pc c dst base off (mem_bytes sz)) (\<lambda>(old, target).
           let r0 = (case read_concrete_reg pc c 0 of Ok v \<Rightarrow> scalar_or_zero v | Err e \<Rightarrow> 0);
               new_bits = atomic_result op (scalar_or_zero old) src_bits r0 in
           rbind (case target of
                    Some (f, slot, in_slot) \<Rightarrow>
                      (if mem_bytes sz = 8 \<and> in_slot = 0 \<and> (case old of CV_Scalar x \<Rightarrow> True | _ \<Rightarrow> False)
                       then rbind (concrete_frame_stack c f) (\<lambda>st.
                              Ok (put_concrete_stack c f (st[slot := Some (CV_Scalar new_bits)])))
                       else Ok c)
                  | None \<Rightarrow> Ok c) (\<lambda>next.
             Ok (if op = Atomic_Cmpxchg then set_creg next 0 old
                 else if fetch then set_creg next src old
                 else next)))
       | _ \<Rightarrow> cfail (InternalError pc))))"

definition concrete_store ::
  "u32 \<Rightarrow> concrete_state \<Rightarrow> concrete_value option \<Rightarrow> u8 \<Rightarrow> i16 \<Rightarrow> mem_size \<Rightarrow> (concrete_error, concrete_state) res" where
  "concrete_store pc c v base off sz =
     rbind (read_concrete_reg pc c base) (\<lambda>bv.
     rbind (locate pc base bv off (mem_bytes sz)) (\<lambda>(f, o', slot, in_slot).
     case v of
       None \<Rightarrow> rbind (concrete_frame_stack c f) (\<lambda>st. Ok (put_concrete_stack c f (st[slot := None])))
     | Some x \<Rightarrow> concrete_merge c f slot in_slot (mem_bytes sz) x))"

definition concrete_load ::
  "u32 \<Rightarrow> concrete_state \<Rightarrow> u8 \<Rightarrow> u8 \<Rightarrow> i16 \<Rightarrow> mem_size \<Rightarrow> bool \<Rightarrow> (concrete_error, concrete_state) res" where
  "concrete_load pc c dst base off sz sign_extend =
     rbind (check_concrete_reg pc dst) (\<lambda>_.
     rbind (read_concrete_reg pc c base) (\<lambda>bv.
     case bv of
       CtxPtr a \<Rightarrow>
         (let o' = (ucast (a - CTX_BASE + scast off) :: i32); bytes = of_nat (mem_bytes sz) in
          case ctx_read_access (cprog_type c) o' bytes of
            Inr Ctx_Scalar \<Rightarrow> Ok (set_creg c dst (CV_Scalar 0))
          | Inr (Ctx_Pointer field) \<Rightarrow> cfail (CtxReadUnsupported pc field)
          | Inl (Ctx_Unmodeled field) \<Rightarrow> cfail (CtxReadUnsupported pc field)
          | Inl Ctx_Invalid \<Rightarrow> cfail (InvalidCtxAccess pc o' bytes))
     | _ \<Rightarrow>
         rbind (locate pc base bv off (mem_bytes sz)) (\<lambda>(f, o', slot, in_slot).
         rbind (concrete_frame_stack c f) (\<lambda>st.
         case st ! slot of
           None \<Rightarrow> cfail (UninitializedStackRead pc o')
         | Some v \<Rightarrow> Ok (set_creg c dst (concrete_extract v in_slot (mem_bytes sz) sign_extend))))))"

text \<open>A register number outside the array is an index out of range where the sources do not check it.\<close>

definition creg_at :: "concrete_state \<Rightarrow> u8 \<Rightarrow> (concrete_error, concrete_value option) res" where
  "creg_at c r = (if NUM_REGS \<le> unat r then Err Conc_Panic else Ok (cregs c ! unat r))"

definition checked_set ::
  "u32 \<Rightarrow> concrete_state \<Rightarrow> u8 \<Rightarrow> concrete_value \<Rightarrow> (concrete_error, concrete_state) res" where
  "checked_set pc c dst v = rbind (check_concrete_reg pc dst) (\<lambda>_. Ok (set_creg c dst v))"

definition concrete_step :: "u32 \<Rightarrow> concrete_state \<Rightarrow> bpf_insn \<Rightarrow> (concrete_error, concrete_state) res" where
  "concrete_step pc c insn =
     (case insn of
        MovImm dst imm \<Rightarrow> checked_set pc c dst (CV_Scalar (scast imm))
      | Mov32Imm dst imm \<Rightarrow> checked_set pc c dst (CV_Scalar (ucast imm))
      | Mov32Reg dst src \<Rightarrow>
          rbind (check_concrete_reg pc dst) (\<lambda>_.
          rbind (read_concrete_reg pc c src) (\<lambda>v.
          case v of
            CV_Scalar x \<Rightarrow> Ok (set_creg c dst (CV_Scalar (ucast (ucast x :: u32))))
          | _ \<Rightarrow> cfail (InternalError pc)))
      | Atomic dst src off sz op fetch \<Rightarrow> concrete_atomic pc c dst src off sz op fetch
      | LdAbs sz imm \<Rightarrow> Ok (set_creg c 0 (CV_Scalar 0))
      | LdInd src sz imm \<Rightarrow> rbind (read_concrete_reg pc c src) (\<lambda>_. Ok (set_creg c 0 (CV_Scalar 0)))
      | MovReg dst src \<Rightarrow>
          rbind (check_concrete_reg pc dst) (\<lambda>_. rbind (read_concrete_reg pc c src) (\<lambda>v. Ok (set_creg c dst v)))
      | Jset dst src off \<Rightarrow> cfail (InternalError pc)
      | JsetImm dst imm off \<Rightarrow> cfail (InternalError pc)
      | Jmp32 dst src imm off op \<Rightarrow> cfail (InternalError pc)
      | AluImm op w dst imm \<Rightarrow> concrete_alu_imm pc c dst imm (bin_alu op) w
      | AluReg op w dst src \<Rightarrow> concrete_alu_reg pc c dst src (bin_alu op) w
      | MulImm dst imm high \<Rightarrow> concrete_mul_high pc c dst imm high
      | MulReg dst src high \<Rightarrow> concrete_mul_high_reg pc c dst src high
      | Mul32Imm dst imm \<Rightarrow> concrete_alu_imm pc c dst imm Alu_Mul W32
      | Mul32Reg dst src \<Rightarrow> concrete_alu_reg pc c dst src Alu_Mul W32
      | NegInsn w dst \<Rightarrow> concrete_neg pc c dst w
      | LdImm64 dst imm \<Rightarrow> checked_set pc c dst (CV_Scalar imm)
      | LdMapFd dst fd ks vs mt \<Rightarrow> checked_set pc c dst (MapPtr fd None 0)
      | LdMapValue dst fd off ks vs \<Rightarrow> checked_set pc c dst (MapPtr fd (Some 0) (ucast off))
      | LdImm64Second imm \<Rightarrow> Ok c
      | StMem src base off sz \<Rightarrow>
          rbind (read_concrete_reg pc c base) (\<lambda>bv.
          rbind (locate pc base bv off (mem_bytes sz)) (\<lambda>_.
          rbind (creg_at c src) (\<lambda>v. concrete_store pc c v base off sz)))
      | StMemImm imm base off sz \<Rightarrow> concrete_store pc c (Some (CV_Scalar (scast imm))) base off sz
      | LdMem dst base off sz sign_extend \<Rightarrow> concrete_load pc c dst base off sz sign_extend
      | _ \<Rightarrow> Err Conc_Panic)"

section \<open>Branches\<close>

text \<open>The successor of a decided branch.\<close>

definition decided :: "u32 \<Rightarrow> i16 \<Rightarrow> bool \<Rightarrow> concrete_state \<Rightarrow> (u32 \<times> concrete_state) list" where
  "decided pc off taken c = [(if taken then branch_target pc off else pc + 1, c)]"

definition eq_only :: "concrete_failure \<Rightarrow> cond_op \<Rightarrow> bool \<Rightarrow> (concrete_error, bool) res" where
  "eq_only f op equal =
     (case op of Cond_Eq \<Rightarrow> Ok equal | Cond_Ne \<Rightarrow> Ok (\<not> equal) | _ \<Rightarrow> cfail f)"

definition concrete_cond_values ::
  "u32 \<Rightarrow> u8 \<Rightarrow> u8 \<Rightarrow> cond_op \<Rightarrow> concrete_value \<Rightarrow> concrete_value \<Rightarrow> (concrete_error, bool) res" where
  "concrete_cond_values pc dst src op d s =
     (let f = InvalidComparison pc dst src; bits = concrete_cond op (value_bits d) (value_bits s) in
      case (d, s) of
        (CV_Scalar x, CV_Scalar y) \<Rightarrow> Ok (concrete_cond op x y)
      | (StackPtr x f1, StackPtr y f2) \<Rightarrow> eq_only f op (x = y)
      | (CtxPtr x, CtxPtr y) \<Rightarrow> eq_only f op (x = y)
      | (MemPtr x, MemPtr y) \<Rightarrow> eq_only f op (x = y)
      | (MapPtr a b e, MapPtr a' b' e') \<Rightarrow> eq_only f op (d = s)
      | (MapPtr a b e, CV_Scalar y) \<Rightarrow> if y = 0 then eq_only f op False else Ok bits
      | (CV_Scalar y, MapPtr a b e) \<Rightarrow> if y = 0 then eq_only f op False else Ok bits
      | (MemPtr x, CV_Scalar y) \<Rightarrow> if y = 0 then eq_only f op False else Ok bits
      | (CV_Scalar y, MemPtr x) \<Rightarrow> if y = 0 then eq_only f op False else Ok bits
      | _ \<Rightarrow> Ok bits)"

definition concrete_cond_branch ::
  "u32 \<Rightarrow> u8 \<Rightarrow> u8 \<Rightarrow> i16 \<Rightarrow> cond_op \<Rightarrow> concrete_state \<Rightarrow> (concrete_error, (u32 \<times> concrete_state) list) res" where
  "concrete_cond_branch pc dst src off op c =
     rbind (read_concrete_reg pc c dst) (\<lambda>d.
     rbind (read_concrete_reg pc c src) (\<lambda>s.
     rbind (concrete_cond_values pc dst src op d s) (\<lambda>taken. Ok (decided pc off taken c))))"

definition concrete_cond_imm ::
  "u32 \<Rightarrow> u8 \<Rightarrow> i32 \<Rightarrow> i16 \<Rightarrow> cond_op \<Rightarrow> concrete_state \<Rightarrow> (concrete_error, (u32 \<times> concrete_state) list) res" where
  "concrete_cond_imm pc dst imm off op c =
     rbind (read_concrete_reg pc c dst) (\<lambda>d.
     rbind (let bits = concrete_cond op (value_bits d) (scast imm) in
            case d of
              MapPtr a b e \<Rightarrow> if imm = 0 then eq_only (InvalidComparisonImm pc dst) op False else Ok bits
            | MemPtr x \<Rightarrow> if imm = 0 then eq_only (InvalidComparisonImm pc dst) op False else Ok bits
            | _ \<Rightarrow> Ok bits) (\<lambda>taken. Ok (decided pc off taken c)))"

definition concrete_jset ::
  "u32 \<Rightarrow> u8 \<Rightarrow> u8 \<Rightarrow> i16 \<Rightarrow> concrete_state \<Rightarrow> (concrete_error, (u32 \<times> concrete_state) list) res" where
  "concrete_jset pc dst src off c =
     rbind (read_concrete_reg pc c dst) (\<lambda>d.
     rbind (read_concrete_reg pc c src) (\<lambda>s.
     case (d, s) of
       (CV_Scalar x, CV_Scalar y) \<Rightarrow> Ok (decided pc off (x AND y \<noteq> 0) c)
     | _ \<Rightarrow> cfail (InvalidComparison pc dst src)))"

definition concrete_jset_imm ::
  "u32 \<Rightarrow> u8 \<Rightarrow> i32 \<Rightarrow> i16 \<Rightarrow> concrete_state \<Rightarrow> (concrete_error, (u32 \<times> concrete_state) list) res" where
  "concrete_jset_imm pc dst imm off c =
     rbind (read_concrete_reg pc c dst) (\<lambda>d.
     case d of
       CV_Scalar x \<Rightarrow> Ok (decided pc off (x AND scast imm \<noteq> 0) c)
     | _ \<Rightarrow> cfail (InvalidComparisonImm pc dst))"

definition concrete_jmp32 ::
  "u32 \<Rightarrow> u8 \<Rightarrow> u8 option \<Rightarrow> i32 option \<Rightarrow> i16 \<Rightarrow> jmp32_op \<Rightarrow> concrete_state \<Rightarrow>
   (concrete_error, (u32 \<times> concrete_state) list) res" where
  "concrete_jmp32 pc dst src imm off op c =
     rbind (read_concrete_reg pc c dst) (\<lambda>d.
     case d of
       CV_Scalar x \<Rightarrow>
         rbind (case src of
                  Some r \<Rightarrow> rbind (read_concrete_reg pc c r) (\<lambda>v.
                    case v of CV_Scalar y \<Rightarrow> Ok (ucast y) | _ \<Rightarrow> cfail (InvalidComparison pc dst r))
                | None \<Rightarrow> (case imm of Some i \<Rightarrow> Ok i | None \<Rightarrow> Err Conc_Panic)) (\<lambda>s.
           Ok (decided pc off (jmp32_cmp op (ucast x) s) c))
     | _ \<Rightarrow> cfail (InvalidComparisonImm pc dst))"

section \<open>Helper calls and map values\<close>

definition concrete_arg_matches :: "arg_type \<Rightarrow> concrete_value \<Rightarrow> bool" where
  "concrete_arg_matches expected actual =
     (case (expected, actual) of
        (Arg_PtrToStack, StackPtr a f) \<Rightarrow> True
      | (Arg_Scalar, CV_Scalar x) \<Rightarrow> True
      | (Arg_PtrToMap, MapPtr fd index off) \<Rightarrow> index = None
      | (Arg_PtrToMem, MemPtr a) \<Rightarrow> True
      | (Arg_PtrToDynptr, StackPtr a f) \<Rightarrow> True
      | (Arg_PtrToMapValue, MapPtr fd index off) \<Rightarrow> index \<noteq> None
      | _ \<Rightarrow> False)"

fun check_concrete_args_from :: "nat \<Rightarrow> u32 \<Rightarrow> arg_type list \<Rightarrow> concrete_state \<Rightarrow> (concrete_error, unit) res" where
  "check_concrete_args_from i pc [] c = Ok ()"
| "check_concrete_args_from i pc (expected # rest) c =
     rbind (read_concrete_reg pc c (of_nat (Suc i))) (\<lambda>actual.
       if concrete_arg_matches expected actual then check_concrete_args_from (Suc i) pc rest c
       else cfail (HelperArgMismatch pc (of_nat (Suc i))))"

definition check_concrete_helper_args :: "u32 \<Rightarrow> helper_proto \<Rightarrow> concrete_state \<Rightarrow> (concrete_error, unit) res" where
  "check_concrete_helper_args pc h c = check_concrete_args_from 0 pc (hargs h) c"

definition helper_return_seeds :: "u32 \<Rightarrow> i32 \<Rightarrow> reg_state \<Rightarrow> (concrete_error, concrete_value list) res" where
  "helper_return_seeds pc imm r =
     (case r of
        Scalar b \<Rightarrow>
          Ok (if scalar_is_constant b then [CV_Scalar (smin b)] else [CV_Scalar 0, CV_Scalar 1, CV_Scalar (- 1)])
      | PtrToMemOrNull i p sz \<Rightarrow> Ok [MemPtr 0x5000]
      | PtrToMem mn mx al i p \<Rightarrow> Ok [MemPtr 0x5000]
      | _ \<Rightarrow> cfail (UnsupportedHelperReturn pc imm))"

definition clobber_cregs :: "concrete_state \<Rightarrow> concrete_state" where
  "clobber_cregs c = c\<lparr>cregs := (cregs c)[1 := None, 2 := None, 3 := None, 4 := None, 5 := None]\<rparr>"

definition concrete_call ::
  "u32 \<Rightarrow> i32 \<Rightarrow> concrete_state \<Rightarrow> (concrete_error, (u32 \<times> concrete_state) list) res" where
  "concrete_call pc imm c =
     (case helper_prototype imm of
        None \<Rightarrow> cfail (UnknownHelper pc imm)
      | Some h \<Rightarrow>
          rbind (check_concrete_helper_args pc h c) (\<lambda>_.
          rbind (helper_return_seeds pc imm (hreturn h)) (\<lambda>seeds.
            Ok (map (\<lambda>seed. (pc + 1, set_creg (clobber_cregs c) 0 seed)) seeds))))"

text \<open>A key or value buffer of at most eight bytes, read from one cell of the stack.\<close>

definition concrete_map_buffer :: "u32 \<Rightarrow> concrete_state \<Rightarrow> u8 \<Rightarrow> u32 \<Rightarrow> (concrete_error, u64) res" where
  "concrete_map_buffer pc c r sz =
     (case cregs c ! unat r of
        Some (StackPtr a f) \<Rightarrow>
          (if 8 < unat sz then cfail (UnsupportedHelperReturn pc 0)
           else
             let off = (ucast (a - STACK_BASE) :: i32) in
             rbind (concrete_stack_range pc off (unat sz)) (\<lambda>(slot, in_slot).
             rbind (concrete_frame_stack c f) (\<lambda>st.
             case st ! slot of
               None \<Rightarrow> cfail (UninitializedStackRead pc off)
             | Some v \<Rightarrow>
                 (case concrete_extract v in_slot (unat sz) False of
                    CV_Scalar x \<Rightarrow> Ok x
                  | _ \<Rightarrow> cfail (PointerArithmetic pc r)))))
      | _ \<Rightarrow> cfail (HelperArgMismatch pc r))"

type_synonym concrete_successors_result = "(concrete_error, (u32 \<times> concrete_state) list \<times> map_mem) res"

definition concrete_map_call ::
  "u32 \<Rightarrow> i32 \<Rightarrow> concrete_state \<Rightarrow> map_registry \<Rightarrow> map_mem \<Rightarrow> concrete_successors_result" where
  "concrete_map_call pc imm c maps mem =
     (case cregs c ! 1 of
        Some (MapPtr fd None off) \<Rightarrow>
          (if off \<noteq> 0 then cfail (HelperArgMismatch pc 1)
           else case maps fd of
             None \<Rightarrow> cfail (HelperArgMismatch pc 1)
           | Some info \<Rightarrow>
               rbind (concrete_map_buffer pc c 2 (mi_key_size info)) (\<lambda>key.
               let base = clobber_cregs c; found = (key < ucast (mi_max_entries info)) in
               if imm = 1 then
                 Ok (map (\<lambda>seed. (pc + 1, set_creg base 0 seed))
                       (if found then [MapPtr fd (Some key) 0, CV_Scalar 0] else [CV_Scalar 0]), mem)
               else if imm = 2 then
                 rbind (if found then
                          rbind (concrete_map_buffer pc c 3 (mi_value_size info)) (\<lambda>v.
                          case cregs c ! 4 of
                            Some (CV_Scalar x) \<Rightarrow> Ok (mem((fd, key, 0) \<mapsto> v))
                          | _ \<Rightarrow> cfail (HelperArgMismatch pc 4))
                        else Ok mem) (\<lambda>mem'.
                   Ok ([(pc + 1, set_creg base 0 (CV_Scalar 0))], mem'))
               else Err Conc_Panic))
      | _ \<Rightarrow> cfail (HelperArgMismatch pc 1))"

datatype map_access = Map_Load u8 | Map_Store u8

definition concrete_map_access ::
  "u32 \<Rightarrow> map_access \<Rightarrow> u8 \<Rightarrow> i16 \<Rightarrow> concrete_state \<Rightarrow> map_registry \<Rightarrow> map_mem \<Rightarrow> concrete_successors_result" where
  "concrete_map_access pc access base off c maps mem =
     (case cregs c ! unat base of
        Some (MapPtr fd (Some index) base_off) \<Rightarrow>
          (case maps fd of
             None \<Rightarrow> cfail (HelperArgMismatch pc base)
           | Some info \<Rightarrow>
               (case checked_add base_off (scast off) of
                  None \<Rightarrow> cfail (MapValueOutOfBounds pc i64_MIN)
                | Some o' \<Rightarrow>
                    if sint o' < 0 \<or> (case checked_add o' 8 of None \<Rightarrow> True | Some e \<Rightarrow> uint (mi_value_size info) < sint e)
                      then cfail (MapValueOutOfBounds pc o')
                    else if sint o' mod 8 \<noteq> 0 then cfail (MisalignedStackAccess pc (ucast o'))
                    else (case access of
                        Map_Store src \<Rightarrow>
                          rbind (read_concrete_reg pc c src) (\<lambda>v.
                            Ok ([(pc + 1, c)], mem((fd, index, o') \<mapsto> value_bits v)))
                      | Map_Load dst \<Rightarrow>
                          rbind (creg_at c dst) (\<lambda>_.
                            Ok ([(pc + 1, set_creg c dst (CV_Scalar (case mem (fd, index, o') of Some v \<Rightarrow> v | None \<Rightarrow> 0)))],
                              mem)))))
      | _ \<Rightarrow> cfail (HelperArgMismatch pc base))"

section \<open>Successors\<close>

definition is_map_ptr :: "concrete_value option \<Rightarrow> bool" where
  "is_map_ptr v \<longleftrightarrow> (case v of Some (MapPtr fd index off) \<Rightarrow> True | _ \<Rightarrow> False)"

definition no_mem ::
  "map_mem \<Rightarrow> (concrete_error, (u32 \<times> concrete_state) list) res \<Rightarrow> concrete_successors_result" where
  "no_mem mem r = rbind r (\<lambda>succs. Ok (succs, mem))"

definition fall_through :: "u32 \<Rightarrow> bpf_insn \<Rightarrow> concrete_state \<Rightarrow> map_mem \<Rightarrow> concrete_successors_result" where
  "fall_through pc insn c mem = no_mem mem (rbind (concrete_step pc c insn) (\<lambda>next. Ok [(pc + 1, next)]))"

definition map_constant :: "u32 \<Rightarrow> u8 \<Rightarrow> concrete_value \<Rightarrow> concrete_state \<Rightarrow> map_mem \<Rightarrow> concrete_successors_result" where
  "map_constant pc dst v c mem = no_mem mem (rbind (creg_at c dst) (\<lambda>_. Ok [(pc + 1, set_creg c dst v)]))"

definition concrete_successors ::
  "u32 \<Rightarrow> bpf_insn \<Rightarrow> concrete_state \<Rightarrow> map_registry \<Rightarrow> map_mem \<Rightarrow> concrete_successors_result" where
  "concrete_successors pc insn c maps mem =
     (case insn of
        Exit \<Rightarrow>
          Ok (if ccurframe c = 0 then []
              else [(pc + 1, case concrete_return_from_subprog c of Some r \<Rightarrow> r | None \<Rightarrow> c\<lparr>ccurframe := ccurframe c - 1\<rparr>)],
            mem)
      | CallSub off \<Rightarrow>
          no_mem mem (rbind (concrete_call_subprog (pc + 1) c) (\<lambda>callee. Ok [(pc + 1 + off, callee)]))
      | CallKfunc btf \<Rightarrow> cfail (UnsupportedKfunc pc)
      | Jmp off \<Rightarrow> Ok ([(branch_target pc off, c)], mem)
      | CondReg op dst src off \<Rightarrow> no_mem mem (concrete_cond_branch pc dst src off op c)
      | CondImm op dst imm off \<Rightarrow> no_mem mem (concrete_cond_imm pc dst imm off op c)
      | Jset dst src off \<Rightarrow> no_mem mem (concrete_jset pc dst src off c)
      | JsetImm dst imm off \<Rightarrow> no_mem mem (concrete_jset_imm pc dst imm off c)
      | Jmp32 dst src imm off op \<Rightarrow> no_mem mem (concrete_jmp32 pc dst src imm off op c)
      | Call imm \<Rightarrow>
          (if imm = 1 \<or> imm = 2 then concrete_map_call pc imm c maps mem else no_mem mem (concrete_call pc imm c))
      | LdMapFd dst fd ks vs mt \<Rightarrow> map_constant pc dst (MapPtr fd None 0) c mem
      | LdMapValue dst fd off ks vs \<Rightarrow> map_constant pc dst (MapPtr fd (Some 0) (ucast off)) c mem
      | LdMem dst base off sz sign_extend \<Rightarrow>
          rbind (creg_at c base) (\<lambda>v.
            if is_map_ptr v then concrete_map_access pc (Map_Load dst) base off c maps mem
            else fall_through pc insn c mem)
      | StMem src base off sz \<Rightarrow>
          rbind (creg_at c base) (\<lambda>v.
            if is_map_ptr v then concrete_map_access pc (Map_Store src) base off c maps mem
            else fall_through pc insn c mem)
      | _ \<Rightarrow> fall_through pc insn c mem)"

section \<open>Cleaning\<close>

text \<open>The registers and cells that the liveness masks of an instruction call dead are dropped.\<close>

definition clean_concrete_state :: "u16 \<Rightarrow> u64 \<Rightarrow> concrete_state \<Rightarrow> concrete_state" where
  "clean_concrete_state live_regs live_stack c =
     c\<lparr>cregs := map (\<lambda>(r, v). if r \<noteq> 10 \<and> \<not> bit live_regs r then None else v) (enumerate 0 (cregs c)),
       cstack := map (\<lambda>(i, v). if \<not> bit live_stack i then None else v) (enumerate 0 (cstack c))\<rparr>"

end
