(* ===== verification/Sim_Rel.thy ===== *)
theory Sim_Rel
  imports Memory_Props Concrete_Step
begin

text \<open>
  The simulation relation between the verifier and the concrete interpreter: what it means that an
  abstract state stands for a concrete one. It is stated value by value, relative to a valuation of
  the link identifiers: all scalars with one identifier are the value of the identifier plus their
  delta. A frame is related cell by cell: a cell whose eight bytes are spilled holds a value of the
  spilled register, any other cell is a scalar whose bytes fit the byte marks.
\<close>

section \<open>Values\<close>

type_synonym links = "u32 \<Rightarrow> u64"

text \<open>
  The members of a bound, without its signed 32-bit view: a four-byte fill leaves that view empty, and
  no transfer function reads it.
\<close>

definition in_bounds :: "scalar_bounds \<Rightarrow> u64 \<Rightarrow> bool" where
  "in_bounds b x \<longleftrightarrow> scalar_mem64 b x \<and> in_u32 b (ucast x)"

definition linked :: "links \<Rightarrow> scalar_bounds \<Rightarrow> u64 \<Rightarrow> bool" where
  "linked L b x \<longleftrightarrow> (sid b \<noteq> 0 \<longrightarrow> x = L (sid b) + scast (delta b))"

definition pointer_in :: "i32 \<Rightarrow> i32 \<Rightarrow> u8 \<Rightarrow> int \<Rightarrow> bool" where
  "pointer_in mn mx al v \<longleftrightarrow> sint mn \<le> v \<and> v \<le> sint mx \<and> (al \<noteq> ALIGN_UNKNOWN \<longrightarrow> v mod 8 = uint al)"

fun val_rel :: "links \<Rightarrow> reg_state \<Rightarrow> concrete_value option \<Rightarrow> bool" where
  "val_rel L Uninit v \<longleftrightarrow> v = None"
| "val_rel L (Scalar b) (Some (CV_Scalar x)) \<longleftrightarrow> in_bounds b x \<and> linked L b x"
| "val_rel L (PtrToStack mn mx al f) (Some (StackPtr a g)) \<longleftrightarrow>
     f = g \<and> pointer_in mn mx al (sint (a - STACK_BASE))"
| "val_rel L (PtrToCtx off) (Some (CtxPtr a)) \<longleftrightarrow> a = CTX_BASE + scast off"
| "val_rel L r v \<longleftrightarrow> False"

definition unlinked :: "reg_state \<Rightarrow> bool" where
  "unlinked r \<longleftrightarrow> (case r of Scalar b \<Rightarrow> sid b = 0 | _ \<Rightarrow> True)"

lemma val_rel_Scalar: "val_rel L (Scalar b) v \<longleftrightarrow> (\<exists>x. v = Some (CV_Scalar x) \<and> in_bounds b x \<and> linked L b x)"
  by (induction L "Scalar b" v rule: val_rel.induct) simp_all

lemma val_rel_Stack:
  "val_rel L (PtrToStack mn mx al f) v \<longleftrightarrow>
     (\<exists>a. v = Some (StackPtr a f) \<and> pointer_in mn mx al (sint (a - STACK_BASE)))"
  by (induction L "PtrToStack mn mx al f" v rule: val_rel.induct) auto

lemma val_rel_Ctx: "val_rel L (PtrToCtx off) v \<longleftrightarrow> v = Some (CtxPtr (CTX_BASE + scast off))"
  by (induction L "PtrToCtx off" v rule: val_rel.induct) auto

lemma val_rel_kinds:
  "val_rel L v w \<Longrightarrow> v = Uninit \<or> (\<exists>b. v = Scalar b) \<or> (\<exists>mn mx al f. v = PtrToStack mn mx al f) \<or> (\<exists>off. v = PtrToCtx off)"
  by (induction L v w rule: val_rel.induct) auto

section \<open>Cells\<close>

definition byte_same :: "nat \<Rightarrow> u64 \<Rightarrow> u64 \<Rightarrow> bool" where
  "byte_same p x y \<longleftrightarrow> (\<forall>n<8. bit x (8 * p + n) = bit y (8 * p + n))"

definition partial_rel :: "stack_state \<Rightarrow> nat \<Rightarrow> u64 \<Rightarrow> bool" where
  "partial_rel st k x \<longleftrightarrow>
     (\<forall>j<8. sbytes st ! (k * 8 + j) \<noteq> SB_Dynptr \<and>
        (sbytes st ! (k * 8 + j) \<in> {SB_Invalid, SB_Zero} \<longrightarrow> byte_same (7 - j) x 0) \<and>
        (sbytes st ! (k * 8 + j) = SB_Spill \<longrightarrow> spilled st ! k \<noteq> None)) \<and>
     (\<forall>r. spilled st ! k = Some r \<longrightarrow>
        (\<exists>b y. r = Scalar b \<and> in_bounds b y \<and> (\<forall>j<8. sbytes st ! (k * 8 + j) = SB_Spill \<longrightarrow> byte_same (7 - j) x y)))"

definition cell_rel :: "links \<Rightarrow> stack_state \<Rightarrow> nat \<Rightarrow> concrete_value option \<Rightarrow> bool" where
  "cell_rel L st k cell \<longleftrightarrow>
     (case cell of
        None \<Rightarrow> \<forall>j<8. sbytes st ! (k * 8 + j) = SB_Invalid
      | Some v \<Rightarrow>
          if full_spill st k then (\<exists>r. spilled st ! k = Some r \<and> val_rel L r cell)
          else (\<exists>x. v = CV_Scalar x \<and> partial_rel st k x))"

definition stack_rel :: "links \<Rightarrow> stack_state \<Rightarrow> cells \<Rightarrow> bool" where
  "stack_rel L st cs \<longleftrightarrow> stack_wf st \<and> length cs = STACK_SLOTS \<and> (\<forall>k<STACK_SLOTS. cell_rel L st k (cs ! k))"

definition regs_rel :: "links \<Rightarrow> reg_state list \<Rightarrow> cells \<Rightarrow> bool" where
  "regs_rel L rs cs \<longleftrightarrow>
     length rs = NUM_REGS \<and> length cs = NUM_REGS \<and> (\<forall>i<NUM_REGS. val_rel L (rs ! i) (cs ! i))"

definition frame_rel :: "links \<Rightarrow> frame_state \<Rightarrow> concrete_frame \<Rightarrow> bool" where
  "frame_rel L fr cf \<longleftrightarrow>
     regs_rel L (fr_regs fr) (cf_regs cf) \<and> stack_rel L (fr_stack fr) (cf_stack cf) \<and> fr_ret_pc fr = cf_ret_pc cf"

definition saved_rel :: "links \<Rightarrow> verifier_state \<Rightarrow> concrete_state \<Rightarrow> bool" where
  "saved_rel L s c \<longleftrightarrow>
     length (csaved c) = MAX_CALL_FRAMES - 1 \<and>
     (\<forall>k<unat (curframe s). \<exists>fr cf. saved s ! k = Some fr \<and> csaved c ! k = Some cf \<and> frame_rel L fr cf)"

definition sim :: "links \<Rightarrow> verifier_state \<Rightarrow> concrete_state \<Rightarrow> bool" where
  "sim L s c \<longleftrightarrow>
     regs_rel L (regs s) (cregs c) \<and> stack_rel L (stack s) (cstack c) \<and> saved_rel L s c \<and>
     curframe s = ccurframe c \<and> ret_pc s = cret_pc c \<and> vprog_type s = cprog_type c"

definition covers :: "verifier_state \<Rightarrow> concrete_state \<Rightarrow> bool" where
  "covers s c \<longleftrightarrow> exec_wf s \<and> (\<exists>L. sim L s c)"

section \<open>Registers\<close>

lemma sim_read:
  assumes "sim L s c" "read_reg pc s r = Ok v"
  obtains w where "read_concrete_reg pc c r = Ok w" "val_rel L v (Some w)"
proof -
  have "val_rel L (regs s ! unat r) (cregs c ! unat r)" "unat r < NUM_REGS" "regs s ! unat r = v" "v \<noteq> Uninit"
    using assms by (auto simp: sim_def regs_rel_def read_reg_Ok_iff)
  then obtain w where "cregs c ! unat r = Some w" "val_rel L v (Some w)"
    by (cases "cregs c ! unat r"; cases v) auto
  then show thesis
    using that \<open>unat r < NUM_REGS\<close> by (simp add: read_concrete_reg_def check_concrete_reg_def)
qed

lemma read_scalar_reg: "read_scalar pc s r = Ok b \<Longrightarrow> read_reg pc s r = Ok (Scalar b)"
  by (simp add: read_scalar_Ok_iff read_reg_Ok_iff)

lemma sim_read_scalar:
  assumes "sim L s c" "read_scalar pc s r = Ok b"
  obtains x where "read_concrete_reg pc c r = Ok (CV_Scalar x)" "in_bounds b x" "linked L b x"
  using sim_read [OF assms(1) read_scalar_reg [OF assms(2)]] by (auto simp: val_rel_Scalar)

lemma sim_read_stack:
  assumes "sim L s c" "read_reg pc s r = Ok (PtrToStack mn mx al f)"
  shows "\<exists>a. read_concrete_reg pc c r = Ok (StackPtr a f) \<and> pointer_in mn mx al (sint (a - STACK_BASE))"
proof -
  obtain w where "read_concrete_reg pc c r = Ok w" "val_rel L (PtrToStack mn mx al f) (Some w)"
    by (rule sim_read [OF assms])
  then show ?thesis by (auto simp: val_rel_Stack)
qed

lemma sim_read_ctx:
  assumes "sim L s c" "read_reg pc s r = Ok (PtrToCtx off)"
  shows "read_concrete_reg pc c r = Ok (CtxPtr (CTX_BASE + scast off))"
proof -
  obtain w where "read_concrete_reg pc c r = Ok w" "val_rel L (PtrToCtx off) (Some w)"
    by (rule sim_read [OF assms])
  then show ?thesis by (simp add: val_rel_Ctx)
qed

lemma pointer_in_exact: "pointer_in mn mn al v \<Longrightarrow> v = sint mn"
  by (simp add: pointer_in_def)

lemma check_concrete_reg_Ok [simp]: "check_concrete_reg pc r = Ok u \<longleftrightarrow> unat r < NUM_REGS"
  by (auto simp: check_concrete_reg_def)

lemma regs_rel_update: "regs_rel L rs cs \<Longrightarrow> val_rel L v w \<Longrightarrow> regs_rel L (rs[i := v]) (cs[i := w])"
  unfolding regs_rel_def by (metis length_list_update nth_list_update_eq nth_list_update_neq)

lemma sim_set: "sim L s c \<Longrightarrow> val_rel L v (Some w) \<Longrightarrow> sim L (set_reg s r v) (set_creg c r w)"
  by (simp add: sim_def set_reg_def set_creg_def regs_rel_update saved_rel_def)

section \<open>Frames\<close>

lemma sim_frame_stack:
  assumes "sim L s c" "exec_wf s" "frame_stack s f = Ok st" "unat f \<le> unat (curframe s)"
  obtains cs where "concrete_frame_stack c f = Ok cs" "stack_rel L st cs"
proof (cases "f = curframe s")
  case True
  then show thesis
    using that [of "cstack c"] assms by (simp add: sim_def frame_stack_def concrete_frame_stack_def)
next
  case False
  then have lt: "unat f < unat (curframe s)" using assms(4) by (simp add: order_le_less word_unat_eq_iff)
  then obtain fr cf where f: "saved s ! unat f = Some fr" "csaved c ! unat f = Some cf" "frame_rel L fr cf"
    using assms(1) by (auto simp: sim_def saved_rel_def)
  have "unat f < length (csaved c)"
    using assms(1,2) lt unfolding sim_def saved_rel_def exec_wf_def saved_ok_def by linarith
  then show thesis
    using that [of "cf_stack cf"] f False assms(1,3)
    by (auto simp: frame_stack_def concrete_frame_stack_def sim_def frame_rel_def split: if_splits)
qed

lemma sim_put:
  assumes "sim L s c" "exec_wf s" "stack_rel L st cs" "unat f \<le> unat (curframe s)"
  shows "sim L (put_frame_stack s f st) (put_concrete_stack c f cs)"
proof (cases "f = curframe s")
  case True
  then show ?thesis
    using assms by (simp add: sim_def put_frame_stack_def put_concrete_stack_def saved_rel_def)
next
  case False
  then have lt: "unat f < unat (curframe s)" using assms(4) by (simp add: order_le_less word_unat_eq_iff)
  have lens: "length (saved s) = MAX_CALL_FRAMES - 1" "length (csaved c) = MAX_CALL_FRAMES - 1"
    "unat (curframe s) < MAX_CALL_FRAMES"
    using assms(1,2) by (simp_all add: exec_wf_def saved_ok_def sim_def saved_rel_def)
  have "\<exists>fr cf. (saved s)[unat f := map_option (fr_stack_update (\<lambda>_. st)) (saved s ! unat f)] ! k = Some fr \<and>
      (csaved c)[unat f := map_option (cf_stack_update (\<lambda>_. cs)) (csaved c ! unat f)] ! k = Some cf \<and> frame_rel L fr cf"
    if k: "k < unat (curframe s)" for k
  proof -
    obtain fr cf where f: "saved s ! k = Some fr" "csaved c ! k = Some cf" "frame_rel L fr cf"
      using assms(1) k by (auto simp: sim_def saved_rel_def)
    then show ?thesis
      using k lens assms(3) by (cases "k = unat f") (simp_all add: frame_rel_def)
  qed
  then show ?thesis
    using assms(1) False lens by (simp add: sim_def put_frame_stack_def put_concrete_stack_def saved_rel_def)
qed

lemma stack_rel_new: "stack_rel L stack_new (replicate STACK_SLOTS None)"
  using stack_wf_new by (auto simp: stack_rel_def cell_rel_def stack_new_def stack_wf_def)

lemma sim_initial: "sim L (initial_with t) (concrete_initial_with t)"
proof -
  have "regs_rel L (replicate NUM_REGS Uninit) (replicate NUM_REGS None)"
    by (simp add: regs_rel_def)
  then have "regs_rel L initial_reg_state ((replicate NUM_REGS None)[1 := Some (CtxPtr CTX_BASE), 10 := Some (StackPtr STACK_BASE 0)])"
    unfolding initial_reg_state_def
    by (intro regs_rel_update) (simp_all add: pointer_in_def)
  then show ?thesis
    using stack_rel_new by (simp add: sim_def initial_with_def concrete_initial_with_def saved_rel_def)
qed

lemma covers_initial: "covers (initial_with t) (concrete_initial_with t)"
  using exec_wf_initial sim_initial by (auto simp: covers_def)

end
