(* ===== verification/Sim_Values.thy ===== *)
theory Sim_Values
  imports Sim_Rel
begin

text \<open>
  The transfer functions on values keep the simulation relation: ALU operations with their links,
  moves of a low half, fills of a part of a spilled scalar, the bounds of a linked scalar, and the
  offsets of pointers.
\<close>

section \<open>Casts of signed words\<close>

lemma sint_word_eqI: "sint a = sint b \<Longrightarrow> a = b" for a b :: "'a::len word"
  by (simp add: signed_word_eqI)

lemma sint_of_fits [simp]: "- (2 ^ 63) \<le> v \<Longrightarrow> v < 2 ^ 63 \<Longrightarrow> sint (word_of_int v :: i64) = v"
  by (simp add: signed_of_int signed_take_bit_int_eq_self)

lemma sint_scast_up [simp]:
  "sint (scast w :: i64) = sint w" "sint (scast v :: i64) = sint v" for w :: i32 and v :: i16
  by (simp_all add: sint_up_scast is_up)

lemma sint16_bounds: "- (2 ^ 15) \<le> sint w" "sint w < 2 ^ 15" for w :: i16
  using sint_ge [of w] sint_lt [of w] by simp_all

lemma sint_ucast_down: "sint (ucast x :: i32) = signed_take_bit 31 (sint x)" for x :: i64
  by transfer (simp add: signed_take_bit_take_bit)

lemma sint_ucast_fits: "- (2 ^ 31) \<le> sint x \<Longrightarrow> sint x < 2 ^ 31 \<Longrightarrow> sint (ucast x :: i32) = sint x" for x :: i64
  by (simp add: sint_ucast_down signed_take_bit_int_eq_self)

section \<open>Scalars\<close>

definition widen :: "scalar_bounds \<Rightarrow> scalar_bounds" where
  "widen b = b\<lparr>s32_min := i32_MIN, s32_max := i32_MAX\<rparr>"

lemma in_bounds_widen: "in_bounds b x \<longleftrightarrow> scalar_mem (widen b) x"
  using sint32_bounds [of "ucast x"]
  by (simp add: in_bounds_def scalar_mem_def scalar_mem64_def in_range_defs widen_def)

lemma scalar_mem_in_bounds: "scalar_mem b x \<Longrightarrow> in_bounds b x"
  by (simp add: in_bounds_def scalar_memD)

lemma in_bounds_mem64: "in_bounds b x \<Longrightarrow> scalar_mem64 b x"
  by (simp add: in_bounds_def)

lemma in_bounds_constant [simp]: "in_bounds (scalar_constant v) v" "in_bounds scalar_unknown x"
  by (simp_all add: scalar_mem_in_bounds)

lemma in_bounds_links [simp]:
  "in_bounds (b\<lparr>sid := i\<rparr>) x \<longleftrightarrow> in_bounds b x" "in_bounds (b\<lparr>delta := d\<rparr>) x \<longleftrightarrow> in_bounds b x"
  by (simp_all add: in_bounds_def scalar_mem64_def in_range_defs)

lemma linked_constant [simp]: "linked L (scalar_constant v) x" "linked L scalar_unknown x"
  "sid b = 0 \<Longrightarrow> linked L b x"
  by (simp_all add: linked_def scalar_constant_def scalar_unknown_def)

lemma widen_simps [simp]:
  "smin (widen b) = smin b" "smax (widen b) = smax b" "umin (widen b) = umin b" "umax (widen b) = umax b"
  "u32_min (widen b) = u32_min b" "u32_max (widen b) = u32_max b" "stnum (widen b) = stnum b"
  "sid (widen b) = sid b" "delta (widen b) = delta b" "scalar_is_constant (widen b) = scalar_is_constant b"
  "scalar_signed (widen b) = scalar_signed b" "scalar_unsigned (widen b) = scalar_unsigned b"
  "alu_bounds sr ur t (widen b) = alu_bounds sr ur t b" "scalar_wf (widen b) = scalar_wf b"
  by (simp_all add: widen_def scalar_is_constant_def scalar_signed_def scalar_unsigned_def alu_bounds_def scalar_wf_def)

lemma apply_alu_widen: "apply_alu op w (widen d) (widen s) = apply_alu op w d s"
  by (simp only: apply_alu_def apply_linking_def apply_alu_inner_def widen_simps)

lemma alu_in_bounds:
  assumes "scalar_wf d" "scalar_wf s" "in_bounds d x" "in_bounds s y" "alu_ok op w d s"
  shows "in_bounds (apply_alu op w d s) (alu_value op w x y)"
proof -
  have "scalar_mem (apply_alu op w (widen d) (widen s)) (alu_value op w x y)"
    using assms
    by (intro apply_alu_mem)
      (cases w; simp add: scalar_wf_def widen_def in_bounds_widen scalar_signed_def alu32_ok_def)+
  then show ?thesis by (simp add: apply_alu_widen scalar_mem_in_bounds)
qed

lemma links_synced [simp]: "sid (synced b) = sid b" "delta (synced b) = delta b"
  by (simp_all add: synced_def synced_ranges_def synced_u32_def synced_s32_def synced_tnum_def Let_def)

lemma links_alu_bounds [simp]: "sid (alu_bounds sr ur t d) = sid d" "delta (alu_bounds sr ur t d) = delta d"
  by (simp_all add: alu_bounds_def)

lemma links_constant [simp]: "sid (scalar_constant v) = 0" "sid scalar_unknown = 0"
  by (simp_all add: scalar_constant_def scalar_unknown_def)

lemma sid_alu_inner:
  assumes "sid (apply_alu_inner op w d s) \<noteq> 0"
  shows "delta (apply_alu_inner op w d s) = delta d"
  using assms by (cases w) (auto simp: apply_alu_inner_def Let_def split: if_splits prod.splits)

lemma if_nest:
  "(if A then if \<not> B then z else if C then z else if D then y else z else z) = (if A \<and> B \<and> \<not> C \<and> D then y else z)"
  by simp

lemma if_taken: "sid z = 0 \<Longrightarrow> sid (if P then y else z) \<noteq> 0 \<Longrightarrow> P \<and> (if P then y else z) = y"
  by (cases P) simp_all

lemma apply_linking_linked:
  assumes "sid (apply_linking op w r d s) \<noteq> 0"
  defines "off \<equiv> (if op = Alu_Sub then - smin s else smin s)"
  shows "(op = Alu_Add \<or> op = Alu_Sub) \<and> scalar_is_constant s \<and> w = W64 \<and> sid r = sid d \<and> delta r = 0 \<and>
    scast i32_MIN \<le>s off \<and> off \<le>s scast i32_MAX \<and> apply_linking op w r d s = r\<lparr>delta := ucast off\<rparr>"
proof -
  have r: "apply_linking op w r d s =
      (if ((op = Alu_Add \<or> op = Alu_Sub) \<and> scalar_is_constant s) \<and> w = W64 \<and>
          \<not> (sid d = 0 \<or> sid r \<noteq> sid d \<or> delta r \<noteq> 0) \<and> scast i32_MIN \<le>s off \<and> off \<le>s scast i32_MAX
       then r\<lparr>delta := ucast off\<rparr> else clear_link r)"
    unfolding apply_linking_def Let_def off_def by (rule if_nest)
  have "sid (clear_link r) = 0" by (simp add: clear_link_def)
  from if_taken [OF this assms(1) [unfolded r]] show ?thesis unfolding r by blast
qed

lemma scast_ucast_range:
  "scast i32_MIN \<le>s off \<Longrightarrow> off \<le>s scast i32_MAX \<Longrightarrow> scast (ucast off :: i32) = off" for off :: i64
proof -
  assume "scast i32_MIN \<le>s off" "off \<le>s scast i32_MAX"
  then have "sint (scast (ucast off :: i32) :: i64) = sint off"
    by (simp add: sint_ucast_fits word_sle_eq)
  then show ?thesis by (simp only: signed_word_eqI)
qed

lemma alu_linked:
  assumes "linked L d x" "in_bounds s y"
  shows "linked L (apply_alu op w d s) (alu_value op w x y)"
proof (cases "sid (apply_alu op w d s) = 0")
  case False
  let ?r = "apply_alu_inner op w d s" and ?off = "if op = Alu_Sub then - smin s else smin s"
  have c: "op = Alu_Add \<or> op = Alu_Sub" "scalar_is_constant s" "w = W64" "sid ?r = sid d" "delta ?r = 0"
    "scast i32_MIN \<le>s ?off" "?off \<le>s scast i32_MAX" "apply_alu op w d s = ?r\<lparr>delta := ucast ?off\<rparr>"
    using apply_linking_linked [of op w ?r d s] False unfolding apply_alu_def by blast+
  have y: "y = smin s" using scalar_is_constant_mem(1) [OF c(2)] assms(2) in_bounds_mem64 by blast
  then have v: "alu_value op w x y = x + ?off" using c(1,3) by auto
  have "sid d \<noteq> 0" using False c(4,8) by simp
  moreover have "delta d = 0" using sid_alu_inner [of op w d s] c(4,5) calculation by simp
  ultimately have x: "x = L (sid d)" using assms(1) by (simp add: linked_def)
  have "alu_value op w x y = L (sid d) + scast (ucast ?off :: i32)"
    unfolding scast_ucast_range [OF c(6,7)] using y x c(1,3) by auto
  then show ?thesis unfolding linked_def c(8) using c(4) by (simp del: alu_value.simps)
qed simp

lemma alu_val_rel:
  assumes "scalar_wf d" "scalar_wf s" "in_bounds d x" "in_bounds s y" "alu_ok op w d s" "linked L d x"
  shows "val_rel L (Scalar (apply_alu op w d s)) (Some (CV_Scalar (alu_value op w x y)))"
  using alu_in_bounds [OF assms(1-5)] alu_linked [OF assms(6,4)] by simp

lemma scalar_val_rel: "scalar_mem b x \<Longrightarrow> sid b = 0 \<Longrightarrow> val_rel L (Scalar b) (Some (CV_Scalar x))"
  by (simp add: scalar_mem_in_bounds)


section \<open>Linked scalars\<close>

lemma in_bounds_set_links [simp]: "in_bounds (b\<lparr>sid := i, delta := d\<rparr>) x \<longleftrightarrow> in_bounds b x"
  by (simp add: in_bounds_def scalar_mem64_def in_range_defs)

lemma linked_bounds_val_rel:
  assumes "scalar_wf known" "in_bounds known x" "linked L b y" "sid b \<noteq> 0" "x = L (sid b) + scast kd"
  shows "val_rel L (Scalar (linked_bounds kd known b)) (Some (CV_Scalar y))"
proof -
  let ?shift = "link_shift (delta b) kd"
  have y: "y = x + ?shift"
    using assms(3-5) by (simp add: linked_def link_shift_def)
  have "in_bounds (apply_alu Alu_Add W64 known (scalar_constant ?shift)) (alu_value Alu_Add W64 x ?shift)"
    using assms(1,2) by (intro alu_in_bounds) (simp_all add: signed_ok_def wf_intros)
  then have "in_bounds (linked_bounds kd known b) y"
    using assms(2) y by (simp add: linked_bounds_def Let_def)
  moreover have "linked L (linked_bounds kd known b) y"
    using assms(3) by (simp add: linked_bounds_def Let_def linked_def)
  ultimately show ?thesis by simp
qed

section \<open>Widths\<close>

lemma zero_for_width: "scalar_mem (scalar_for_width sz se) 0"
  by (auto simp: scalar_for_width_def intro!: scalar_from_signed_mem)

lemma sid_from_signed [simp]: "sid (scalar_from_signed mn mx) = 0"
  by (simp add: scalar_from_signed_def Let_def)

lemma sid_for_width [simp]: "sid (scalar_for_width sz se) = 0"
  by (simp add: scalar_for_width_def)

lemma mov32_val_rel:
  assumes "in_bounds b x"
  shows "val_rel L (Scalar (mov32_bounds b)) (Some (CV_Scalar (ucast (ucast x :: u32))))"
proof -
  let ?y = "ucast (ucast x :: u32) :: u64"
  have "?y = take_bit 32 x"
    by (rule bit_word_eqI) (auto simp: bit_simps)
  then have y: "?y = x AND 0xFFFFFFFF"
    by (simp add: take_bit_eq_mask mask_eq_exp_minus_1)
  have nonneg: "0 \<le> sint (x AND 0xFFFFFFFF)"
    using sint_ucast32 [of "ucast x"] by (simp add: y)
  have "scalar_mem (mov32_bounds b) ?y"
  proof (cases "scalar_is_constant b")
    case True
    then have "x = umax b"
      using scalar_is_constant_mem(2) [OF True in_bounds_mem64 [OF assms]] by (simp add: scalar_is_constant_def)
    then show ?thesis
      using True y nonneg
      by (simp add: mov32_bounds_def) (rule scalar_from_signed_mem; simp)
  next
    case False
    then show ?thesis
      using uint32_bounds [of "ucast x"] by (simp add: mov32_bounds_def) (rule scalar_from_signed_mem; simp add: sint_ucast32)
  qed
  then show ?thesis by (intro scalar_val_rel) (simp_all add: mov32_bounds_def)
qed

section \<open>Fills of a part of a spilled scalar\<close>

lemma bytes_same_mask:
  assumes "\<And>p. p < sz \<Longrightarrow> byte_same p x y"
  shows "x AND mask (sz * 8) = y AND mask (sz * 8)"
proof (rule bit_word_eqI)
  fix i assume "i < LENGTH(64)"
  have "bit x i = bit y i" if "i < sz * 8"
  proof -
    have "i div 8 < sz" "i mod 8 < 8" using that by auto
    then have "bit x (8 * (i div 8) + i mod 8) = bit y (8 * (i div 8) + i mod 8)"
      using assms unfolding byte_same_def by blast
    then show ?thesis by simp
  qed
  then show "bit (x AND mask (sz * 8)) i = bit (y AND mask (sz * 8)) i"
    by (auto simp: bit_simps)
qed

lemma narrow_contains:
  assumes "tnum_contains t y" "x AND mask n = y AND mask n"
  shows "tnum_contains \<lparr>tvalue = tvalue t AND mask n, tmask = (tmask t AND mask n) OR NOT (mask n)\<rparr> x"
proof -
  have "bit x i = bit y i" if "i < n" for i
    using assms(2) that bit_imp_le_length [of x i] bit_imp_le_length [of y i] by (auto simp: bit_eq_iff bit_simps)
  then show ?thesis
    using assms(1) by (auto simp: tnum_contains_iff bit_simps)
qed

lemma in_bounds_unknown_tnum: "tnum_contains t x \<Longrightarrow> in_bounds (scalar_unknown\<lparr>stnum := t\<rparr>) x"
  using scalar_mem_unknown [of x]
  by (simp add: in_bounds_def scalar_mem_def scalar_mem64_def in_range_defs)

lemma low_mask_sizes:
  "mask (1 * 8) = (0xFF :: u64)" "mask (2 * 8) = (0xFFFF :: u64)" "mask (4 * 8) = (0xFFFFFFFF :: u64)"
  by (simp_all add: mask_eq_exp_minus_1)

lemma masked_in_bounds:
  assumes "sz = 1 \<or> sz = 2 \<or> sz = 4" "tnum_contains t (x AND mask (sz * 8))"
  defines "m \<equiv> mask (sz * 8) :: u64"
  shows "in_bounds \<lparr>smin = 0, smax = m, umin = 0, umax = m, s32_min = 0, s32_max = i, u32_min = 0,
    u32_max = ucast (min m 0xFFFFFFFF), stnum = t, precise = p, sid = 0, delta = 0\<rparr> (x AND m)"
proof -
  let ?r = "x AND m"
  have "uint m < 2 ^ 32"
    using assms(1) unfolding m_def by (auto simp: mask_eq_exp_minus_1)
  then have u: "uint ?r \<le> uint m" "uint m < 2 ^ 32"
    by (simp_all add: word_and_le1 flip: word_le_def)
  then have small: "m \<le> 0xFFFFFFFF" by (simp add: word_le_def)
  have "sint ?r = uint ?r" "sint m = uint m" "uint (ucast ?r :: u32) = uint ?r" "uint (ucast m :: u32) = uint m"
    using u sint64_cases [of ?r] sint64_cases [of m]
    by (simp_all add: unsigned_ucast_eq take_bit_int_eq_self)
  then show ?thesis
    using u assms(2) small
    by (simp add: in_bounds_def scalar_mem64_def in_range_defs word_le_def min_absorb1 flip: m_def)
qed

lemma coerce_val_rel:
  assumes b: "in_bounds b y" and sz: "sz = 1 \<or> sz = 2 \<or> sz = 4" and low: "\<And>p. p < sz \<Longrightarrow> byte_same p x y"
  shows "val_rel L (Scalar (coerce_scalar b sz se)) (Some (concrete_extract (CV_Scalar x) 0 sz se))"
proof -
  let ?m = "mask (sz * 8) :: u64"
  have same: "x AND ?m = y AND ?m" by (rule bytes_same_mask [OF low])
  have t: "tnum_contains (stnum b) y" using b by (simp add: in_bounds_def scalar_mem64_def)
  have r: "r AND ?m = y AND ?m" if "r = x AND ?m \<or> r = (x AND ?m) OR NOT ?m" for r
    using that same by (auto simp: bit_eq_iff bit_simps)
  let ?t = "\<lparr>tvalue = tvalue (stnum b) AND ?m, tmask = (tmask (stnum b) AND ?m) OR NOT ?m\<rparr>"
  define r where "r = (if se \<and> (x AND ?m) AND push_bit (sz * 8 - 1) 1 \<noteq> 0 then (x AND ?m) OR NOT ?m else x AND ?m)"
  have ext: "concrete_extract (CV_Scalar x) 0 sz se = CV_Scalar r"
    using sz unfolding r_def concrete_extract_def low_mask_def Let_def by auto
  have "r AND ?m = y AND ?m"
    unfolding r_def same [symmetric] by (auto simp: bit_eq_iff bit_simps)
  from narrow_contains [OF t this] have narrow: "tnum_contains ?t r" .
  have "\<not> 8 \<le> sz" using sz by auto
  then have co: "coerce_scalar b sz se =
      (if scalar_is_constant b then
         let v = smin b AND ?m in
         scalar_constant (if se \<and> v AND push_bit (sz * 8 - 1) 1 \<noteq> 0 then v OR NOT ?m else v)
       else if se then scalar_unknown\<lparr>stnum := ?t\<rparr>
       else \<lparr>smin = 0, smax = ?m, umin = 0, umax = ?m, s32_min = 0, s32_max = ucast (min ?m 0xFFFFFFFF),
             u32_min = 0, u32_max = ucast (min ?m 0xFFFFFFFF), stnum = ?t, precise = precise b, sid = 0, delta = 0\<rparr>)"
    unfolding coerce_scalar_def Let_def by simp
  have "in_bounds (coerce_scalar b sz se) r"
  proof (cases "scalar_is_constant b")
    case True
    then have "y = smin b" using scalar_is_constant_mem(1) [OF True in_bounds_mem64 [OF b]] by simp
    then show ?thesis unfolding co r_def same using True by (simp only: if_True Let_def in_bounds_constant)
  next
    case False
    show ?thesis
    proof (cases se)
      case True
      then show ?thesis unfolding co using False in_bounds_unknown_tnum [OF narrow] by simp
    next
      case False
      then have "r = x AND ?m" by (simp add: r_def)
      then show ?thesis
        unfolding co using False \<open>\<not> scalar_is_constant b\<close> masked_in_bounds [OF sz narrow [unfolded \<open>r = x AND ?m\<close>]] by simp
    qed
  qed
  moreover have "sid (coerce_scalar b sz se) = 0"
    unfolding co by (simp add: Let_def)
  ultimately show ?thesis unfolding ext by simp
qed

section \<open>Offsets of pointers\<close>

lemma sint_sat_i32: "- (2 ^ 31) \<le> v \<Longrightarrow> v < 2 ^ 31 \<Longrightarrow> sint (sat_i32 v) = v"
  by (simp add: sat_i32_def signed_of_int signed_take_bit_int_eq_self)

lemma sat_int64_id: "- (2 ^ 63) \<le> v \<Longrightarrow> v < 2 ^ 63 \<Longrightarrow> sat_int64 v = v"
  by (simp add: sat_int64_def)

lemma uint_align: "uint (word_of_int (v mod 8) :: u8) = v mod 8"
  by (simp add: unsigned_of_int take_bit_int_eq_self)

lemma pointer_in_moved:
  assumes "pointer_in mn mx al v" "al \<noteq> ALIGN_UNKNOWN"
    and "sint mn' \<le> sint mn + k" "sint mx + k \<le> sint mx'" "al' = word_of_int ((uint al + k) mod 8) \<or> al' = ALIGN_UNKNOWN"
  shows "pointer_in mn' mx' al' (v + k)"
proof -
  have "v mod 8 = uint al" using assms(1,2) by (simp add: pointer_in_def)
  then have "(v + k) mod 8 = (uint al + k) mod 8" by (metis mod_add_left_eq)
  then show ?thesis using assms by (auto simp: pointer_in_def uint_align)
qed

lemma pointer_plus_imm:
  assumes "pointer_in mn mx al v" "al \<noteq> ALIGN_UNKNOWN" "check_sane_result_offset pc kind (sint mn + sint imm) = Ok u"
    and "sint mx + sint imm < 2 ^ 31"
  shows "pointer_in (sat_i32 (sint mn + sint imm)) (sat_i32 (sint mx + sint imm)) (align_imm al imm) (v + sint imm)"
proof (rule pointer_in_moved [OF assms(1,2)])
  have sane: "- (2 ^ 28) < sint mn + sint imm" "sint mn + sint imm < 2 ^ 28" "sint mn \<le> sint mx"
    using assms(1,3) by (auto simp: check_sane_result_offset_def BPF_MAX_VAR_OFF_def pointer_in_def split: if_splits)
  then show "sint (sat_i32 (sint mn + sint imm)) \<le> sint mn + sint imm"
    "sint mx + sint imm \<le> sint (sat_i32 (sint mx + sint imm))"
    using assms(4) by (simp_all add: sint_sat_i32)
  show "align_imm al imm = word_of_int ((uint al + sint imm) mod 8) \<or> align_imm al imm = ALIGN_UNKNOWN"
    by (simp add: align_imm_def mod_simps)
qed

lemma low_bits_mod8: "sint x mod 8 = uint (x AND 7)" for x :: u64
proof -
  have "(k - 18446744073709551616) mod 8 = k mod 8" for k :: int
    using mod_mult_self1 [of k "- 2305843009213693952" 8] by simp
  then have "sint x mod 8 = uint x mod 8"
    using sint64_cases [of x] by auto
  also have "\<dots> = uint (x AND 7)"
    using take_bit_eq_mask [of 3 x] uint_mod [of x 8] by (simp add: mask_eq_exp_minus_1 take_bit_eq_mod)
  finally show ?thesis .
qed

lemma tnum_low_bits: "tnum_contains t x \<Longrightarrow> tmask t AND 7 = 0 \<Longrightarrow> x AND 7 = tvalue t AND 7"
  by (rule bit_word_eqI) (force simp: tnum_contains_iff bit_simps bit_eq_iff)

lemma pointer_plus_scalar:
  assumes p: "pointer_in mn mx al v" "al \<noteq> ALIGN_UNKNOWN" and r: "shifted_range pc kind mn mx b = Ok (mn', mx')"
    and x: "in_bounds b x" and hi: "sint mx + sint (smax b) < 2 ^ 31"
  shows "pointer_in mn' mx' (align_scalar al b) (v + sint x)"
proof -
  have b: "sint (smin b) \<le> sint x" "sint x \<le> sint (smax b)" "tnum_contains (stnum b) x"
    using x by (simp_all add: in_bounds_def scalar_mem64_def in_range_defs)
  have mn: "sint mn \<le> sint mx" "- (2 ^ 31) \<le> sint mn" "sint mn < 2 ^ 31"
    using p(1) sint32_bounds [of mn] by (simp_all add: pointer_in_def)
  have sane: "- (2 ^ 28) < sint (smin b)" "sint (smin b) < 2 ^ 28"
    using r by (auto simp: shifted_range_def check_sane_addend_def Let_def BPF_MAX_VAR_OFF_def rbind_Ok_iff split: if_splits)
  have s: "sat_int64 (sint mn + sint (smin b)) = sint mn + sint (smin b)"
    "sat_int64 (sint mx + sint (smax b)) = sint mx + sint (smax b)"
    using sane mn b hi by (auto intro!: sat_int64_id)
  have mn': "mn' = sat_i32 (sint mn + sint (smin b))" "mx' = sat_i32 (sint mx + sint (smax b))"
    "- (2 ^ 28) < sint mn + sint (smin b)" "sint mn + sint (smin b) < 2 ^ 28"
    using r by (auto simp: shifted_range_def Let_def s rbind_Ok_iff clamp_offset_def check_sane_result_offset_def
        BPF_MAX_VAR_OFF_def split: if_splits)
  show ?thesis
  proof (rule pointer_in_moved [OF p])
    show "sint mn' \<le> sint mn + sint x" "sint mx + sint x \<le> sint mx'"
      using mn' mn b hi by (simp_all add: sint_sat_i32)
    show "align_scalar al b = word_of_int ((uint al + sint x) mod 8) \<or> align_scalar al b = ALIGN_UNKNOWN"
    proof (cases "tmask (stnum b) AND 7 = 0")
      case True
      then have "uint (tvalue (stnum b) AND 7) = sint x mod 8"
        using tnum_low_bits [OF b(3)] by (simp add: low_bits_mod8)
      then show ?thesis using True by (simp add: align_scalar_def mod_simps)
    qed (simp add: align_scalar_def)
  qed
qed

end
