(* ===== verification/Sim_Stack.thy ===== *)
theory Sim_Stack
  imports Sim_Values
begin

text \<open>
  Stack accesses at a known offset keep the simulation relation: the two interpreters locate the same
  bytes, a fill reads a value of the register the verifier reads, and the stores of a register and of
  an immediate leave related frames.
\<close>

section \<open>Bytes and cells\<close>

lemma byte_same_refl [simp]: "byte_same p x x"
  by (simp add: byte_same_def)

lemma merged_in:
  assumes "ins \<le> p" "p < ins + sz" "ins + sz \<le> 8"
  shows "byte_same p (merged_bits e ins sz v) (push_bit (ins * 8) v)"
  using assms by (auto simp: byte_same_def merged_bits_def low_mask_def bit_simps)

lemma merged_out:
  assumes "p < ins \<or> ins + sz \<le> p" "p < 8"
  shows "byte_same p (merged_bits e ins sz v) e"
  using assms by (auto simp: byte_same_def merged_bits_def low_mask_def bit_simps)

lemma extracted_zero:
  assumes "\<And>p. ins \<le> p \<Longrightarrow> p < ins + sz \<Longrightarrow> byte_same p x 0"
  shows "drop_bit (ins * 8) x AND low_mask sz = 0"
proof (rule bit_word_eqI)
  fix i assume "i < LENGTH(64)"
  have "\<not> bit x (ins * 8 + i)" if "i < sz * 8"
  proof -
    have "i div 8 < sz" "i mod 8 < 8" "8 * (ins + i div 8) + i mod 8 = ins * 8 + i" using that by auto
    moreover from this have "byte_same (ins + i div 8) x 0" by (intro assms) auto
    ultimately show ?thesis unfolding byte_same_def by (metis bit_0_eq bot_apply bot_bool_def)
  qed
  then show "bit (drop_bit (ins * 8) x AND low_mask sz) i = bit 0 i"
    by (auto simp: bit_simps low_mask_def)
qed

lemma extract_zero:
  assumes "\<And>p. ins \<le> p \<Longrightarrow> p < ins + sz \<Longrightarrow> byte_same p x 0"
  shows "concrete_extract (CV_Scalar x) ins sz se = CV_Scalar 0"
proof (cases "ins = 0 \<and> sz = 8")
  case True
  have "drop_bit (0 * 8) x AND low_mask 8 = 0"
    by (rule extracted_zero) (use assms True in auto)
  then have "x AND mask (8 * 8) = 0" by (simp add: low_mask_def)
  moreover have "mask (8 * 8) = (- 1 :: u64)" by (simp add: mask_eq_exp_minus_1)
  ultimately show ?thesis using True by (simp add: concrete_extract_def)
next
  case False
  then show ?thesis
    using extracted_zero [OF assms] by (auto simp: concrete_extract_def Let_def)
qed

lemma extract_scalar: "\<exists>z. concrete_extract (CV_Scalar x) ins sz se = CV_Scalar z"
  by (simp add: concrete_extract_def Let_def)

text \<open>A cell only depends on its eight bytes and its spilled register.\<close>

lemma cell_rel_cong:
  assumes "stack_wf st" "stack_wf st'" "k < STACK_SLOTS"
    and "\<And>j. j < 8 \<Longrightarrow> sbytes st' ! (k * 8 + j) = sbytes st ! (k * 8 + j)" "spilled st' ! k = spilled st ! k"
  shows "cell_rel L st' k cell \<longleftrightarrow> cell_rel L st k cell"
proof -
  have "full_spill st' k = full_spill st k"
    using assms by (simp add: full_spill_iff stack_wf_def)
  moreover have "partial_rel st' k x = partial_rel st k x" for x
    by (simp add: partial_rel_def assms(4,5))
  ultimately show ?thesis
    by (simp add: cell_rel_def assms(4,5) split: option.split)
qed

section \<open>Locating an access\<close>

lemma slot_split:
  fixes m :: int
  assumes "int hi = - m - 1" "m mod 8 = int ins"
  shows "int hi = int (hi div 8) * 8 + 7 - int ins"
proof -
  have "(- m - 1) mod 8 = 7 - m mod 8" using minus_mod_int_eq [of 8 "m + 1"] by simp
  then have "int (hi mod 8) = 7 - int ins" using assms by (simp add: zmod_int)
  moreover have "hi = hi div 8 * 8 + hi mod 8" by simp
  then have "int hi = int (hi div 8) * 8 + int (hi mod 8)" by (metis of_nat_add of_nat_mult of_nat_numeral)
  ultimately show ?thesis by simp
qed

lemma aligned_fits:
  fixes m :: int
  assumes "m mod int n = 0" "n \<in> {1, 2, 4, 8}" "m mod 8 = int ins" "ins < 8"
  shows "ins + n \<le> 8"
proof -
  have "int n dvd m" "int n dvd 8" using assms(1,2) by (auto simp: dvd_eq_mod_eq_0)
  then have "int n dvd int ins" using assms(3) by (metis dvd_mod)
  then have "n dvd ins" by simp
  then obtain q where "ins = n * q" by (rule dvdE)
  then show ?thesis using assms(2,4) by auto
qed

text \<open>
  The geometry of an access at a known offset: it lies in one cell \<open>k\<close>, where it starts at byte \<open>ins\<close>
  counted from the lowest address.
\<close>

lemma access_slot:
  assumes c: "stack_access_check pc base off mn mn al (int (mem_bytes sz)) = Ok (lo, hi)"
  obtains k ins where "k < STACK_SLOTS" "hi = k * 8 + 7 - ins" "lo = k * 8 + 8 - ins - mem_bytes sz" "ins + mem_bytes sz \<le> 8"
    "hi div 8 = k" "lo div 8 = k" "(sint mn + sint off) mod 8 = int ins" "- 512 \<le> sint mn + sint off" "sint mn + sint off < 0"
    "(sint mn + sint off) mod int (mem_bytes sz) = 0" "sint mn + sint off = - int (k * 8) - 8 + int ins"
proof -
  let ?m = "sint mn + sint off"
  have sz: "0 < int (mem_bytes sz)" "mem_bytes sz \<in> {1, 2, 4, 8}" by (cases sz; simp)+
  note r = stack_access_check_Ok [OF c sz(1) order.refl]
  have m: "- 512 \<le> ?m" "?m mod int (mem_bytes sz) = 0" "?m + int (mem_bytes sz) \<le> 0"
    using c by (auto simp: stack_access_check_def Let_def split: if_splits)
  define ins where "ins = nat (?m mod 8)"
  define k where "k = hi div 8"
  have ins: "?m mod 8 = int ins" "ins < 8" by (simp_all add: ins_def nat_less_iff)
  have fits: "ins + mem_bytes sz \<le> 8"
    using aligned_fits [OF m(2) sz(2) ins] .
  have hi: "int hi = - ?m - 1" "hi < 512" using r by auto
  have k: "int hi = int k * 8 + 7 - int ins"
    unfolding k_def by (rule slot_split [OF hi(1) ins(1)])
  show thesis
  proof (rule that [of k ins])
    show "k < STACK_SLOTS" using hi(2) by (simp add: k_def)
    show "hi = k * 8 + 7 - ins" using k by linarith
    then show "hi div 8 = k" by (simp add: k_def)
    have "int lo = int k * 8 + 8 - int ins - int (mem_bytes sz)" using r k by linarith
    then show lo: "lo = k * 8 + 8 - ins - mem_bytes sz" using fits by linarith
    then show "lo div 8 = k" using fits sz ins(2) by auto
    show "?m < 0" using m(3) sz(1) by linarith
    show "?m = - int (k * 8) - 8 + int ins" using k hi(1) by simp
  qed (use m ins fits in simp_all)
qed

lemma locate_access:
  assumes m: "sint mn + sint off = - int (k * 8) - 8 + int ins" "- 512 \<le> sint mn + sint off" "sint mn + sint off < 0"
    "(sint mn + sint off) mod int sz = 0" "ins + sz \<le> 8" "0 < sz"
    and p: "sint (a - STACK_BASE) = sint mn"
  shows "\<exists>o'. locate pc base (StackPtr a f) off sz = Ok (f, o', k, ins)"
proof -
  let ?m = "sint mn + sint off"
  have "sint (a - STACK_BASE + scast off) = ?m"
    using m(2,3) p by (simp add: sint_word_ariths signed_take_bit_int_eq_self)
  then have s: "sint (ucast (a - STACK_BASE + scast off) :: i32) = ?m"
    using m(2,3) by (simp add: sint_ucast_fits)
  define b where "b = nat (- ?m - 1)"
  obtain r where r: "r + ins = 7" "r < 8" using m(5,6) by (intro that [of "7 - ins"]) auto
  have "b = k * 8 + r" using m(1,5,6) r unfolding b_def by linarith
  then have b: "b div 8 = k" "7 - b mod 8 = ins" using r by auto
  have "?m + int sz \<le> 0" using m(1,5) by linarith
  then show ?thesis
    using m(2-4,6) s b unfolding b_def by (simp add: locate_def stack_ptr_frameno_def stack_ptr_access_offset_def concrete_stack_range_def Let_def)
qed

section \<open>Fills\<close>

lemma slot_byte:
  fixes k :: nat
  assumes "hi = k * 8 + 7 - ins" "lo = k * 8 + 8 - ins - n" "ins + n \<le> 8" "0 < n" "lo \<le> i" "i \<le> hi"
  obtains j where "j < 8" "i = k * 8 + j" "ins \<le> 7 - j" "7 - j < ins + n"
proof -
  have "k * 8 \<le> i" using assms by linarith
  then obtain d where d: "i = k * 8 + d" by (auto simp: le_iff_add)
  have "d < 8" "ins + d \<le> 7" "8 \<le> ins + n + d" using assms d by linarith+
  then show thesis using that [of d] d by linarith
qed

lemma slot_byte_at:
  fixes k :: nat
  assumes "hi = k * 8 + 7 - ins" "lo = k * 8 + 8 - ins - n" "ins + n \<le> 8" "ins \<le> p" "p < ins + n"
  shows "lo \<le> k * 8 + (7 - p)" "k * 8 + (7 - p) \<le> hi"
  using assms by linarith+

text \<open>The byte walk: what it reads is a scalar, zero when the marks say so.\<close>

lemma walk_related:
  assumes st: "stack_rel L st cs" and k: "k < STACK_SLOTS"
    and g: "hi = k * 8 + 7 - ins" "lo = k * 8 + 8 - ins - mem_bytes sz" "ins + mem_bytes sz \<le> 8" "hi div 8 = k"
    and w: "byte_walk pc off st lo hi = Ok v"
    and part: "\<not> full_spill st k \<or> (\<exists>b. spilled st ! k = Some (Scalar b))"
  shows "\<exists>w. cs ! k = Some w \<and> val_rel L v (Some (concrete_extract w ins (mem_bytes sz) se))"
proof -
  let ?n = "mem_bytes sz"
  have n: "0 < ?n" by (cases sz) simp_all
  have cell: "cell_rel L st k (cs ! k)" and wf: "stack_wf st" using st k by (simp_all add: stack_rel_def)
  have full: "full_spill st k \<longleftrightarrow> (\<forall>j<8. sbytes st ! (k * 8 + j) = SB_Spill)"
    using wf k by (simp add: full_spill_iff stack_wf_def)
  have at: "sbytes st ! (k * 8 + (7 - p)) = b" if "list_all (\<lambda>i. sbytes st ! i = b) [lo..<Suc hi]" "ins \<le> p" "p < ins + ?n" for p b
    using slot_byte_at [OF g(1-3) that(2,3)] that(1) by (simp add: list_all_iff less_Suc_eq_le del: upt_Suc)
  have ok: "\<not> unreadable (sbytes st ! i)" if "lo \<le> i" "i \<le> hi" for i
    using w that by (auto simp: byte_walk_def Let_def list_ex_iff less_Suc_eq_le simp del: upt_Suc split: if_splits)
  have "sbytes st ! (k * 8 + (7 - ins)) \<noteq> SB_Invalid"
    using ok slot_byte_at [OF g(1-3), of ins] n by (auto simp: unreadable_def)
  then obtain c where c: "cs ! k = Some c"
    using cell unfolding cell_rel_def by (cases "cs ! k") (auto dest: spec [of _ "7 - ins"])
  obtain x where x: "c = CV_Scalar x"
    using cell c part by (auto simp: cell_rel_def val_rel_Scalar split: if_splits)
  have zero: "byte_same p x 0"
    if z: "list_all (\<lambda>i. sbytes st ! i = SB_Zero) [lo..<Suc hi] \<or>
        list_all (\<lambda>i. sbytes st ! i = SB_Spill) [lo..<Suc hi] \<and> constant_zero (spilled st ! k)"
      and p: "ins \<le> p" "p < ins + ?n" for p
  proof (cases "full_spill st k")
    case True
    then have "sbytes st ! (k * 8 + (7 - p)) = SB_Spill" using full by simp
    then have "constant_zero (spilled st ! k)" using z at [OF _ p, of SB_Zero] by auto
    then obtain b where b: "spilled st ! k = Some (Scalar b)" "scalar_is_constant b" "smin b = 0"
      by (auto simp: constant_zero_def split: option.splits reg_state.splits)
    then have "in_bounds b x" using cell c x True by (auto simp: cell_rel_def)
    then have "x = 0" using scalar_is_constant_mem(1) [OF b(2) in_bounds_mem64] b(3) by simp
    then show ?thesis by simp
  next
    case False
    then have pr: "partial_rel st k x" using cell c x by (auto simp: cell_rel_def)
    have p7: "7 - (7 - p) = p" "7 - p < 8" using p g(3) by auto
    from z show ?thesis
    proof
      assume "list_all (\<lambda>i. sbytes st ! i = SB_Zero) [lo..<Suc hi]"
      from at [OF this p] pr p7 show ?thesis unfolding partial_rel_def by (metis insertCI)
    next
      assume s: "list_all (\<lambda>i. sbytes st ! i = SB_Spill) [lo..<Suc hi] \<and> constant_zero (spilled st ! k)"
      then obtain b where b: "spilled st ! k = Some (Scalar b)" "scalar_is_constant b" "smin b = 0"
        by (auto simp: constant_zero_def split: option.splits reg_state.splits)
      then obtain y where y: "in_bounds b y" "\<forall>j<8. sbytes st ! (k * 8 + j) = SB_Spill \<longrightarrow> byte_same (7 - j) x y"
        using pr unfolding partial_rel_def by auto
      have "y = 0" using scalar_is_constant_mem(1) [OF b(2) in_bounds_mem64 [OF y(1)]] b(3) by simp
      then show ?thesis using y(2) at [OF conjunct1 [OF s] p] p7 by metis
    qed
  qed
  from w consider "v = Scalar (scalar_constant 0)"
      "list_all (\<lambda>i. sbytes st ! i = SB_Zero) [lo..<Suc hi] \<or>
        list_all (\<lambda>i. sbytes st ! i = SB_Spill) [lo..<Suc hi] \<and> constant_zero (spilled st ! k)"
    | "v = Scalar scalar_unknown"
    unfolding byte_walk_def Let_def list.pred_map comp_def g(4) by (auto simp del: upt_Suc split: if_splits)
  then show ?thesis
  proof cases
    case 1
    have "concrete_extract (CV_Scalar x) ins ?n se = CV_Scalar 0"
      by (rule extract_zero) (rule zero [OF 1(2)])
    then show ?thesis using 1(1) c x by simp
  next
    case 2
    obtain z where "concrete_extract (CV_Scalar x) ins ?n se = CV_Scalar z"
      using extract_scalar by blast
    then show ?thesis using 2 c x by simp
  qed
qed

lemma fill_related:
  assumes st: "stack_rel L st cs" and k: "k < STACK_SLOTS"
    and g: "hi = k * 8 + 7 - ins" "lo = k * 8 + 8 - ins - mem_bytes sz" "ins + mem_bytes sz \<le> 8" "hi div 8 = k" "m mod 8 = int ins"
    and r: "fixed_stack_read pc base off st lo hi m (mem_bytes sz) se = Ok v"
  shows "\<exists>w. cs ! k = Some w \<and> val_rel L v (Some (concrete_extract w ins (mem_bytes sz) se))"
proof -
  let ?n = "mem_bytes sz"
  have n: "0 < ?n" "?n = 1 \<or> ?n = 2 \<or> ?n = 4 \<or> ?n = 8" by (cases sz; simp)+
  have cell: "cell_rel L st k (cs ! k)" and wf: "stack_wf st" using st k by (simp_all add: stack_rel_def)
  have full: "full_spill st k \<longleftrightarrow> (\<forall>j<8. sbytes st ! (k * 8 + j) = SB_Spill)"
    using wf k by (simp add: full_spill_iff stack_wf_def)
  have at: "sbytes st ! (k * 8 + (7 - p)) = b" if "list_all (\<lambda>i. sbytes st ! i = b) [lo..<Suc hi]" "ins \<le> p" "p < ins + ?n" for p b
    using slot_byte_at [OF g(1-3) that(2,3)] that(1) by (simp add: list_all_iff less_Suc_eq_le del: upt_Suc)
  note walk = walk_related [OF st k g(1-4), of pc off v se]
  show ?thesis
  proof (cases "list_all (\<lambda>i. sbytes st ! i = SB_Spill) [lo..<Suc hi]")
    case False
    then have "byte_walk pc off st lo hi = Ok v" using r by (simp add: fixed_stack_read_def del: upt_Suc)
    moreover have "\<not> full_spill st k"
    proof
      assume "full_spill st k"
      then have "sbytes st ! i = SB_Spill" if "lo \<le> i" "i \<le> hi" for i
        using slot_byte [OF g(1-3) n(1) that] full by metis
      then show False using False by (simp add: list_all_iff less_Suc_eq_le del: upt_Suc)
    qed
    ultimately show ?thesis using walk by blast
  next
    case True
    note spill = at [OF True]
    have "sbytes st ! (k * 8 + (7 - ins)) = SB_Spill" using spill [of ins] n(1) by simp
    then obtain c where c: "cs ! k = Some c"
      using cell unfolding cell_rel_def by (cases "cs ! k") (auto dest: spec [of _ "7 - ins"])
    show ?thesis
    proof (cases "spilled st ! k")
      case None
      then have "byte_walk pc off st lo hi = Ok v" using r True g(4) by (simp add: fixed_stack_read_def del: upt_Suc)
      moreover have "\<not> full_spill st k" using cell c None by (auto simp: cell_rel_def)
      ultimately show ?thesis using walk by blast
    next
      case (Some q)
      show ?thesis
      proof (cases "?n = 8")
        case True
        then have ins: "ins = 0" using g(3) by simp
        have "sbytes st ! (k * 8 + j) = SB_Spill" if "j < 8" for j
          using spill [of "7 - j"] that True ins by simp
        then have "val_rel L q (Some c)" using full cell c Some by (auto simp: cell_rel_def)
        moreover have "v = q"
          using r True Some \<open>list_all _ _\<close> g(4) by (simp add: fixed_stack_read_def del: upt_Suc)
        ultimately show ?thesis using c ins True by (simp add: concrete_extract_def)
      next
        case small: False
        then obtain b where b: "q = Scalar b"
          "v = Scalar (coerce_scalar b ?n se) \<and> m mod 8 = 0 \<or> byte_walk pc off st lo hi = Ok v"
          using r True Some g(4)
          by (auto simp: fixed_stack_read_def simp del: upt_Suc split: reg_state.splits if_splits)
        from b(2) show ?thesis
        proof
          assume "byte_walk pc off st lo hi = Ok v"
          then show ?thesis using walk Some b(1) by blast
        next
          assume v: "v = Scalar (coerce_scalar b ?n se) \<and> m mod 8 = 0"
          then have ins: "ins = 0" using g(5) by simp
          obtain x y where xy: "c = CV_Scalar x" "in_bounds b y" "\<And>p. p < ?n \<Longrightarrow> byte_same p x y"
          proof (cases "full_spill st k")
            case True
            then show thesis using that cell c Some b(1) by (auto simp: cell_rel_def val_rel_Scalar)
          next
            case False
            then obtain x where x: "c = CV_Scalar x" "partial_rel st k x" using cell c by (auto simp: cell_rel_def)
            then obtain y where y: "in_bounds b y" "\<forall>j<8. sbytes st ! (k * 8 + j) = SB_Spill \<longrightarrow> byte_same (7 - j) x y"
              using Some b(1) unfolding partial_rel_def by auto
            have "byte_same p x y" if "p < ?n" for p
            proof -
              have "7 - (7 - p) = p" "7 - p < 8" using that g(3) by auto
              then show ?thesis using y(2) spill [of p] that ins by (metis add_0 le0)
            qed
            then show thesis using that x(1) y(1) by blast
          qed
          show ?thesis
            using coerce_val_rel [OF xy(2) _ xy(3)] n(2) small c xy(1) v ins by auto
        qed
      qed
    qed
  qed
qed

section \<open>Stores\<close>

lemma no_dynptr:
  assumes "stack_rel L st cs" "k < STACK_SLOTS" "j < 8"
  shows "sbytes st ! (k * 8 + j) \<noteq> SB_Dynptr"
proof -
  have c: "cell_rel L st k (cs ! k)" "stack_wf st" using assms by (simp_all add: stack_rel_def)
  show ?thesis
  proof (cases "full_spill st k")
    case True
    then have "sbytes st ! (k * 8 + j) = SB_Spill" using assms c(2) by (simp add: full_spill_iff stack_wf_def)
    then show ?thesis by simp
  next
    case False
    then show ?thesis using c(1) assms(3) by (cases "cs ! k") (auto simp: cell_rel_def partial_rel_def)
  qed
qed

lemma nth_spill_store:
  assumes "stack_wf st" "hi = k * 8 + 7" "lo = k * 8 + 8 - n" "0 < n" "n \<le> 8" "k < STACK_SLOTS"
  shows "stack_wf (spill_store lo hi v st)"
    and "j < 8 \<Longrightarrow> sbytes (spill_store lo hi v st) ! (k * 8 + j) = (if 8 - n \<le> j then SB_Spill else SB_Misc)"
    and "k' < STACK_SLOTS \<Longrightarrow> k' \<noteq> k \<Longrightarrow> j < 8 \<Longrightarrow> sbytes (spill_store lo hi v st) ! (k' * 8 + j) = sbytes st ! (k' * 8 + j)"
    and "k' < STACK_SLOTS \<Longrightarrow> spilled (spill_store lo hi v st) ! k' = (if k' = k then Some v else spilled st ! k')"
proof -
  have len: "length (sbytes st) = STACK_SIZE" "length (spilled st) = STACK_SLOTS"
    using assms(1) by (simp_all add: stack_wf_def)
  have hk: "hi div 8 = k" using assms(2) by simp
  show "stack_wf (spill_store lo hi v st)"
    using assms(1) by (simp add: spill_store_def Let_def stack_wf_def)
  have byte: "sbytes (spill_store lo hi v st) ! i =
      (if k * 8 \<le> i \<and> i < lo then SB_Misc else if lo \<le> i \<and> i \<le> hi then SB_Spill else sbytes st ! i)" if "i < STACK_SIZE" for i
    using that len hk by (simp add: spill_store_def Let_def nth_fill_bytes less_Suc_eq_le del: upt_Suc)
  show "j < 8 \<Longrightarrow> sbytes (spill_store lo hi v st) ! (k * 8 + j) = (if 8 - n \<le> j then SB_Spill else SB_Misc)"
    using assms(2-6) byte [of "k * 8 + j"] by auto
  show "sbytes (spill_store lo hi v st) ! (k' * 8 + j) = sbytes st ! (k' * 8 + j)"
    if "k' < STACK_SLOTS" "k' \<noteq> k" "j < 8" for k' j
  proof -
    have "k' * 8 + j < k * 8 \<or> hi < k' * 8 + j" using that assms(2) by linarith
    then show ?thesis using byte [of "k' * 8 + j"] that assms(3-5) by auto
  qed
  show "k' < STACK_SLOTS \<Longrightarrow> spilled (spill_store lo hi v st) ! k' = (if k' = k then Some v else spilled st ! k')"
    using len hk assms(6) by (simp add: spill_store_def Let_def nth_list_update)
qed

lemma nth_partial_store:
  assumes "stack_wf st" "hi div 8 = k" "lo div 8 = k" "k < STACK_SLOTS"
  shows "stack_wf (partial_store lo hi z st)"
    and "j < 8 \<Longrightarrow> sbytes (partial_store lo hi z st) ! (k * 8 + j) =
      (if lo \<le> k * 8 + j \<and> k * 8 + j \<le> hi then (if z then SB_Zero else SB_Misc)
       else if sbytes st ! (k * 8 + j) = SB_Spill then SB_Misc else sbytes st ! (k * 8 + j))"
    and "k' < STACK_SLOTS \<Longrightarrow> k' \<noteq> k \<Longrightarrow> j < 8 \<Longrightarrow> sbytes (partial_store lo hi z st) ! (k' * 8 + j) = sbytes st ! (k' * 8 + j)"
    and "k' < STACK_SLOTS \<Longrightarrow> spilled (partial_store lo hi z st) ! k' = (if k' = k then None else spilled st ! k')"
proof -
  have len: "length (sbytes st) = STACK_SIZE" "length (spilled st) = STACK_SLOTS" "length (dynptrs st) = STACK_SLOTS"
    using assms(1) by (simp_all add: stack_wf_def)
  have slots: "[lo div 8..<Suc (hi div 8)] = [k]" using assms(2,3) by simp
  let ?b = "fill_bytes [lo..<Suc hi] (if z then SB_Zero else SB_Misc) (sbytes st)"
  show "stack_wf (partial_store lo hi z st)"
    using assms(1) by (simp add: partial_store_def Let_def stack_wf_def length_fold_update)
  have byte: "sbytes (partial_store lo hi z st) ! i =
      (if k * 8 \<le> i \<and> i < k * 8 + 8 \<and> ?b ! i = SB_Spill then SB_Misc else ?b ! i)" if "i < STACK_SIZE" for i
    using that len unfolding partial_store_def Let_def slots by (simp add: nth_fill_bytes del: upt_Suc)
  have b: "?b ! i = (if lo \<le> i \<and> i \<le> hi then if z then SB_Zero else SB_Misc else sbytes st ! i)" if "i < STACK_SIZE" for i
    using that len by (simp add: nth_fill_bytes less_Suc_eq_le del: upt_Suc)
  show "j < 8 \<Longrightarrow> sbytes (partial_store lo hi z st) ! (k * 8 + j) =
      (if lo \<le> k * 8 + j \<and> k * 8 + j \<le> hi then (if z then SB_Zero else SB_Misc)
       else if sbytes st ! (k * 8 + j) = SB_Spill then SB_Misc else sbytes st ! (k * 8 + j))"
    using byte [of "k * 8 + j"] b [of "k * 8 + j"] assms(4) by auto
  show "sbytes (partial_store lo hi z st) ! (k' * 8 + j) = sbytes st ! (k' * 8 + j)"
    if "k' < STACK_SLOTS" "k' \<noteq> k" "j < 8" for k' j
  proof -
    have "\<not> (k * 8 \<le> k' * 8 + j \<and> k' * 8 + j < k * 8 + 8)" using that by linarith
    moreover from this have "\<not> (lo \<le> k' * 8 + j \<and> k' * 8 + j \<le> hi)" using assms(2,3) by auto
    ultimately show ?thesis using byte [of "k' * 8 + j"] b [of "k' * 8 + j"] that by (auto simp del: upt_Suc)
  qed
  show "k' < STACK_SLOTS \<Longrightarrow> spilled (partial_store lo hi z st) ! k' = (if k' = k then None else spilled st ! k')"
    using len unfolding partial_store_def Let_def slots by (simp add: nth_list_update)
qed

lemma cells_update:
  assumes st: "stack_rel L st cs" and wf: "stack_wf st'" and k: "k < STACK_SLOTS"
    and other: "\<And>k' j. k' < STACK_SLOTS \<Longrightarrow> k' \<noteq> k \<Longrightarrow> j < 8 \<Longrightarrow> sbytes st' ! (k' * 8 + j) = sbytes st ! (k' * 8 + j)"
      "\<And>k'. k' < STACK_SLOTS \<Longrightarrow> k' \<noteq> k \<Longrightarrow> spilled st' ! k' = spilled st ! k'"
    and cell: "cell_rel L st' k cell"
  shows "stack_rel L st' (cs[k := cell])"
proof -
  have "cell_rel L st' k' (cs[k := cell] ! k')" if "k' < STACK_SLOTS" for k'
  proof (cases "k' = k")
    case False
    then have "cell_rel L st' k' (cs ! k') \<longleftrightarrow> cell_rel L st k' (cs ! k')"
      using st wf other that by (intro cell_rel_cong) (simp_all add: stack_rel_def)
    then show ?thesis using st that False by (simp add: stack_rel_def)
  qed (use st k cell in \<open>simp add: stack_rel_def\<close>)
  then show ?thesis using st wf by (simp add: stack_rel_def)
qed

lemma spill_related:
  assumes st: "stack_rel L st cs" and g: "hi = k * 8 + 7" "lo = k * 8 + 8 - n" "0 < n" "n \<le> 8" "k < STACK_SLOTS"
    and v: "val_rel L v (Some w)" and kind: "n = 8 \<or> (\<exists>b. v = Scalar b)"
  shows "stack_rel L (spill_store lo hi v st) (merge_cell cs k 0 n w)"
proof -
  have wf: "stack_wf st" using st by (simp add: stack_rel_def)
  note sp = nth_spill_store [OF wf g, where v = v]
  let ?st = "spill_store lo hi v st"
  have full: "full_spill ?st k \<longleftrightarrow> n = 8"
    using sp(1,2) g(3-5) by (auto simp: full_spill_iff stack_wf_def dest: spec [of _ 0])
  obtain cell where merge: "merge_cell cs k 0 n w = cs[k := cell]" and cell: "cell_rel L ?st k cell"
  proof (cases "n = 8")
    case True
    then show thesis
      using that [of "Some w"] v full sp(4) [OF g(5)] by (simp add: merge_cell_def cell_rel_def)
  next
    case False
    then obtain b x where b: "v = Scalar b" "w = CV_Scalar x" "in_bounds b x"
      using kind v by (auto simp: val_rel_Scalar)
    let ?e = "case cs ! k of Some e \<Rightarrow> value_bits e | None \<Rightarrow> 0"
    have "partial_rel ?st k (merged_bits ?e 0 n x)"
      unfolding partial_rel_def
    proof (intro conjI allI impI exI)
      fix r assume "spilled ?st ! k = Some r"
      then show "r = Scalar b" using sp(4) [OF g(5)] b(1) by simp
      show "in_bounds b x" by (rule b(3))
      fix j :: nat assume j: "j < 8" "sbytes ?st ! (k * 8 + j) = SB_Spill"
      then show "byte_same (7 - j) (merged_bits ?e 0 n x) x"
        using sp(2) [OF j(1)] merged_in [of 0 "7 - j" n ?e x] g(4) by (auto split: if_splits)
    qed (use sp(2) sp(4) [OF g(5)] in \<open>auto split: if_splits\<close>)
    then show thesis
      using that False full b(2) by (simp add: merge_cell_def cell_rel_def)
  qed
  show ?thesis
    unfolding merge by (rule cells_update [OF st sp(1) g(5) _ _ cell]) (use sp(3,4) in auto)
qed

lemma partial_related:
  assumes st: "stack_rel L st cs" and k: "k < STACK_SLOTS"
    and g: "hi = k * 8 + 7 - ins" "lo = k * 8 + 8 - ins - n" "ins + n \<le> 8" "hi div 8 = k" "lo div 8 = k" "0 < ins" "0 < n"
    and v: "val_rel L v (Some w)" and sp: "spilled st ! k = None \<or> (\<exists>b. spilled st ! k = Some (Scalar b))"
  shows "stack_rel L (partial_store lo hi (constant_zero (Some v)) st) (merge_cell cs k ins n w)"
proof -
  have wf: "stack_wf st" using st by (simp add: stack_rel_def)
  note p = nth_partial_store [OF wf g(4,5) k, where z = "constant_zero (Some v)"]
  let ?st = "partial_store lo hi (constant_zero (Some v)) st"
  let ?e = "case cs ! k of Some e \<Rightarrow> value_bits e | None \<Rightarrow> 0" and ?z = "constant_zero (Some v)"
  have j: "lo \<le> k * 8 + j \<and> k * 8 + j \<le> hi \<longleftrightarrow> ins \<le> 7 - j \<and> 7 - j < ins + n" if "j < 8" for j
  proof -
    define p where "p = 7 - j"
    then have p: "p + j = 7" using that by simp
    have "7 - j = p" using p by simp
    moreover have "lo \<le> k * 8 + j \<longleftrightarrow> p < ins + n" "k * 8 + j \<le> hi \<longleftrightarrow> ins \<le> p"
      using p g(1-3,7) by linarith+
    ultimately show ?thesis by (simp add: conj_commute)
  qed
  have zero: "value_bits w = 0" if ?z
    using that v scalar_is_constant_mem(1) in_bounds_mem64
    by (fastforce simp: constant_zero_def val_rel_Scalar split: reg_state.splits)
  have old: "byte_same (7 - j) ?e 0" if "j < 8" "sbytes st ! (k * 8 + j) \<in> {SB_Invalid, SB_Zero}" for j
  proof (cases "cs ! k")
    case (Some c)
    then have "cell_rel L st k (Some c)" using st k by (auto simp: stack_rel_def dest: spec [of _ k])
    moreover have "\<not> full_spill st k" using that wf k by (auto simp: full_spill_iff stack_wf_def)
    ultimately show ?thesis using Some that by (auto simp: cell_rel_def partial_rel_def)
  qed simp
  have "sbytes ?st ! (k * 8 + 7) \<noteq> SB_Spill" using p(2) [of 7] by auto
  then have "\<exists>j<8. sbytes ?st ! (k * 8 + j) \<noteq> SB_Spill" by (intro exI [of _ 7]) simp
  then have full: "\<not> full_spill ?st k" using p(1) k by (simp add: full_spill_iff stack_wf_def)
  have "partial_rel ?st k (merged_bits ?e ins n (value_bits w))"
    unfolding partial_rel_def
  proof (intro conjI allI impI)
    fix i :: nat assume i: "i < 8"
    show "sbytes ?st ! (k * 8 + i) \<noteq> SB_Dynptr"
      using p(2) [OF i] no_dynptr [OF st k i] by (auto split: if_splits)
    show "spilled ?st ! k \<noteq> None" if "sbytes ?st ! (k * 8 + i) = SB_Spill"
      using that p(2) [OF i] by (auto split: if_splits)
    assume b: "sbytes ?st ! (k * 8 + i) \<in> {SB_Invalid, SB_Zero}"
    show "byte_same (7 - i) (merged_bits ?e ins n (value_bits w)) 0"
    proof (cases "ins \<le> 7 - i \<and> 7 - i < ins + n")
      case True
      then have "?z" using b p(2) [OF i] j [OF i] by (auto split: if_splits)
      then show ?thesis using True zero g(3) merged_in [of ins "7 - i" n ?e 0] by simp
    next
      case False
      then have "sbytes st ! (k * 8 + i) \<in> {SB_Invalid, SB_Zero}" using b p(2) [OF i] j [OF i] by (auto split: if_splits)
      from old [OF i this] show ?thesis
        using merged_out [of "7 - i" ins n ?e "value_bits w"] False by (auto simp: byte_same_def)
    qed
  qed (use p(4) [OF k] in simp)
  then have "cell_rel L ?st k (Some (CV_Scalar (merged_bits ?e ins n (value_bits w))))"
    using full by (simp add: cell_rel_def)
  moreover have "merge_cell cs k ins n w = cs[k := Some (CV_Scalar (merged_bits ?e ins n (value_bits w)))]"
    using g(6) by (simp add: merge_cell_def)
  ultimately show ?thesis
    using cells_update [OF st p(1) k, of "Some (CV_Scalar (merged_bits ?e ins n (value_bits w)))"] p(3,4) by simp
qed

section \<open>Loads and stores of states\<close>

lemma load_related:
  assumes sim: "sim L s c" and wf: "exec_wf s" and base: "read_reg pc s base = Ok (PtrToStack mn mn al f)"
    and r: "stack_read pc base s off sz se = Ok v"
  obtains a k ins o' cs w where "read_concrete_reg pc c base = Ok (StackPtr a f)"
    "locate pc base (StackPtr a f) off (mem_bytes sz) = Ok (f, o', k, ins)" "concrete_frame_stack c f = Ok cs"
    "cs ! k = Some w" "val_rel L v (Some (concrete_extract w ins (mem_bytes sz) se))"
proof -
  obtain a where a: "read_concrete_reg pc c base = Ok (StackPtr a f)" "sint (a - STACK_BASE) = sint mn"
    using sim_read_stack [OF sim base] pointer_in_exact by blast
  have f: "unat f \<le> unat (curframe s)" using exec_wf_read [OF wf base] by simp
  obtain lo hi st where c: "stack_access_check pc base off mn mn al (int (mem_bytes sz)) = Ok (lo, hi)"
    and st: "frame_stack s f = Ok st"
    and v: "fixed_stack_read pc base off st lo hi (sint mn + sint off) (mem_bytes sz) se = Ok v"
    using r base by (auto simp: stack_read_def rbind_Ok_iff)
  obtain cs where cs: "concrete_frame_stack c f = Ok cs" "stack_rel L st cs"
    by (rule sim_frame_stack [OF sim wf st f])
  have n: "0 < mem_bytes sz" by (cases sz) simp_all
  show thesis
  proof (rule access_slot [OF c])
    fix k ins
    assume g: "k < STACK_SLOTS" "hi = k * 8 + 7 - ins" "lo = k * 8 + 8 - ins - mem_bytes sz" "ins + mem_bytes sz \<le> 8"
      "hi div 8 = k" "lo div 8 = k" "(sint mn + sint off) mod 8 = int ins" "- 512 \<le> sint mn + sint off"
      "sint mn + sint off < 0" "(sint mn + sint off) mod int (mem_bytes sz) = 0"
      "sint mn + sint off = - int (k * 8) - 8 + int ins"
    obtain o' where "locate pc base (StackPtr a f) off (mem_bytes sz) = Ok (f, o', k, ins)"
      using locate_access [OF g(11,8,9,10,4) n a(2)] by blast
    then show thesis
      using that a(1) cs(1) fill_related [OF cs(2) g(1-5,7) v] by blast
  qed
qed

text \<open>A store of a value related to the one the verifier stores.\<close>

lemma store_related:
  assumes sim: "sim L s c" and wf: "exec_wf s" and base: "read_reg pc s base = Ok (PtrToStack mn mn al f)"
    and r: "stack_write pc base s off sz src imm = Ok s'"
    and v: "\<And>v. stored_value pc s src imm = Ok v \<Longrightarrow> \<exists>w. P w \<and> val_rel L v (Some w)"
  shows "\<exists>w c' bv l. P w \<and> read_concrete_reg pc c base = Ok bv \<and> locate pc base bv off (mem_bytes sz) = Ok l \<and>
    concrete_store pc c (Some w) base off sz = Ok c' \<and> sim L s' c'"
proof -
  obtain a where a: "read_concrete_reg pc c base = Ok (StackPtr a f)" "sint (a - STACK_BASE) = sint mn"
    using sim_read_stack [OF sim base] pointer_in_exact by blast
  have f: "unat f \<le> unat (curframe s)" using exec_wf_read [OF wf base] by simp
  obtain lo hi where c: "stack_access_check pc base off mn mn al (int (mem_bytes sz)) = Ok (lo, hi)"
    and store: "stack_store pc base s off sz src imm mn mn f (lo, hi) = Ok s'"
    using r base by (auto simp: stack_write_def rbind_Ok_iff)
  obtain st where st: "frame_stack s f = Ok st"
    by (rule frame_stack_Ok [OF wf f])
  obtain cs where cs: "concrete_frame_stack c f = Ok cs" "stack_rel L st cs"
    by (rule sim_frame_stack [OF sim wf st f])
  have n: "0 < mem_bytes sz" "mem_bytes sz \<le> 8" by (cases sz; simp)+
  show ?thesis
  proof (rule access_slot [OF c])
    fix k ins
    assume g: "k < STACK_SLOTS" "hi = k * 8 + 7 - ins" "lo = k * 8 + 8 - ins - mem_bytes sz" "ins + mem_bytes sz \<le> 8"
      "hi div 8 = k" "lo div 8 = k" "(sint mn + sint off) mod 8 = int ins" "- 512 \<le> sint mn + sint off"
      "sint mn + sint off < 0" "(sint mn + sint off) mod int (mem_bytes sz) = 0"
      "sint mn + sint off = - int (k * 8) - 8 + int ins"
    obtain o' where loc: "locate pc base (StackPtr a f) off (mem_bytes sz) = Ok (f, o', k, ins)"
      using locate_access [OF g(11,8,9,10,4) n(1) a(2)] by blast
    have plain: "sbytes st ! (slot * 8) \<noteq> SB_Dynptr" if "slot \<in> {lo div 8..hi div 8}" for slot
      using no_dynptr [OF cs(2) g(1), of 0] that g(5,6) by simp
    obtain q where q: "stored_value pc s src imm = Ok q"
      "mn = mn \<and> (sint mn + sint off) mod 8 = 0 \<and>
         (case q of Scalar b \<Rightarrow> True | PtrToStack a b c d \<Rightarrow> mem_bytes sz = 8 \<and> f = curframe s | _ \<Rightarrow> mem_bytes sz = 8) \<and>
         s' = put_frame_stack s f (spill_store lo hi q st) \<or>
       \<not> (mn = mn \<and> (sint mn + sint off) mod 8 = 0) \<and>
         check_corrupt_spill pc base off st [lo div 8..<Suc (hi div 8)] = Ok () \<and>
         s' = put_frame_stack s f (partial_store lo hi (constant_zero (Some q)) st)"
      by (rule stack_store_plain [OF store st plain])
    obtain w where P: "P w" and qw: "val_rel L q (Some w)" using v [OF q(1)] by blast
    from q(2) obtain st' where st': "s' = put_frame_stack s f st'" "stack_rel L st' (merge_cell cs k ins (mem_bytes sz) w)"
    proof (elim disjE conjE)
      assume z: "(sint mn + sint off) mod 8 = 0"
        and kind: "case q of Scalar b \<Rightarrow> True | PtrToStack a b c d \<Rightarrow> mem_bytes sz = 8 \<and> f = curframe s | _ \<Rightarrow> mem_bytes sz = 8"
        and s': "s' = put_frame_stack s f (spill_store lo hi q st)"
      have ins: "ins = 0" using z g(7) by simp
      have "mem_bytes sz = 8 \<or> (\<exists>b. q = Scalar b)" using kind by (cases q) auto
      then show thesis
        using that [OF s'] spill_related [OF cs(2) _ _ n(1,2) g(1) qw] g(2,3) ins by simp
    next
      assume z: "\<not> (mn = mn \<and> (sint mn + sint off) mod 8 = 0)"
        and cc: "check_corrupt_spill pc base off st [lo div 8..<Suc (hi div 8)] = Ok ()"
        and s': "s' = put_frame_stack s f (partial_store lo hi (constant_zero (Some q)) st)"
      have ins: "0 < ins" using z g(7) by simp
      have "spilled st ! k = None \<or> (\<exists>b. spilled st ! k = Some (Scalar b))"
        using check_corrupt_spill_Ok [OF cc] g(5,6) by simp
      then show thesis
        using that [OF s'] partial_related [OF cs(2) g(1-6) ins n(1) qw] by blast
    qed
    have "concrete_store pc c (Some w) base off sz = Ok (put_concrete_stack c f (merge_cell cs k ins (mem_bytes sz) w))"
      using a(1) loc cs(1) by (simp add: concrete_store_def concrete_merge_def)
    then show ?thesis using P a(1) loc sim_put [OF sim wf st'(2) f] st'(1) by blast
  qed
qed

end
