(* ===== verification/Sim_Step.thy ===== *)
theory Sim_Step
  imports Sim_Stack
begin

text \<open>
  Straight-line instructions: in the fragment described here, whatever the verifier accepts the
  concrete interpreter executes, and the results are related. The fragment leaves out the operations
  for which this fails in the sources (the operands \<open>alu_ok\<close> excludes, pointers of unknown alignment or
  with offsets that saturate, link identifiers already in use), and maps, buffers and atomics, for which the
  interpreter only has representative values.
\<close>

section \<open>Fresh link identifiers\<close>

definition reg_fresh :: "u32 \<Rightarrow> reg_state \<Rightarrow> bool" where
  "reg_fresh i r \<longleftrightarrow> (case r of Scalar b \<Rightarrow> sid b \<noteq> i | _ \<Rightarrow> True)"

definition stack_fresh :: "u32 \<Rightarrow> stack_state \<Rightarrow> bool" where
  "stack_fresh i st \<longleftrightarrow> list_all (\<lambda>sp. case sp of Some r \<Rightarrow> reg_fresh i r | None \<Rightarrow> True) (spilled st)"

definition sid_fresh :: "u32 \<Rightarrow> verifier_state \<Rightarrow> bool" where
  "sid_fresh i s \<longleftrightarrow>
     list_all (reg_fresh i) (regs s) \<and> stack_fresh i (stack s) \<and>
     list_all (\<lambda>f. case f of Some fr \<Rightarrow> list_all (reg_fresh i) (fr_regs fr) \<and> stack_fresh i (fr_stack fr) | None \<Rightarrow> True)
       (saved s)"

lemma val_rel_relink: "reg_fresh i r \<Longrightarrow> val_rel L r v \<Longrightarrow> val_rel (L(i := x)) r v"
  by (induction L r v rule: val_rel.induct) (auto simp: reg_fresh_def linked_def)

lemma regs_rel_relink: "list_all (reg_fresh i) rs \<Longrightarrow> regs_rel L rs cs \<Longrightarrow> regs_rel (L(i := x)) rs cs"
  by (simp add: regs_rel_def list_all_length val_rel_relink)

lemma stack_rel_relink:
  assumes "stack_fresh i st" "stack_rel L st cs"
  shows "stack_rel (L(i := x)) st cs"
proof -
  have "reg_fresh i r" if "spilled st ! k = Some r" "k < STACK_SLOTS" for k r
    using assms that by (auto simp: stack_fresh_def stack_rel_def stack_wf_def list_all_length dest: spec [of _ k])
  then have "cell_rel (L(i := x)) st k c" if "cell_rel L st k c" "k < STACK_SLOTS" for k c
    using that val_rel_relink unfolding cell_rel_def by (auto split: option.splits if_splits)
  then show ?thesis using assms(2) by (simp add: stack_rel_def)
qed

lemma sim_relink:
  assumes "sid_fresh i s" "sim L s c" "exec_wf s"
  shows "sim (L(i := x)) s c"
proof -
  have "frame_rel (L(i := x)) fr cf" if "frame_rel L fr cf" "saved s ! k = Some fr" "k < unat (curframe s)" for k fr cf
  proof -
    have "k < length (saved s)" using that(3) assms(3) unfolding exec_wf_def saved_ok_def by linarith
    then have "list_all (reg_fresh i) (fr_regs fr) \<and> stack_fresh i (fr_stack fr)"
      using assms(1) that(2) by (auto simp: sid_fresh_def list_all_length dest: spec [of _ k])
    then show ?thesis using that(1) by (simp add: frame_rel_def regs_rel_relink stack_rel_relink)
  qed
  then have "saved_rel (L(i := x)) s c"
    using assms(2) unfolding sim_def saved_rel_def by blast
  moreover have "regs_rel (L(i := x)) (regs s) (cregs c)" "stack_rel (L(i := x)) (stack s) (cstack c)"
    using assms(1,2) by (simp_all add: sim_def sid_fresh_def regs_rel_relink stack_rel_relink)
  ultimately show ?thesis using assms(2) by (simp add: sim_def)
qed

section \<open>The fragment\<close>

definition fits_i32 :: "int \<Rightarrow> bool" where
  "fits_i32 v \<longleftrightarrow> - (2 ^ 31) \<le> v \<and> v < 2 ^ 31"

definition alu_imm_sound :: "verifier_state \<Rightarrow> u8 \<Rightarrow> i32 \<Rightarrow> alu_op \<Rightarrow> alu_width \<Rightarrow> bool" where
  "alu_imm_sound s dst imm op w \<longleftrightarrow>
     (case regs s ! unat dst of
        Scalar b \<Rightarrow> alu_ok op w b (scalar_constant (scast imm))
      | PtrToStack mn mx al f \<Rightarrow> al \<noteq> ALIGN_UNKNOWN \<and> sint mx + sint imm < 2 ^ 31
      | PtrToCtx off \<Rightarrow> fits_i32 (if op = Alu_Add then sint off + sint imm else sint off - sint imm)
      | _ \<Rightarrow> True)"

definition alu_reg_sound :: "verifier_state \<Rightarrow> u8 \<Rightarrow> u8 \<Rightarrow> alu_op \<Rightarrow> alu_width \<Rightarrow> bool" where
  "alu_reg_sound s dst src op w \<longleftrightarrow>
     (case (regs s ! unat dst, regs s ! unat src) of
        (Scalar d, Scalar b) \<Rightarrow> alu_ok op w d b
      | (PtrToStack mn mx al f, Scalar b) \<Rightarrow> al \<noteq> ALIGN_UNKNOWN \<and> sint mx + sint (smax b) < 2 ^ 31
      | (Scalar b, PtrToStack mn mx al f) \<Rightarrow> al \<noteq> ALIGN_UNKNOWN \<and> sint mx + sint (smax b) < 2 ^ 31
      | (PtrToCtx off, Scalar b) \<Rightarrow>
          fits_i32 (if op = Alu_Add then sint off + sint (smin b) else sint off - sint (smin b))
      | (Scalar b, PtrToCtx off) \<Rightarrow> fits_i32 (sint off + sint (smin b))
      | _ \<Rightarrow> True)"

definition exact_base :: "verifier_state \<Rightarrow> u8 \<Rightarrow> bool" where
  "exact_base s base \<longleftrightarrow> (case regs s ! unat base of PtrToStack mn mx al f \<Rightarrow> mn = mx | _ \<Rightarrow> True)"

definition mov_sound :: "u32 \<Rightarrow> verifier_state \<Rightarrow> u8 \<Rightarrow> bool" where
  "mov_sound pc s src \<longleftrightarrow>
     (case regs s ! unat src of
        Scalar b \<Rightarrow> sid b = 0 \<and> \<not> scalar_is_constant b \<longrightarrow> sid_fresh (pc + 1) s
      | _ \<Rightarrow> True)"

text \<open>Helpers without arguments that return a scalar.\<close>

definition plain_helper :: "i32 \<Rightarrow> bool" where
  "plain_helper h \<longleftrightarrow> h \<in> {5, 7, 8, 10, 125, 160, 208}"

section \<open>Moves\<close>

lemma sim_set_scalar:
  "sim L s c \<Longrightarrow> scalar_mem b x \<Longrightarrow> sid b = 0 \<Longrightarrow> sim L (set_reg s r (Scalar b)) (set_creg c r (CV_Scalar x))"
  by (intro sim_set scalar_val_rel)

lemma sim_set_same:
  assumes "sim L s c" "read_concrete_reg pc c r = Ok w" "val_rel L v (Some w)"
  shows "sim L (set_reg s r v) c"
proof -
  have "cregs c ! unat r = Some w"
    using assms(2) by (auto simp: read_concrete_reg_def rbind_Ok_iff split: option.splits)
  then have "set_creg c r w = c" unfolding set_creg_def by (metis concrete_state.surjective concrete_state.update_convs(1) list_update_id)
  then show ?thesis using sim_set [OF assms(1,3), of r] by simp
qed

lemma mov_related:
  assumes sim: "sim L s c" and wf: "exec_wf s" and ok: "mov_sound pc s src" and r: "mov_reg pc s dst src = Ok s'"
  shows "\<exists>w L'. read_concrete_reg pc c src = Ok w \<and> unat dst < NUM_REGS \<and> sim L' s' (set_creg c dst w)"
proof -
  obtain v where v: "read_reg pc s src = Ok v" "unat dst < NUM_REGS"
    using r by (auto simp: mov_reg_def rbind_Ok_iff)
  obtain w where w: "read_concrete_reg pc c src = Ok w" "val_rel L v (Some w)"
    by (rule sim_read [OF sim v(1)])
  show ?thesis
  proof (cases "\<exists>b. v = Scalar b \<and> sid b = 0 \<and> \<not> scalar_is_constant b")
    case True
    then obtain b where b: "v = Scalar b" "sid b = 0" "\<not> scalar_is_constant b" by blast
    then obtain x where x: "w = CV_Scalar x" "in_bounds b x" using w(2) by (auto simp: val_rel_Scalar)
    let ?v = "Scalar (b\<lparr>sid := pc + 1\<rparr>)" and ?L = "L(pc + 1 := x - scast (delta b))"
    have s': "s' = set_reg (set_reg s src ?v) dst ?v"
      using r v b by (auto simp: mov_reg_def rbind_Ok_iff Let_def)
    have "sid_fresh (pc + 1) s" using ok b v(1) by (simp add: mov_sound_def read_reg_Ok_iff)
    then have "sim ?L s c" by (rule sim_relink [OF _ sim wf])
    moreover have "val_rel ?L ?v (Some w)" using x by (simp add: linked_def)
    ultimately have "sim ?L s' (set_creg c dst w)"
      unfolding s' by (intro sim_set sim_set_same [OF _ w(1)])
    then show ?thesis using w(1) v(2) by blast
  next
    case False
    then have "s' = set_reg s dst v"
      using r v by (cases v) (auto simp: mov_reg_def rbind_Ok_iff)
    then show ?thesis using w v(2) sim_set [OF sim w(2)] by blast
  qed
qed

section \<open>ALU instructions\<close>

lemma saturating_add_fits:
  assumes "- (2 ^ 63) \<le> sint a + sint b" "sint a + sint b < 2 ^ 63"
  shows "saturating_add a b = a + b"
  using assms by (intro sint_word_eqI) (simp add: saturating_add_def sat_int64_id)

lemma check_concrete_reg_ok: "unat r < NUM_REGS \<Longrightarrow> check_concrete_reg pc r = Ok ()"
  by simp

lemma related_set:
  assumes "sim L s c" "val_rel L v (Some w)" "r = Ok (set_creg c dst w)" "s' = set_reg s dst v"
  shows "\<exists>c'. r = Ok c' \<and> sim L s' c'"
  using assms by (simp add: sim_set)

lemma stack_offset_fits: "pointer_in mn mx al v \<Longrightarrow> fits_i32 v"
  using sint32_bounds [of mn] sint32_bounds [of mx] by (simp add: pointer_in_def fits_i32_def)

lemma stack_val_rel:
  "pointer_in mn mx al (sint v) \<Longrightarrow> val_rel L (PtrToStack mn mx al f) (Some (StackPtr (STACK_BASE + v) f))"
  by simp

lemma scast_sat_i32: "fits_i32 v \<Longrightarrow> scast (sat_i32 v) = (word_of_int v :: i64)"
  by (rule sint_word_eqI) (simp add: fits_i32_def sint_sat_i32)

lemma ctx_moved:
  fixes off :: i32
  assumes "fits_i32 (if add then sint off + k else sint off - k)" "word_of_int k = (x :: u64)"
  shows "val_rel L (PtrToCtx (sat_i32 (sint off + (if add then k else - k))))
    (Some (CtxPtr (if add then CTX_BASE + scast off + x else CTX_BASE + scast off - x)))"
proof -
  let ?v = "sint off + (if add then k else - k)"
  have "scast (sat_i32 ?v) = (word_of_int ?v :: i64)"
    by (rule scast_sat_i32) (use assms(1) in \<open>cases add; simp\<close>)
  moreover have "(word_of_int (sint off) :: i64) = scast off"
    using sint32_bounds [of off] by (intro sint_word_eqI) simp
  ultimately show ?thesis using assms(2) by (cases add) (simp_all add: of_int_add of_int_diff)
qed

lemma sane_constant:
  assumes "check_sane_addend pc kind b = Ok u" "scalar_is_constant b"
  shows "- (2 ^ 28) < sint (smin b)" "sint (smin b) < 2 ^ 28"
  using assms by (auto simp: check_sane_addend_def Let_def BPF_MAX_VAR_OFF_def split: if_splits)

lemma constant_parts [simp]: "smin (scalar_constant v) = v" "scalar_is_constant (scalar_constant v)"
  by (simp_all add: scalar_constant_def scalar_is_constant_def tnum_constant_def tnum_is_constant_def)

lemma sint_minus_fits: "- (2 ^ 31) < sint w \<Longrightarrow> sint (- w) = - sint w" for w :: i32
  using sint32_bounds [of w] by (simp add: sint_word_ariths signed_take_bit_int_eq_self)

lemma alu_imm_related:
  assumes sim: "sim L s c" and wf: "exec_wf s" and ok: "alu_imm_sound s dst imm op w"
    and r: "alu_imm pc s dst imm op w = Ok s'"
  shows "\<exists>c'. concrete_alu_imm pc c dst imm op w = Ok c' \<and> sim L s' c'"
proof -
  obtain d where d: "read_reg pc s dst = Ok d" "unat dst < NUM_REGS" "regs s ! unat dst = d"
    and sh: "\<not> (is_shift op \<and> \<not> shift_amount_ok w imm)"
    using r by (auto simp: alu_imm_def rbind_Ok_iff read_reg_Ok_iff split: if_splits)
  obtain v where v: "read_concrete_reg pc c dst = Ok v" "val_rel L d (Some v)"
    by (rule sim_read [OF sim d(1)])
  note start = concrete_alu_imm_def check_concrete_reg_ok [OF d(2)] if_not_P [OF sh] v(1)
  consider (scalar) b where "d = Scalar b" | (stack) mn mx al f where "d = PtrToStack mn mx al f" | (ctx) off where "d = PtrToCtx off"
    using val_rel_kinds [OF v(2)] d(1) by (auto simp: read_reg_Ok_iff)
  then show ?thesis
  proof cases
    case scalar
    then obtain x where x: "v = CV_Scalar x" "in_bounds b x" "linked L b x" using v(2) by (auto simp: val_rel_Scalar)
    have "scalar_wf b" using exec_wf_read [OF wf d(1)] scalar by simp
    then have "val_rel L (Scalar (apply_alu op w b (scalar_constant (scast imm)))) (Some (CV_Scalar (alu_value op w x (scast imm))))"
      using ok d(3) scalar x by (intro alu_val_rel) (simp_all add: alu_imm_sound_def)
    then show ?thesis
      by (rule related_set [OF sim]) (use r d scalar sh x(1) in \<open>auto simp: alu_imm_def rbind_Ok_iff Let_def start\<close>)
  next
    case stack
    then obtain a where a: "v = StackPtr a f" "pointer_in mn mx al (sint (a - STACK_BASE))" using v(2) by (auto simp: val_rel_Stack)
    have k: "al \<noteq> ALIGN_UNKNOWN" "sint mx + sint imm < 2 ^ 31" using ok d(3) stack by (simp_all add: alu_imm_sound_def)
    have u: "op = Alu_Add" "w = W64" "check_sane_result_offset pc ''stack'' (sint mn + sint imm) = Ok ()"
      "s' = set_reg s dst (PtrToStack (sat_i32 (sint mn + sint imm)) (sat_i32 (sint mx + sint imm)) (align_imm al imm) f)"
      using r d stack sh by (auto simp: alu_imm_def rbind_Ok_iff Let_def split: if_splits)
    let ?o = "a - STACK_BASE"
    have "saturating_add ?o (scast imm) = ?o + scast imm" "sint (?o + scast imm) = sint ?o + sint imm"
      using stack_offset_fits [OF a(2)] sint32_bounds [of imm]
      by (simp_all add: fits_i32_def saturating_add_fits sint_word_ariths signed_take_bit_int_eq_self)
    then have "val_rel L (PtrToStack (sat_i32 (sint mn + sint imm)) (sat_i32 (sint mx + sint imm)) (align_imm al imm) f)
        (Some (StackPtr (STACK_BASE + saturating_add ?o (scast imm)) f))"
      using pointer_plus_imm [OF a(2) k(1) u(3) k(2)] by (intro stack_val_rel) simp
    then show ?thesis
      by (rule related_set [OF sim _ _ u(4)]) (simp add: start a(1) u(1,2) is_shift_def)
  next
    case ctx
    then have a: "v = CtxPtr (CTX_BASE + scast off)" using v(2) by (simp add: val_rel_Ctx)
    have u: "w = W64" "op = Alu_Add \<or> op = Alu_Sub" "check_sane_addend pc ''ctx'' (scalar_constant (scast imm)) = Ok ()"
      "s' = set_reg s dst (PtrToCtx (sat_i32 (sint off + sint (if op = Alu_Add then imm else - imm))))"
      using r d ctx sh by (auto simp: alu_imm_def rbind_Ok_iff Let_def split: if_splits)
    have "sint (if op = Alu_Add then imm else - imm) = (if op = Alu_Add then sint imm else - sint imm)"
      using sane_constant [OF u(3)] by (simp add: sint_minus_fits)
    then have s': "s' = set_reg s dst (PtrToCtx (sat_i32 (sint off + (if op = Alu_Add then sint imm else - sint imm))))"
      using u(4) by simp
    have "word_of_int (sint imm) = (scast imm :: u64)"
      using sint32_bounds [of off] by (intro sint_word_eqI) simp
    with ok d(3) ctx have "val_rel L (PtrToCtx (sat_i32 (sint off + (if op = Alu_Add then sint imm else - sint imm))))
        (Some (CtxPtr (if op = Alu_Add then CTX_BASE + scast off + scast imm else CTX_BASE + scast off - scast imm)))"
      by (intro ctx_moved) (simp_all add: alu_imm_sound_def)
    then show ?thesis
      by (rule related_set [OF sim _ _ s']) (use u(1,2) in \<open>auto simp: start a is_shift_def\<close>)
  qed
qed

lemma add_scalar_related:
  assumes sim: "sim L s c" and p: "pointer_in mn mx al (sint (a - STACK_BASE))" "al \<noteq> ALIGN_UNKNOWN" "sint mx + sint (smax b) < 2 ^ 31"
    and x: "in_bounds b x" and r: "add_scalar_to_stack_ptr pc dst mn mx al f b s = Ok s'"
  shows "sim L s' (set_creg c dst (StackPtr (STACK_BASE + (a - STACK_BASE + x)) f))"
proof -
  obtain mn' mx' where m: "shifted_range pc ''stack'' mn mx b = Ok (mn', mx')"
    "s' = set_reg s dst (PtrToStack mn' mx' (align_scalar al b) f)"
    using r by (auto simp: add_scalar_to_stack_ptr_def rbind_Ok_iff)
  have sane: "- (2 ^ 28) < sint (smin b)"
    using m(1) by (auto simp: shifted_range_def check_sane_addend_def Let_def BPF_MAX_VAR_OFF_def rbind_Ok_iff split: if_splits)
  have "sint (smin b) \<le> sint x" "sint x \<le> sint (smax b)"
    using x by (simp_all add: in_bounds_def scalar_mem64_def in_range_defs)
  then have "sint (a - STACK_BASE + x) = sint (a - STACK_BASE) + sint x"
    using sane stack_offset_fits [OF p(1)] p(3) sint32_bounds [of mx]
    by (simp add: fits_i32_def sint_word_ariths signed_take_bit_int_eq_self)
  then have "pointer_in mn' mx' (align_scalar al b) (sint (a - STACK_BASE + x))"
    using pointer_plus_scalar [OF p(1,2) m(1) x p(3)] by simp
  then show ?thesis unfolding m(2) by (intro sim_set [OF sim] stack_val_rel)
qed

lemma ctx_plus_related:
  assumes sim: "sim L s c" and fits: "fits_i32 (if add then sint off + sint (smin b) else sint off - sint (smin b))"
    and x: "in_bounds b x" and r: "ctx_plus pc dst off add b s = Ok s'"
  shows "sim L s' (set_creg c dst (CtxPtr (if add then CTX_BASE + scast off + x else CTX_BASE + scast off - x)))"
proof -
  have c: "check_sane_addend pc ''ctx'' b = Ok ()" "scalar_is_constant b"
    "s' = set_reg s dst (PtrToCtx (sat_i32 (sint off + sint (if add then ucast (smin b) else - ucast (smin b) :: i32))))"
    using r by (auto simp: ctx_plus_def rbind_Ok_iff Let_def split: if_splits)
  note sane = sane_constant [OF c(1,2)]
  have e: "sint (if add then ucast (smin b) else - ucast (smin b) :: i32) = (if add then sint (smin b) else - sint (smin b))"
    using sane by (cases add) (simp_all add: sint_ucast_fits sint_minus_fits)
  have x: "smin b = x" using scalar_is_constant_mem(1) [OF c(2) in_bounds_mem64 [OF x]] by simp
  then have "word_of_int (sint (smin b)) = x" by simp
  then show ?thesis
    unfolding c(3) e by (intro sim_set [OF sim] ctx_moved [OF fits])
qed

lemma alu_reg_related:
  assumes sim: "sim L s c" and wf: "exec_wf s" and ok: "alu_reg_sound s dst src op w"
    and r: "alu_reg pc s dst src op w = Ok s'"
  shows "\<exists>c'. concrete_alu_reg pc c dst src op w = Ok c' \<and> sim L s' c'"
proof -
  obtain d b where d: "read_reg pc s dst = Ok d" "unat dst < NUM_REGS" "regs s ! unat dst = d"
    and b: "read_reg pc s src = Ok b" "regs s ! unat src = b"
    using r read_scalar_reg by (fastforce simp: alu_reg_def alu_scalars_def rbind_Ok_iff read_reg_Ok_iff read_scalar_Ok_iff
        split: reg_state.splits if_splits)
  obtain v where v: "read_concrete_reg pc c dst = Ok v" "val_rel L d (Some v)"
    by (rule sim_read [OF sim d(1)])
  obtain u where u: "read_concrete_reg pc c src = Ok u" "val_rel L b (Some u)"
    by (rule sim_read [OF sim b(1)])
  note start = concrete_alu_reg_def check_concrete_reg_ok [OF d(2)] v(1) u(1)
  note kinds = val_rel_kinds [OF v(2)] val_rel_kinds [OF u(2)]
  have abs: "alu_reg pc s dst src op w = (case d of
       PtrToStack mn mx al f \<Rightarrow>
         (if op \<noteq> Alu_Add \<or> w \<noteq> W64 then fail pc (Arithmetic (Arith_Stack dst))
          else rbind (of_reg (read_scalar pc s src)) (\<lambda>b. add_scalar_to_stack_ptr pc dst mn mx al f b s))
     | PtrToCtx off \<Rightarrow>
         (if op \<noteq> Alu_Add \<and> op \<noteq> Alu_Sub \<or> w \<noteq> W64 then fail pc (Arithmetic (Arith_Ctx dst))
          else rbind (of_reg (read_scalar pc s src)) (\<lambda>b. ctx_plus pc dst off (op = Alu_Add) b s))
     | Scalar d \<Rightarrow>
         (if op = Alu_Add \<and> w = W64 then
            (case b of
              PtrToStack mn mx al f \<Rightarrow>
                rbind (check_sane_addend pc ''stack'' d) (\<lambda>_. add_scalar_to_stack_ptr pc dst mn mx al f d s)
            | PtrToCtx off \<Rightarrow> ctx_plus pc dst off True d s
            | _ \<Rightarrow> alu_scalars pc s dst src op w d)
          else alu_scalars pc s dst src op w d)
     | _ \<Rightarrow> fail pc (Arithmetic (Reg_Offset dst)))"
    using d(1,2) b(1) kinds by (elim disjE exE) (auto simp: alu_reg_def check_reg_def)
  have scal: "read_scalar pc s src = (case b of Scalar x \<Rightarrow> Ok x | _ \<Rightarrow> Err (Failure pc (NotScalar src)))"
    using b(1) by (simp add: read_scalar_def)
  consider (ss) x y where "d = Scalar x" "b = Scalar y"
    | (sp) x mn mx al f where "d = Scalar x" "b = PtrToStack mn mx al f"
    | (sc) x off where "d = Scalar x" "b = PtrToCtx off"
    | (ps) mn mx al f y where "d = PtrToStack mn mx al f" "b = Scalar y"
    | (cs) off y where "d = PtrToCtx off" "b = Scalar y"
    | (bad) "(\<exists>mn mx al f. d = PtrToStack mn mx al f) \<or> (\<exists>off. d = PtrToCtx off)"
        "(\<exists>mn mx al f. b = PtrToStack mn mx al f) \<or> (\<exists>off. b = PtrToCtx off)"
    using val_rel_kinds [OF v(2)] val_rel_kinds [OF u(2)] d(1) b(1) by (auto simp: read_reg_Ok_iff)
  then show ?thesis
  proof cases
    case ss
    obtain p q where pq: "v = CV_Scalar p" "in_bounds x p" "linked L x p" "u = CV_Scalar q" "in_bounds y q"
      using v(2) u(2) ss by (auto simp: val_rel_Scalar)
    have "val_rel L (Scalar (apply_alu op w x y)) (Some (CV_Scalar (alu_value op w p q)))"
      using ok d b ss pq exec_wf_read [OF wf d(1)] exec_wf_read [OF wf b(1)]
      by (intro alu_val_rel) (simp_all add: alu_reg_sound_def)
    then show ?thesis
      by (rule related_set [OF sim]) (use r abs ss scal pq in \<open>auto simp: start alu_scalars_def split: if_splits\<close>)
  next
    case sp
    then obtain p a where pa: "v = CV_Scalar p" "in_bounds x p" "u = StackPtr a f" "pointer_in mn mx al (sint (a - STACK_BASE))"
      using v(2) u(2) by (auto simp: val_rel_Scalar val_rel_Stack)
    have o: "op = Alu_Add" "w = W64" "add_scalar_to_stack_ptr pc dst mn mx al f x s = Ok s'"
      using r abs sp scal by (auto simp: alu_scalars_def rbind_Ok_iff split: if_splits)
    have "al \<noteq> ALIGN_UNKNOWN" "sint mx + sint (smax x) < 2 ^ 31"
      using ok d(3) b(2) sp by (simp_all add: alu_reg_sound_def)
    from add_scalar_related [OF sim pa(4) this pa(2) o(3)] show ?thesis
      by (simp add: start pa(1,3) o(1,2) is_shift_def)
  next
    case sc
    then obtain p where pa: "v = CV_Scalar p" "in_bounds x p" "u = CtxPtr (CTX_BASE + scast off)"
      using v(2) u(2) by (auto simp: val_rel_Scalar val_rel_Ctx)
    have o: "op = Alu_Add" "w = W64" "ctx_plus pc dst off True x s = Ok s'"
      using r abs sc scal by (auto simp: alu_scalars_def rbind_Ok_iff split: if_splits)
    have "fits_i32 (if True then sint off + sint (smin x) else sint off - sint (smin x))"
      using ok d(3) b(2) sc by (simp add: alu_reg_sound_def)
    from ctx_plus_related [OF sim this pa(2) o(3)] show ?thesis
      by (simp add: start pa(1,3) o(1,2) is_shift_def)
  next
    case ps
    then obtain p a where pa: "u = CV_Scalar p" "in_bounds y p" "v = StackPtr a f" "pointer_in mn mx al (sint (a - STACK_BASE))"
      using v(2) u(2) by (auto simp: val_rel_Scalar val_rel_Stack)
    have o: "op = Alu_Add" "w = W64" "add_scalar_to_stack_ptr pc dst mn mx al f y s = Ok s'"
      using r abs ps scal by (auto simp: rbind_Ok_iff split: if_splits)
    have "al \<noteq> ALIGN_UNKNOWN" "sint mx + sint (smax y) < 2 ^ 31"
      using ok d(3) b(2) ps by (simp_all add: alu_reg_sound_def)
    from add_scalar_related [OF sim pa(4) this pa(2) o(3)] show ?thesis
      by (simp add: start pa(1,3) o(1,2) is_shift_def)
  next
    case cs
    then obtain p where pa: "u = CV_Scalar p" "in_bounds y p" "v = CtxPtr (CTX_BASE + scast off)"
      using v(2) u(2) by (auto simp: val_rel_Scalar val_rel_Ctx)
    have o: "op = Alu_Add \<or> op = Alu_Sub" "w = W64" "ctx_plus pc dst off (op = Alu_Add) y s = Ok s'"
      using r abs cs scal by (auto simp: rbind_Ok_iff split: if_splits)
    have "fits_i32 (if op = Alu_Add then sint off + sint (smin y) else sint off - sint (smin y))"
      using ok d(3) b(2) cs by (simp add: alu_reg_sound_def)
    from ctx_plus_related [OF sim this pa(2) o(3)] show ?thesis
      using o(1,2) by (auto simp: start pa(1,3) is_shift_def)
  next
    case bad
    then show ?thesis using r abs scal by (auto split: if_splits)
  qed
qed

end
