(* ===== verification/Sim_Straight.thy ===== *)
theory Sim_Straight
  imports Sim_Step
begin

text \<open>
  The remaining straight-line instructions of the simulation, and the step theorem: a step the verifier
  accepts is a step of the interpreter, and the resulting states are related.
\<close>

section \<open>Multiplication and negation\<close>

lemma mul_imm_related:
  assumes sim: "sim L s c" and wf: "exec_wf s" and ok: "high = Mul_Low \<longrightarrow> alu_imm_sound s dst imm Alu_Mul W64"
    and r: "mul_imm pc s dst imm high = Ok s'"
  shows "\<exists>c'. concrete_mul_high pc c dst imm high = Ok c' \<and> sim L s' c'"
proof (cases "high = Mul_Low")
  case True
  then obtain c' where "concrete_alu_imm pc c dst imm Alu_Mul W64 = Ok c'" "sim L s' c'"
    using alu_imm_related [OF sim wf ok [rule_format, OF True]] r True by (simp add: mul_imm_def) blast
  moreover from this obtain v where "read_concrete_reg pc c dst = Ok v"
    by (auto simp: concrete_alu_imm_def rbind_Ok_iff is_shift_def)
  ultimately show ?thesis
    using True by (cases v) (auto simp: concrete_alu_imm_def concrete_mul_high_def rbind_Ok_iff is_shift_def)
next
  case False
  then obtain d where d: "read_scalar pc s dst = Ok d" and s': "s' = set_reg s dst (Scalar
      (if scalar_is_constant d then scalar_constant (hmul_const (smin d) (scast imm) high) else scalar_unknown))"
    using r by (auto simp: mul_imm_def rbind_Ok_iff read_scalar_Ok_iff read_reg_Ok_iff split: reg_state.split_asm)
  obtain x where x: "read_concrete_reg pc c dst = Ok (CV_Scalar x)" "in_bounds d x"
    by (rule sim_read_scalar [OF sim d])
  have "sim L s' (set_creg c dst (CV_Scalar (hmul_const x (scast imm) high)))"
    unfolding s' using scalar_is_constant_mem(1) [OF _ in_bounds_mem64 [OF x(2)]]
    by (intro sim_set [OF sim]) auto
  then show ?thesis using False x(1) by (simp add: concrete_mul_high_def)
qed

lemma mul_reg_related:
  assumes sim: "sim L s c" and wf: "exec_wf s" and ok: "high = Mul_Low \<longrightarrow> alu_reg_sound s dst src Alu_Mul W64"
    and r: "mul_reg pc s dst src high = Ok s'"
  shows "\<exists>c'. concrete_mul_high_reg pc c dst src high = Ok c' \<and> sim L s' c'"
proof (cases "high = Mul_Low")
  case True
  then show ?thesis using alu_reg_related [OF sim wf] ok r by (simp add: mul_reg_def concrete_mul_high_reg_def)
next
  case False
  then obtain d b where d: "read_scalar pc s dst = Ok d" "read_scalar pc s src = Ok b" and s': "s' = set_reg s dst (Scalar
      (if scalar_is_constant d \<and> scalar_is_constant b then scalar_constant (hmul_const (smin d) (smin b) high)
       else scalar_unknown))"
    using r by (auto simp: mul_reg_def rbind_Ok_iff read_scalar_Ok_iff read_reg_Ok_iff split: reg_state.split_asm)
  obtain x where x: "read_concrete_reg pc c dst = Ok (CV_Scalar x)" "in_bounds d x"
    by (rule sim_read_scalar [OF sim d(1)])
  obtain y where y: "read_concrete_reg pc c src = Ok (CV_Scalar y)" "in_bounds b y"
    by (rule sim_read_scalar [OF sim d(2)])
  have "sim L s' (set_creg c dst (CV_Scalar (hmul_const x y high)))"
    unfolding s' using scalar_is_constant_mem(1) [OF _ in_bounds_mem64 [OF x(2)]] scalar_is_constant_mem(1) [OF _ in_bounds_mem64 [OF y(2)]]
    by (intro sim_set [OF sim]) auto
  then show ?thesis using False x(1) y(1) by (simp add: concrete_mul_high_reg_def)
qed

lemma alu_neg_related:
  assumes sim: "sim L s c" and r: "alu_neg pc s dst w = Ok s'"
  shows "\<exists>c'. concrete_neg pc c dst w = Ok c' \<and> sim L s' c'"
proof -
  obtain d where d: "read_scalar pc s dst = Ok d" and s': "s' = set_reg s dst (Scalar
      (if scalar_is_constant d then scalar_constant (alu_value Alu_Neg w (smin d) 0) else scalar_unknown))"
    using r by (cases w) (auto simp: alu_neg_def rbind_Ok_iff read_scalar_Ok_iff read_reg_Ok_iff split: reg_state.split_asm)
  obtain x where x: "read_concrete_reg pc c dst = Ok (CV_Scalar x)" "in_bounds d x"
    by (rule sim_read_scalar [OF sim d])
  have "sim L s' (set_creg c dst (CV_Scalar (alu_value Alu_Neg w x 0)))"
    unfolding s' using scalar_is_constant_mem(1) [OF _ in_bounds_mem64 [OF x(2)]]
    by (intro sim_set [OF sim]) auto
  then show ?thesis using x(1) by (simp add: concrete_neg_def)
qed

lemma mov32_related:
  assumes sim: "sim L s c" and r: "read_scalar pc s src = Ok b"
  shows "\<exists>x. read_concrete_reg pc c src = Ok (CV_Scalar x) \<and>
    sim L (set_reg s dst (Scalar (mov32_bounds b))) (set_creg c dst (CV_Scalar (ucast (ucast x :: u32))))"
proof -
  obtain x where x: "read_concrete_reg pc c src = Ok (CV_Scalar x)" "in_bounds b x"
    by (rule sim_read_scalar [OF sim r])
  then show ?thesis using sim_set [OF sim mov32_val_rel [OF x(2)]] by blast
qed

section \<open>Memory\<close>

lemma write_base:
  assumes "sim L s c" "exact_base s base" "stack_write pc base s off sz src imm = Ok s'"
  obtains mn al f where "read_reg pc s base = Ok (PtrToStack mn mn al f)"
proof -
  obtain b where b: "read_reg pc s base = Ok b" using assms(3) by (auto simp: stack_write_def rbind_Ok_iff)
  obtain w where "val_rel L b (Some w)" by (rule sim_read [OF assms(1) b])
  with assms(2,3) b show thesis
    using that by (auto simp: stack_write_def read_reg_Ok_iff exact_base_def dest!: val_rel_kinds)
qed

lemma store_reg_related:
  assumes sim: "sim L s c" and wf: "exec_wf s" and ok: "exact_base s base"
    and r: "stack_write pc base s off sz (Some src) None = Ok s'"
  shows "\<exists>c'. concrete_step pc c (StMem src base off sz) = Ok c' \<and> sim L s' c'"
proof -
  obtain mn al f where b: "read_reg pc s base = Ok (PtrToStack mn mn al f)" by (rule write_base [OF sim ok r])
  have "\<exists>w. creg_at c src = Ok (Some w) \<and> val_rel L v (Some w)" if "stored_value pc s (Some src) None = Ok v" for v
  proof -
    have "read_reg pc s src = Ok v" using that by (simp add: stored_value_def)
    then obtain w where "read_concrete_reg pc c src = Ok w" "val_rel L v (Some w)" by (rule sim_read [OF sim])
    then show ?thesis by (auto simp: creg_at_def read_concrete_reg_def rbind_Ok_iff split: option.splits)
  qed
  from store_related [OF sim wf b r this] show ?thesis by (auto simp: concrete_step_def)
qed

lemma store_imm_related:
  assumes sim: "sim L s c" and wf: "exec_wf s" and ok: "exact_base s base"
    and r: "stack_write pc base s off sz None (Some imm) = Ok s'"
  shows "\<exists>c'. concrete_step pc c (StMemImm imm base off sz) = Ok c' \<and> sim L s' c'"
proof -
  obtain mn al f where b: "read_reg pc s base = Ok (PtrToStack mn mn al f)" by (rule write_base [OF sim ok r])
  have "\<exists>w. w = CV_Scalar (scast imm) \<and> val_rel L v (Some w)" if "stored_value pc s None (Some imm) = Ok v" for v
    using that by (auto simp: stored_value_def)
  from store_related [OF sim wf b r this] show ?thesis by (auto simp: concrete_step_def)
qed

lemma sat_i32_inner:
  assumes "0 \<le> sint (sat_i32 v)" "sint (sat_i32 v) < 2 ^ 31 - 1"
  shows "sint (sat_i32 v) = v"
proof -
  consider "v < - (2 ^ 31)" | "- (2 ^ 31) \<le> v" "v < 2 ^ 31" | "2 ^ 31 \<le> v" by linarith
  then show ?thesis
  proof cases
    case 1
    then have "sat_i32 v = word_of_int (- (2 ^ 31))" by (simp add: sat_i32_def)
    then show ?thesis using assms by simp
  next
    case 3
    then have "sat_i32 v = word_of_int (2 ^ 31 - 1)" by (simp add: sat_i32_def)
    then show ?thesis using assms by simp
  qed (rule sint_sat_i32)
qed

lemma ctx_load_related:
  assumes sim: "sim L s c" and base: "read_reg pc s base = Ok (PtrToCtx boff)" and dst: "unat dst < NUM_REGS"
    and r: "ctx_read pc (vprog_type s) (sat_i32 (sint boff + sint off)) sz se = Ok v"
  shows "\<exists>c'. concrete_load pc c dst base off sz se = Ok c' \<and> sim L (set_reg s dst v) c'"
proof -
  let ?o = "sat_i32 (sint boff + sint off)" and ?n = "of_nat (mem_bytes sz) :: u32"
  have acc: "ctx_read_access (vprog_type s) ?o ?n = Ok Ctx_Scalar" "v = Scalar (scalar_for_width ?n se)"
    using r by (auto simp: ctx_read_def Let_def split: sum.splits ctx_access.splits ctx_error.splits)
  have n: "uint ?n \<in> {1, 2, 4, 8}" by (cases sz) simp_all
  obtain m where "0 \<le> sint ?o" "sint ?o + uint ?n \<le> ctx_size m"
    using ctx_read_bounds [OF acc(1) n] by blast
  then have "0 \<le> sint ?o" "sint ?o < 2 ^ 31 - 1"
    using n by (cases m; auto simp: )+
  then have fits: "sint ?o = sint boff + sint off" by (rule sat_i32_inner)
  have sum: "sint (scast boff + scast off :: i64) = sint boff + sint off"
    using sint32_bounds [of boff] sint16_bounds [of off] by (simp add: sint_word_ariths signed_take_bit_int_eq_self)
  then have "(ucast (scast boff + scast off :: i64) :: i32) = ?o"
    using sint32_bounds [of ?o] unfolding fits sum [symmetric]
    by (intro sint_word_eqI) (simp add: sint_ucast_fits fits [folded sum])
  moreover have "cprog_type c = vprog_type s" using sim by (simp add: sim_def)
  ultimately have "concrete_load pc c dst base off sz se = Ok (set_creg c dst (CV_Scalar 0))"
    using sim_read_ctx [OF sim base] dst acc(1) by (simp add: concrete_load_def Let_def check_concrete_reg_def)
  then show ?thesis unfolding acc(2) using sim_set_scalar [OF sim zero_for_width] by simp
qed

lemma load_step_related:
  assumes sim: "sim L s c" and wf: "exec_wf s" and ok: "exact_base s base"
    and r: "load_step pc s dst base off sz se = Ok s'"
  shows "\<exists>c'. concrete_load pc c dst base off sz se = Ok c' \<and> sim L s' c'"
proof -
  have dst: "unat dst < NUM_REGS" and b: "unat base < NUM_REGS"
    using r by (auto simp: load_step_def rbind_Ok_iff check_reg_def split: if_splits)
  have "regs s ! unat base \<noteq> Uninit"
    using r by (auto simp: load_step_def stack_read_def rbind_Ok_iff read_reg_Ok_iff split: if_splits)
  then have base: "read_reg pc s base = Ok (regs s ! unat base)" using b by (simp add: read_reg_Ok_iff)
  obtain w where w: "val_rel L (regs s ! unat base) (Some w)" by (rule sim_read [OF sim base])
  show ?thesis
  proof (cases "\<exists>boff. regs s ! unat base = PtrToCtx boff")
    case True
    then show ?thesis using ctx_load_related [OF sim _ dst] base r
      by (auto simp: load_step_def rbind_Ok_iff split: if_splits)
  next
    case False
    obtain v where v: "stack_read pc base s off sz se = Ok v" "s' = set_reg s dst v"
      using r False by (auto simp: load_step_def rbind_Ok_iff split: if_splits reg_state.splits)
    obtain mn al f where m: "read_reg pc s base = Ok (PtrToStack mn mn al f)"
      using False ok base v(1) val_rel_kinds [OF w] by (auto simp: exact_base_def stack_read_def)
    obtain a k ins o' cs w where l: "read_concrete_reg pc c base = Ok (StackPtr a f)"
      "locate pc base (StackPtr a f) off (mem_bytes sz) = Ok (f, o', k, ins)" "concrete_frame_stack c f = Ok cs"
      "cs ! k = Some w" "val_rel L v (Some (concrete_extract w ins (mem_bytes sz) se))"
      by (rule load_related [OF sim wf m v(1)])
    then have "concrete_load pc c dst base off sz se = Ok (set_creg c dst (concrete_extract w ins (mem_bytes sz) se))"
      using dst by (simp add: concrete_load_def check_concrete_reg_def)
    then show ?thesis unfolding v(2) using sim_set [OF sim l(5)] by blast
  qed
qed

section \<open>Steps\<close>

text \<open>The straight-line instructions of the fragment.\<close>

definition straight_sound :: "u32 \<Rightarrow> verifier_state \<Rightarrow> bpf_insn \<Rightarrow> bool" where
  "straight_sound pc s insn =
     (case insn of
        MovImm dst imm \<Rightarrow> True
      | Mov32Imm dst imm \<Rightarrow> True
      | Mov32Reg dst src \<Rightarrow> True
      | MovReg dst src \<Rightarrow> mov_sound pc s src
      | LdImm64 dst imm \<Rightarrow> True
      | LdImm64Second imm \<Rightarrow> True
      | AluImm op w dst imm \<Rightarrow> alu_imm_sound s dst imm (bin_alu op) w
      | AluReg op w dst src \<Rightarrow> alu_reg_sound s dst src (bin_alu op) w
      | MulImm dst imm high \<Rightarrow> high = Mul_Low \<longrightarrow> alu_imm_sound s dst imm Alu_Mul W64
      | MulReg dst src high \<Rightarrow> high = Mul_Low \<longrightarrow> alu_reg_sound s dst src Alu_Mul W64
      | Mul32Imm dst imm \<Rightarrow> alu_imm_sound s dst imm Alu_Mul W32
      | Mul32Reg dst src \<Rightarrow> alu_reg_sound s dst src Alu_Mul W32
      | NegInsn w dst \<Rightarrow> True
      | StMem src base off sz \<Rightarrow> exact_base s base
      | StMemImm imm base off sz \<Rightarrow> exact_base s base
      | LdMem dst base off sz se \<Rightarrow> exact_base s base
      | _ \<Rightarrow> False)"

lemma mov32_imm_val_rel: "val_rel L (Scalar (scalar_from_signed 0 (ucast imm))) (Some (CV_Scalar (ucast (imm :: u32))))"
  by (intro scalar_val_rel scalar_from_signed_mem) (simp_all add: in_range_defs sint_ucast32)

lemma const_related: "sim L s c \<Longrightarrow> \<exists>L'. sim L' (set_reg s r (Scalar (scalar_constant v))) (set_creg c r (CV_Scalar v))"
  by (rule exI [of _ L]) (simp add: sim_set)

lemma straight_related:
  assumes sim: "sim L s c" and wf: "exec_wf s" and ok: "straight_sound pc s insn" and r: "step pc s insn = Ok s'"
  shows "\<exists>c' L'. concrete_step pc c insn = Ok c' \<and> sim L' s' c'"
proof (cases insn)
  case (MovImm dst imm)
  then show ?thesis using r const_related [OF sim] by (auto simp: step_def concrete_step_def checked_set_def rbind_Ok_iff check_concrete_reg_ok)
next
  case (Mov32Imm dst imm)
  then show ?thesis using r sim_set [OF sim mov32_imm_val_rel]
    by (auto simp: step_def concrete_step_def checked_set_def rbind_Ok_iff check_concrete_reg_ok)
next
  case (LdImm64 dst imm)
  then show ?thesis using r const_related [OF sim] by (auto simp: step_def concrete_step_def checked_set_def rbind_Ok_iff check_concrete_reg_ok)
next
  case (LdImm64Second imm)
  then show ?thesis using r sim by (auto simp: step_def concrete_step_def)
next
  case (Mov32Reg dst src)
  then obtain b where b: "read_scalar pc s src = Ok b" "unat dst < NUM_REGS" "s' = set_reg s dst (Scalar (mov32_bounds b))"
    using r by (auto simp: step_def rbind_Ok_iff)
  from mov32_related [OF sim b(1), of dst] show ?thesis
    using b(2,3) Mov32Reg by (auto simp: concrete_step_def check_concrete_reg_def)
next
  case (MovReg dst src)
  with mov_related [OF sim wf, of pc src dst s'] ok r show ?thesis
    by (auto simp: straight_sound_def step_def concrete_step_def check_concrete_reg_def)
next
  case (AluImm op w dst imm)
  then show ?thesis using alu_imm_related [OF sim wf, of dst imm "bin_alu op" w pc s'] ok r
    by (auto simp: straight_sound_def step_def concrete_step_def)
next
  case (AluReg op w dst src)
  then show ?thesis using alu_reg_related [OF sim wf, of dst src "bin_alu op" w pc s'] ok r
    by (auto simp: straight_sound_def step_def concrete_step_def)
next
  case (Mul32Imm dst imm)
  then show ?thesis using alu_imm_related [OF sim wf, of dst imm Alu_Mul W32 pc s'] ok r
    by (auto simp: straight_sound_def step_def concrete_step_def)
next
  case (Mul32Reg dst src)
  then show ?thesis using alu_reg_related [OF sim wf, of dst src Alu_Mul W32 pc s'] ok r
    by (auto simp: straight_sound_def step_def concrete_step_def)
next
  case (MulImm dst imm high)
  then show ?thesis using mul_imm_related [OF sim wf, of high dst imm pc s'] ok r
    by (auto simp: straight_sound_def step_def concrete_step_def)
next
  case (MulReg dst src high)
  then show ?thesis using mul_reg_related [OF sim wf, of high dst src pc s'] ok r
    by (auto simp: straight_sound_def step_def concrete_step_def)
next
  case (NegInsn w dst)
  then show ?thesis using alu_neg_related [OF sim, of pc dst w s'] r by (auto simp: step_def concrete_step_def)
next
  case (StMem src base off sz)
  then show ?thesis using store_reg_related [OF sim wf, of base pc off sz src s'] ok r
    by (auto simp: straight_sound_def step_def)
next
  case (StMemImm imm base off sz)
  then show ?thesis using store_imm_related [OF sim wf, of base pc off sz imm s'] ok r
    by (auto simp: straight_sound_def step_def)
next
  case (LdMem dst base off sz se)
  then show ?thesis using load_step_related [OF sim wf, of base pc dst off sz se s'] ok r
    by (auto simp: straight_sound_def step_def concrete_step_def)
qed (use ok in \<open>simp_all add: straight_sound_def\<close>)

lemma val_rel_not_map: "val_rel L v w \<Longrightarrow> \<not> is_map_ptr w"
  by (induction L v w rule: val_rel.induct) (auto simp: is_map_ptr_def)

lemma sim_not_map: "sim L s c \<Longrightarrow> unat r < NUM_REGS \<Longrightarrow> \<not> is_map_ptr (cregs c ! unat r)"
  using val_rel_not_map by (auto simp: sim_def regs_rel_def)

lemma concrete_step_base:
  assumes "concrete_step pc c insn = Ok c'" "insn = LdMem dst base off sz se \<or> insn = StMem src base off sz"
  shows "unat base < NUM_REGS"
  using assms by (auto simp: concrete_step_def concrete_load_def read_concrete_reg_def rbind_Ok_iff)

lemma straight_successors:
  assumes sim: "sim L s c" and wf: "exec_wf s" and ok: "straight_sound pc s insn" and r: "exec_successors pc insn s = Ok succs"
  shows "\<exists>s' c' L'. succs = [(pc + 1, s')] \<and> concrete_successors pc insn c maps mem = Ok ([(pc + 1, c')], mem) \<and> sim L' s' c'"
proof -
  obtain s' where s': "step pc s insn = Ok s'" "succs = [(pc + 1, s')]"
    using ok r by (cases insn) (auto simp: straight_sound_def exec_successors_def rbind_Ok_iff)
  obtain c' L' where c': "concrete_step pc c insn = Ok c'" "sim L' s' c'"
    using straight_related [OF sim wf ok s'(1)] by blast
  have fall: "fall_through pc insn c mem = Ok ([(pc + 1, c')], mem)"
    using c'(1) by (simp add: fall_through_def no_mem_def)
  have base: "creg_at c b = Ok (cregs c ! unat b)" "\<not> is_map_ptr (cregs c ! unat b)"
    if "insn = LdMem d b off sz se \<or> insn = StMem q b off sz" for d b off sz se q
    using concrete_step_base [OF c'(1) that] sim_not_map [OF sim] by (simp_all add: creg_at_def)
  have "concrete_successors pc insn c maps mem = Ok ([(pc + 1, c')], mem)"
    using ok fall base by (cases insn) (auto simp: straight_sound_def concrete_successors_def)
  then show ?thesis using s' c' by blast
qed

end
