(* ===== verification/Sim_Branch.thy ===== *)
theory Sim_Branch
  imports Sim_Straight
begin

text \<open>
  Branches and calls of the simulation: one of the successors the verifier computes for a comparison
  is related to the one successor of the interpreter; the calls of helpers and subprograms and the
  return of a subprogram keep the relation.
\<close>

section \<open>Linked scalars\<close>

lemma stack_rel_map_spilled:
  assumes "stack_rel L st cs" "\<And>r v. val_rel L r v \<Longrightarrow> val_rel L (h r) v"
  shows "stack_rel L (map_spilled h st) cs"
proof -
  let ?st = "map_spilled h st"
  have wf: "stack_wf st" "stack_wf ?st" using assms(1) by (simp_all add: stack_rel_def stack_wf_def map_spilled_def)
  have "cell_rel L ?st k (cs ! k)" if k: "k < STACK_SLOTS" for k
  proof -
    have c: "cell_rel L st k (cs ! k)" using assms(1) k by (simp add: stack_rel_def)
    have full: "full_spill ?st k = full_spill st k" using wf k by (simp add: full_spill_iff map_spilled_def stack_wf_def)
    have sp: "spilled ?st ! k = (if full_spill st k then map_option h (spilled st ! k) else spilled st ! k)"
      using wf(1) k by (simp add: map_spilled_def stack_wf_def nth_enumerate_eq)
    have "partial_rel ?st k x = partial_rel st k x" if "\<not> full_spill st k" for x
      using sp that by (simp add: partial_rel_def map_spilled_def)
    then show ?thesis
      using c full sp assms(2) by (auto simp: cell_rel_def map_spilled_def split: option.splits if_splits)
  qed
  then show ?thesis using assms(1) wf(2) by (simp add: stack_rel_def)
qed

lemma sync_related:
  assumes sim: "sim L s c" and known: "scalar_wf known" "in_bounds known x" "link \<noteq> 0 \<longrightarrow> x = L link + scast kd"
  shows "sim L (sync_linked_scalars link kd known s) c"
proof (cases "link = 0")
  case False
  have linked: "val_rel L (Scalar (linked_bounds kd known b)) v" if "val_rel L (Scalar b) v" "sid b = link" for b v
    using that linked_bounds_val_rel [OF known(1,2)] known(3) False by (auto simp: val_rel_Scalar)
  have "val_rel L (sync_reg link kd known r) v" "val_rel L (sync_spill link kd known r) v" if "val_rel L r v" for r v
    using that linked by (auto simp: sync_reg_def sync_spill_def split: reg_state.splits)
  then show ?thesis
    using sim False by (simp add: sim_def sync_linked_scalars_def regs_rel_def stack_rel_map_spilled saved_rel_def)
qed (use sim in \<open>simp add: sync_linked_scalars_def\<close>)

definition link_kept :: "scalar_bounds \<Rightarrow> scalar_bounds \<Rightarrow> bool" where
  "link_kept b r \<longleftrightarrow> sid r = 0 \<or> sid r = sid b \<and> delta r = delta b"

lemma link_kept_simps [simp]:
  "link_kept b (synced r) \<longleftrightarrow> link_kept b r" "link_kept b b"
  "link_kept b (b\<lparr>smin := u, smax := v\<rparr>)" "link_kept b (b\<lparr>umin := u, umax := v\<rparr>)"
  by (simp_all add: link_kept_def)

lemma link_kept_with [simp]: "link_kept b (with_signed b y)" "link_kept b (with_unsigned b y)"
  by (cases y; simp)+

lemma link_kept_eq [simp]: "link_kept b (bounds_inter x y)" "link_kept x (exclude_bounds x y)"
  by (simp_all add: link_kept_def bounds_inter_def exclude_bounds_def Let_def)

lemma linked_kept: "linked L b x \<Longrightarrow> link_kept b r \<Longrightarrow> linked L r x"
  by (auto simp: linked_def link_kept_def)

lemma refine_cmp_links:
  assumes "refine_cmp op d b = ((td, tb), (fd, fb))"
  shows "link_kept d td \<and> link_kept d fd \<and> link_kept b tb \<and> link_kept b fb"
proof (cases "cond_ord op")
  case None
  then show ?thesis using assms by (auto simp: refine_cmp_def refine_eq_def refine_ne_def Let_def split: if_split_asm)
next
  case (Some ord)
  obtain t1 t2 f1 f2 u1 u2 v1 v2 where
    "refine_ordered (\<le>s) ord (scalar_signed d) (scalar_signed b) = ((t1, t2), (f1, f2))"
    "refine_ordered (\<le>) ord (scalar_unsigned d) (scalar_unsigned b) = ((u1, u2), (v1, v2))"
    by (metis surj_pair)
  then show ?thesis
    using assms refine_cmp_ordered [OF Some] refine_cmp_ordered_unsigned [OF Some]
    by (cases "cond_is_signed op") auto
qed

section \<open>Comparisons of scalars\<close>

lemma refined_side_related:
  assumes sim: "sim L s c" and wf: "scalar_wf d'" "scalar_wf b'"
    and x: "read_concrete_reg pc c dst = Ok (CV_Scalar x)" "in_bounds d' x" "linked L d' x" "linked L d x"
    and y: "\<forall>r. src = Some r \<longrightarrow> read_concrete_reg pc c r = Ok (CV_Scalar y)" "in_bounds b' y" "linked L b' y" "linked L b y"
  shows "sim L (refined_side s dst src d b (d', b')) c"
proof -
  have kd: "sid d \<noteq> 0 \<longrightarrow> x = L (sid d) + scast (delta d)" and kb: "sid b \<noteq> 0 \<longrightarrow> y = L (sid b) + scast (delta b)"
    using x(4) y(4) by (auto simp: linked_def)
  have s1: "sim L (set_reg s dst (Scalar d')) c"
    using x by (intro sim_set_same [OF sim x(1)]) simp
  show ?thesis
  proof (cases src)
    case None
    then show ?thesis using sync_related [OF s1 wf(1) x(2) kd] by (simp add: refined_side_def Let_def)
  next
    case (Some r)
    then have "sim L (set_reg (set_reg s dst (Scalar d')) r (Scalar b')) c"
      using y by (intro sim_set_same [OF s1]) auto
    from sync_related [OF sync_related [OF this wf(1) x(2) kd] wf(2) y(2) kb] show ?thesis
      using Some by (simp add: refined_side_def Let_def)
  qed
qed

lemma cond_scalars_related:
  assumes sim: "sim L s c" and wf: "scalar_wf d" "scalar_wf b" and ok: "refine_ok op b"
    and x: "read_concrete_reg pc c dst = Ok (CV_Scalar x)" "in_bounds d x" "linked L d x"
    and y: "\<forall>r. src = Some r \<longrightarrow> read_concrete_reg pc c r = Ok (CV_Scalar y)" "in_bounds b y" "linked L b y"
  shows "\<exists>s'. (if concrete_cond op x y then branch_target pc off else pc + 1, s') \<in> set (cond_scalars pc dst src d b off op s) \<and>
    sim L s' c"
proof -
  obtain td tb fd fb where r: "refine_cmp op d b = ((td, tb), (fd, fb))" by (metis surj_pair)
  note mem = in_bounds_mem64 [OF x(2)] in_bounds_mem64 [OF y(2)]
  note wfs = scalar_wf_refine [OF wf r]
  note links = refine_cmp_links [OF r]
  have side: "sim L (refined_side s dst src d b (d', b')) c"
    if "(d', b') \<in> {(td, tb), (fd, fb)}" "scalar_mem d' x" "scalar_mem b' y" for d' b'
    using that wfs links linked_kept [OF x(3)] linked_kept [OF y(3)] scalar_mem_in_bounds x y
    by (intro refined_side_related [OF sim]) auto
  show ?thesis
  proof (cases "concrete_cond op x y")
    case True
    have "is_branch_taken op d b \<noteq> AlwaysNotTaken" using True is_branch_taken_mem(2) [OF mem] by blast
    moreover have "sim L (refined_side s dst src d b (td, tb)) c"
      using refine_cmp_mem(1) [OF wf mem r True] by (intro side) simp_all
    ultimately show ?thesis using True r by (auto simp: cond_scalars_def Let_def)
  next
    case False
    have "is_branch_taken op d b \<noteq> AlwaysTaken" using False is_branch_taken_mem(1) [OF mem] by blast
    moreover have "sim L (refined_side s dst src d b (fd, fb)) c"
      using refine_cmp_mem(2) [OF wf mem r False ok] by (intro side) simp_all
    ultimately show ?thesis using False r by (auto simp: cond_scalars_def Let_def)
  qed
qed

section \<open>Comparisons\<close>

text \<open>What a covered successor is: a state of the verifier at the same instruction.\<close>

definition matched :: "links \<Rightarrow> successors \<Rightarrow> u32 \<times> concrete_state \<Rightarrow> bool" where
  "matched L succs q \<longleftrightarrow> (\<exists>s'. (fst q, s') \<in> set succs \<and> sim L s' (snd q))"

lemma matched_both: "sim L s c \<Longrightarrow> matched L (both_sides pc off s) (if t then branch_target pc off else pc + 1, c)"
  by (auto simp: matched_def both_sides_def)

lemma matched_or_both:
  "sim L s c \<Longrightarrow> v = None \<or> v = Some t \<Longrightarrow> matched L (branch_or_both pc off v s) (if t then branch_target pc off else pc + 1, c)"
  by (auto simp: matched_def branch_or_both_def both_sides_def split: option.splits)

lemma concrete_cond_refl: "concrete_cond op x x \<longleftrightarrow> reflexive_op op"
  by (cases op) (simp_all add: reflexive_op_def)

lemma fragment_comparable: "val_rel L v (Some w) \<Longrightarrow> (\<exists>b. v = Scalar b) \<or> comparable_pointer v"
  by (induction L v "Some w" rule: val_rel.induct) (auto simp: comparable_pointer_def)

lemma fragment_value:
  "val_rel L v (Some w) \<Longrightarrow> (\<exists>x. w = CV_Scalar x) \<or> (\<exists>a f. w = StackPtr a f) \<or> (\<exists>a. w = CtxPtr a)"
  by (induction L v "Some w" rule: val_rel.induct) auto

lemma pointer_scalar_related:
  assumes sim: "sim L s c" and v: "val_rel L v (Some w)" "\<nexists>b. v = Scalar b"
    and r: "pointer_vs_scalar pc dst src ptr v b off op s = Ok succs"
  shows "succs = both_sides pc off s" "(\<exists>a f. w = StackPtr a f) \<or> (\<exists>a. w = CtxPtr a)"
  using assms by (induction L v "Some w" rule: val_rel.induct)
    (auto simp: pointer_vs_scalar_def comparable_pointer_def split: if_split_asm)

lemma pointers_related:
  assumes v: "val_rel L v (Some w)" "\<nexists>b. v = Scalar b" and u: "val_rel L u (Some z)" "\<nexists>b. u = Scalar b"
    and k: "same_pointer_kind v u" "is_eq_op op"
  shows "\<exists>t. concrete_cond_values pc dst src op w z = Ok t"
proof -
  have e: "\<exists>t. eq_only f op q = Ok t" for f q
    using k(2) by (auto simp: is_eq_op_def eq_only_def)
  consider (stack) a f a' f' where "w = StackPtr a f" "z = StackPtr a' f'" | (ctx) a a' where "w = CtxPtr a" "z = CtxPtr a'"
    using val_rel_kinds [OF v(1)] val_rel_kinds [OF u(1)] v u k(1)
    by (elim disjE exE) (auto simp: same_pointer_kind_def val_rel_Stack val_rel_Ctx)
  then show ?thesis by cases (simp_all add: concrete_cond_values_def Let_def e)
qed

lemma cond_impl_related:
  assumes sim: "sim L s c" and wf: "exec_wf s"
    and src: "val_rel L v (Some z)" "\<forall>r. src = Some r \<longrightarrow> read_concrete_reg pc c r = Ok z" "\<forall>b. v = Scalar b \<longrightarrow> scalar_wf b"
    and ok: "\<forall>b. v = Scalar b \<and> (\<exists>d. regs s ! unat dst = Scalar d) \<longrightarrow> refine_ok op b"
    and r: "cond_branch_impl pc dst src v off op s = Ok succs"
  shows "\<exists>w t. read_concrete_reg pc c dst = Ok w \<and> concrete_cond_values pc dst sr op w z = Ok t \<and>
    matched L succs (if t then branch_target pc off else pc + 1, c)"
proof -
  obtain d where d: "read_reg pc s dst = Ok d"
    using r by (auto simp: cond_branch_impl_def rbind_Ok_iff)
  obtain w where w: "read_concrete_reg pc c dst = Ok w" "val_rel L d (Some w)"
    by (rule sim_read [OF sim d])
  consider (ss) x y where "d = Scalar x" "v = Scalar y" | (sp) x where "d = Scalar x" "\<nexists>b. v = Scalar b"
    | (ps) y where "\<nexists>b. d = Scalar b" "v = Scalar y" | (pp) "\<nexists>b. d = Scalar b" "\<nexists>b. v = Scalar b"
    by blast
  then show ?thesis
  proof cases
    case ss
    then obtain p q where pq: "w = CV_Scalar p" "in_bounds x p" "linked L x p" "z = CV_Scalar q" "in_bounds y q" "linked L y q"
      using w(2) src(1) by (auto simp: val_rel_Scalar)
    have succs: "succs = cond_scalars pc dst src x y off op s" using r d ss by (simp add: cond_branch_impl_def)
    have wfs: "scalar_wf x" "scalar_wf y" "refine_ok op y"
      using exec_wf_read [OF wf d] ss src(3) ok d by (simp_all add: read_reg_Ok_iff)
    have q: "\<forall>r. src = Some r \<longrightarrow> read_concrete_reg pc c r = Ok (CV_Scalar q)" using src(2) pq(4) by simp
    from cond_scalars_related [OF sim wfs w(1) [unfolded pq(1)] pq(2,3) q pq(5,6)] show ?thesis
      using w(1) pq(1,4) succs by (auto simp: concrete_cond_values_def matched_def)
  next
    case sp
    then obtain p where p: "w = CV_Scalar p" using w(2) by (auto simp: val_rel_Scalar)
    have "pointer_vs_scalar pc dst src src v x off op s = Ok succs"
      using r d sp fragment_comparable [OF src(1)] by (cases v) (auto simp: cond_branch_impl_def)
    from pointer_scalar_related [OF sim src(1) sp(2) this] show ?thesis
      using w(1) p matched_both [OF sim] by (auto simp: concrete_cond_values_def Let_def)
  next
    case ps
    then obtain q where q: "z = CV_Scalar q" using src(1) by (auto simp: val_rel_Scalar)
    have "pointer_vs_scalar pc dst src (Some dst) d y off op s = Ok succs"
      using r d ps fragment_comparable [OF w(2)] by (cases d) (auto simp: cond_branch_impl_def)
    from pointer_scalar_related [OF sim w(2) ps(1) this] show ?thesis
      using w(1) q matched_both [OF sim] by (auto simp: concrete_cond_values_def Let_def)
  next
    case pp
    have "succs = both_sides pc off s \<and> same_pointer_kind d v \<and> is_eq_op op"
      using r d pp fragment_comparable [OF w(2)] fragment_comparable [OF src(1)]
      by (cases d; cases v) (auto simp: cond_branch_impl_def comparable_pointer_def split: if_split_asm)
    then show ?thesis
      using pointers_related [OF w(2) pp(1) src(1) pp(2)] w(1) matched_both [OF sim] by blast
  qed
qed

lemma cond_reg_related:
  assumes sim: "sim L s c" and wf: "exec_wf s"
    and ok: "\<forall>d b. regs s ! unat dst = Scalar d \<and> regs s ! unat src = Scalar b \<and> dst \<noteq> src \<longrightarrow> refine_ok op b"
    and r: "cond_branch pc dst src off op s = Ok succs"
  shows "\<exists>q. concrete_cond_branch pc dst src off op c = Ok [q] \<and> matched L succs q"
proof (cases "src = dst \<and> (\<exists>b. regs s ! unat dst = Scalar b)")
  case True
  then obtain b where b: "read_reg pc s dst = Ok (Scalar b)" "succs = [(if reflexive_op op then branch_target pc off else pc + 1, s)]"
    using r by (auto simp: cond_branch_def rbind_Ok_iff read_reg_Ok_iff)
  obtain w where "read_concrete_reg pc c dst = Ok w" "val_rel L (Scalar b) (Some w)"
    by (rule sim_read [OF sim b(1)])
  then show ?thesis
    using True b(2) sim by (auto simp: concrete_cond_branch_def concrete_cond_values_def decided_def concrete_cond_refl val_rel_Scalar matched_def)
next
  case False
  obtain v where v: "read_reg pc s src = Ok v" "cond_branch_impl pc dst (Some src) v off op s = Ok succs"
    using r False by (auto simp: cond_branch_def rbind_Ok_iff read_reg_Ok_iff split: if_split_asm reg_state.split_asm)
  obtain z where z: "read_concrete_reg pc c src = Ok z" "val_rel L v (Some z)"
    by (rule sim_read [OF sim v(1)])
  have "refine_ok op b" if "v = Scalar b" "regs s ! unat dst = Scalar d" for b d
    using ok that v(1) False by (auto simp: read_reg_Ok_iff)
  then have ok: "\<forall>b. v = Scalar b \<and> (\<exists>d. regs s ! unat dst = Scalar d) \<longrightarrow> refine_ok op b" by blast
  have "\<forall>b. v = Scalar b \<longrightarrow> scalar_wf b" using exec_wf_read [OF wf v(1)] by auto
  from cond_impl_related [OF sim wf z(2) _ this ok v(2), of src] z(1) show ?thesis
    by (auto simp: concrete_cond_branch_def decided_def)
qed

lemma cond_imm_related:
  assumes sim: "sim L s c" and wf: "exec_wf s" and r: "cond_branch_imm pc dst imm off op s = Ok succs"
  shows "\<exists>q. concrete_cond_imm pc dst imm off op c = Ok [q] \<and> matched L succs q"
proof -
  let ?b = "scalar_constant (scast imm)"
  have r: "cond_branch_impl pc dst None (Scalar ?b) off op s = Ok succs" using r by (simp add: cond_branch_imm_def)
  have ok: "refine_ok op ?b" by (simp add: refine_ok_def scalar_constant_def)
  have z: "val_rel L (Scalar ?b) (Some (CV_Scalar (scast imm)))" by simp
  have "\<exists>w t. read_concrete_reg pc c dst = Ok w \<and> concrete_cond_values pc dst 0 op w (CV_Scalar (scast imm)) = Ok t \<and>
      matched L succs (if t then branch_target pc off else pc + 1, c)"
    by (rule cond_impl_related [OF sim wf z _ _ _ r]) (simp_all add: ok wf_intros)
  then obtain w t where w: "read_concrete_reg pc c dst = Ok w" "concrete_cond_values pc dst 0 op w (CV_Scalar (scast imm)) = Ok t"
    "matched L succs (if t then branch_target pc off else pc + 1, c)"
    by blast
  obtain d where d: "read_reg pc s dst = Ok d" using r by (auto simp: cond_branch_impl_def rbind_Ok_iff)
  obtain w' where "read_concrete_reg pc c dst = Ok w'" "val_rel L d (Some w')" by (rule sim_read [OF sim d])
  with w(1) have "val_rel L d (Some w)" by simp
  then have "concrete_cond_imm pc dst imm off op c = Ok [(if t then branch_target pc off else pc + 1, c)]"
    using w(1,2) fragment_value by (fastforce simp: concrete_cond_imm_def concrete_cond_values_def decided_def)
  then show ?thesis using w(3) by blast
qed

end
