(* ===== verification/Expand.thy ===== *)
theory Expand
  imports Branch_Exec Concrete_Step
begin

text \<open>
  What the two worklists do with one item once it has not been skipped: the verifier
  (\<open>verify_mini_core\<close> of \<open>src/src/mini.rs\<close>) and the interpreter (\<open>run_concrete_with_maps\<close> of
  \<open>src/src/concrete.rs\<close>) handle \<open>exit\<close> themselves and leave every other instruction to \<open>successors\<close> and
  \<open>concrete_successors\<close>.
\<close>

section \<open>Items of the verifier\<close>

datatype mini_msg =
    Max_Steps nat
  | Pc_Out_Of_Range
  | Infinite_Loop u32
  | Max_Loops nat
  | Max_States nat
  | Return_Stack_Pointer
  | Exit_Uninit
  | Exit_Not_Scalar
  | Unreleased u32

datatype mini_error = Mini_Exec exec_error | Mini_Fail "mini_msg failure"

abbreviation mfail :: "u32 \<Rightarrow> mini_msg \<Rightarrow> (mini_error, 'a) res" where
  "mfail pc m \<equiv> Err (Mini_Fail (Failure pc m))"

text \<open>
  The state after a nested exit. The sources ignore the early return on a missing frame, which comes after the depth
  has been decremented.
\<close>

definition returned_state :: "verifier_state \<Rightarrow> verifier_state" where
  "returned_state s = (case return_from_subprog s of Some r \<Rightarrow> r | None \<Rightarrow> s\<lparr>curframe := curframe s - 1\<rparr>)"

definition nested_exit :: "u32 \<Rightarrow> verifier_state \<Rightarrow> (mini_error, successors) res" where
  "nested_exit pc s =
     (case regs s ! 0 of
        PtrToStack mn mx al f \<Rightarrow> mfail pc Return_Stack_Pointer
      | _ \<Rightarrow> Ok [(ret_pc s, returned_state s)])"

definition final_exit :: "u32 \<Rightarrow> verifier_state \<Rightarrow> (mini_error, successors) res" where
  "final_exit pc s =
     (case read_reg pc s 0 of
        Err e \<Rightarrow> mfail pc Exit_Uninit
      | Ok (Scalar b) \<Rightarrow> if 0 < refs_cnt s then mfail pc (Unreleased (refs s ! 0)) else Ok []
      | Ok r \<Rightarrow> mfail pc Exit_Not_Scalar)"

definition mini_expand :: "u32 \<Rightarrow> bpf_insn \<Rightarrow> verifier_state \<Rightarrow> (mini_error, successors) res" where
  "mini_expand pc insn s =
     (if insn = Exit then (if 0 < curframe s then nested_exit pc s else final_exit pc s)
      else map_err Mini_Exec (exec_successors pc insn s))"

section \<open>Items of the interpreter\<close>

definition concrete_returned :: "concrete_state \<Rightarrow> concrete_state" where
  "concrete_returned c = (case concrete_return_from_subprog c of Some r \<Rightarrow> r | None \<Rightarrow> c\<lparr>ccurframe := ccurframe c - 1\<rparr>)"

definition concrete_nested_exit :: "u32 \<Rightarrow> concrete_state \<Rightarrow> (concrete_error, (u32 \<times> concrete_state) list) res" where
  "concrete_nested_exit pc c =
     (case cregs c ! 0 of
        Some (StackPtr a f) \<Rightarrow> cfail (PointerArithmetic pc 0)
      | _ \<Rightarrow> Ok [(cret_pc c, concrete_returned c)])"

definition concrete_final_exit :: "u32 \<Rightarrow> concrete_state \<Rightarrow> (concrete_error, (u32 \<times> concrete_state) list) res" where
  "concrete_final_exit pc c =
     (case read_concrete_reg pc c 0 of Err e \<Rightarrow> cfail (UninitializedRead pc 0) | Ok v \<Rightarrow> Ok [])"

definition run_expand ::
  "map_registry \<Rightarrow> u32 \<Rightarrow> bpf_insn \<Rightarrow> concrete_state \<Rightarrow> map_mem \<Rightarrow> concrete_successors_result" where
  "run_expand maps pc insn c mem =
     (if insn = Exit then
        no_mem mem (if 0 < ccurframe c then concrete_nested_exit pc c else concrete_final_exit pc c)
      else concrete_successors pc insn c maps mem)"

end
