(* ===== verification/Sim_Flow.thy ===== *)
theory Sim_Flow
  imports Sim_Branch Expand Step_Wf
begin

text \<open>
  The bit tests, the 32-bit comparisons, the calls and the returns of the simulation, and the theorem for
  one instruction: every successor of the interpreter is related to a successor of the verifier.
\<close>

section \<open>Tests\<close>

lemma jset_related:
  assumes sim: "sim L s c" and r: "read_scalar pc s dst = Ok d" "read_scalar pc s src = Ok b"
  shows "\<exists>q. concrete_jset pc dst src off c = Ok [q] \<and> matched L (branch_or_both pc off (jset_verdict d b) s) q"
proof -
  obtain x where x: "read_concrete_reg pc c dst = Ok (CV_Scalar x)" "in_bounds d x" by (rule sim_read_scalar [OF sim r(1)])
  obtain y where y: "read_concrete_reg pc c src = Ok (CV_Scalar y)" "in_bounds b y" by (rule sim_read_scalar [OF sim r(2)])
  have "jset_verdict d b = None \<or> jset_verdict d b = Some (x AND y \<noteq> 0)"
    using jset_verdict_mem [OF in_bounds_mem64 [OF x(2)] in_bounds_mem64 [OF y(2)]] by (cases "jset_verdict d b") auto
  from matched_or_both [OF sim this] show ?thesis
    using x(1) y(1) by (simp add: concrete_jset_def decided_def)
qed

lemma jset_cleared_val_rel:
  assumes "scalar_wf b" "in_bounds b x" "linked L b x" "x AND scast imm = 0"
  shows "val_rel L (Scalar (jset_cleared b imm)) (Some (CV_Scalar x))"
proof -
  have "x AND NOT (scast imm) = x"
    by (rule bit_word_eqI) (use assms(4) in \<open>auto simp: bit_eq_iff bit_simps\<close>)
  then have "x AND scast (NOT imm) = x" by (simp add: scast_not32)
  moreover have "val_rel L (Scalar (apply_alu Alu_And W64 b (scalar_constant (scast (NOT imm)))))
      (Some (CV_Scalar (alu_value Alu_And W64 x (scast (NOT imm)))))"
    using assms by (intro alu_val_rel) (simp_all add: wf_intros signed_ok_def)
  ultimately show ?thesis by (simp add: jset_cleared_def)
qed

lemma jset_imm_related:
  assumes sim: "sim L s c" and wf: "exec_wf s" and r: "jset_imm_branch pc dst imm off s = Ok succs"
  shows "\<exists>q. concrete_jset_imm pc dst imm off c = Ok [q] \<and> matched L succs q"
proof -
  obtain d where d: "read_scalar pc s dst = Ok d" using r by (auto simp: jset_imm_branch_def rbind_Ok_iff)
  obtain x where x: "read_concrete_reg pc c dst = Ok (CV_Scalar x)" "in_bounds d x" "linked L d x"
    by (rule sim_read_scalar [OF sim d])
  have wd: "scalar_wf d" using exec_wf_read [OF wf read_scalar_reg [OF d]] by simp
  let ?t = "x AND scast imm \<noteq> 0"
  have q: "concrete_jset_imm pc dst imm off c = Ok [(if ?t then branch_target pc off else pc + 1, c)]"
    using x(1) by (simp add: concrete_jset_imm_def decided_def)
  show ?thesis
  proof (cases "jset_verdict d (scalar_constant (scast imm))")
    case (Some v)
    then have "v = ?t"
      using jset_verdict_mem [OF in_bounds_mem64 [OF x(2)], of "scalar_constant (scast imm)" "scast imm" v]
      by (simp add: in_bounds_mem64)
    then have "Some v = None \<or> Some v = Some ?t" by simp
    from matched_or_both [OF sim this, of pc off] have "matched L succs (if ?t then branch_target pc off else pc + 1, c)"
      using r d Some by (auto simp: jset_imm_branch_def)
    then show ?thesis using q by blast
  next
    case None
    have "sim L (jset_not_taken dst imm s) c" if "\<not> ?t"
      using sim_set_same [OF sim x(1)] jset_cleared_val_rel [OF wd x(2,3)] that d
      by (simp add: jset_not_taken_def read_scalar_Ok_iff)
    then show ?thesis
      using q r d None sim by (auto simp: jset_imm_branch_def matched_def)
  qed
qed

lemma as_u32_ucast: "as_u32 x = ucast x"
  by (simp add: as_u32_def)

lemma ucast_scast32: "ucast (scast i :: u64) = i" for i :: u32
  by (rule bit_word_eqI) (auto simp: bit_simps)

lemma jmp32_related:
  assumes sim: "sim L s c" and r: "jmp32_branch pc dst src imm off op s = Ok succs"
  shows "\<exists>q. concrete_jmp32 pc dst src imm off op c = Ok [q] \<and> matched L succs q"
proof -
  obtain d b where d: "read_scalar pc s dst = Ok d" and succs: "succs = branch_or_both pc off (jmp32_verdict d b op) s"
    and b: "(case src of Some r \<Rightarrow> of_reg (read_scalar pc s r)
      | None \<Rightarrow> (case imm of Some v \<Rightarrow> Ok (scalar_constant (scast v)) | None \<Rightarrow> Err Exec_Panic)) = Ok b"
    using r by (auto simp: jmp32_branch_def rbind_Ok_iff)
  obtain x where x: "read_concrete_reg pc c dst = Ok (CV_Scalar x)" "in_bounds d x" by (rule sim_read_scalar [OF sim d])
  obtain y where y: "in_bounds b y" and q: "concrete_jmp32 pc dst src imm off op c =
      Ok [(if jmp32_cmp op (ucast x) (ucast y) then branch_target pc off else pc + 1, c)]"
  proof (cases src)
    case (Some q)
    then have "read_scalar pc s q = Ok b" using b by simp
    then obtain y where "read_concrete_reg pc c q = Ok (CV_Scalar y)" "in_bounds b y" by (rule sim_read_scalar [OF sim])
    then show thesis using that [of y] x(1) Some by (simp add: concrete_jmp32_def decided_def)
  next
    case None
    then obtain i where i: "imm = Some i" "b = scalar_constant (scast i)" using b by (auto split: option.split_asm)
    then show thesis using that [of "scast i"] x(1) None by (simp add: concrete_jmp32_def decided_def ucast_scast32)
  qed
  have "jmp32_verdict d b op = None \<or> jmp32_verdict d b op = Some (jmp32_cmp op (ucast x) (ucast y))"
    using jmp32_verdict_mem [OF in_bounds_mem64 [OF x(2)] in_bounds_mem64 [OF y]]
    by (cases "jmp32_verdict d b op") (auto simp: as_u32_ucast)
  from matched_or_both [OF sim this] show ?thesis using q succs by simp
qed

section \<open>Calls\<close>

lemma sim_clobber: "sim L s c \<Longrightarrow> sim L (clobber_scratch s) (clobber_cregs c)"
  by (simp add: sim_def clobber_scratch_def clobber_cregs_def saved_rel_def regs_rel_update)

lemma helper_related:
  assumes sim: "sim L s c" and h: "plain_helper h" and r: "helper_call pc s h = Ok s'"
  shows "\<exists>succs. concrete_call pc h c = Ok succs \<and> (\<forall>q \<in> set succs. fst q = pc + 1 \<and> sim L s' (snd q))"
proof -
  have proto: "helper_prototype h = Some \<lparr>hargs = [], hreturn = unknown_scalar\<rparr>"
    "h \<noteq> 1" "h \<noteq> 2" "h \<noteq> 131" "\<not> helper_acquires_ref h" "\<not> helper_releases_ref h" "h \<notin> {197, 201, 202, 203}"
    using h by (auto simp: plain_helper_def helper_prototype_def helper_acquires_ref_def helper_releases_ref_def)
  have s': "s' = clobber_scratch (set_r0 unknown_scalar s)"
    using r proto by (simp add: helper_call_def helper_effect_def check_helper_args_def check_call_args_def)
  have "clobber_scratch (set_r0 v s) = set_reg (clobber_scratch s) 0 v" for v
    by (simp add: clobber_scratch_def set_r0_def set_reg_def list_update_swap)
  then have "sim L s' (set_creg (clobber_cregs c) 0 (CV_Scalar x))" for x
    unfolding s' using sim_set [OF sim_clobber [OF sim]] by simp
  then show ?thesis
    using proto(1) by (auto simp: concrete_call_def check_concrete_helper_args_def helper_return_seeds_def)
qed

lemma callee_regs_eq:
  "callee_regs rs f = (replicate NUM_REGS Uninit)
     [1 := rs ! 1, 2 := rs ! 2, 3 := rs ! 3, 4 := rs ! 4, 5 := rs ! 5, 10 := PtrToStack 0 0 0 f]"
  by (simp add: callee_regs_def frame_new_def initial_reg_state_def set_frameno_def eval_nat_numeral)

lemma callee_related:
  assumes sim: "sim L s c" and wf: "exec_wf s" and r: "call_subprog rp s = Ok s'"
  shows "\<exists>c'. concrete_call_subprog rp c = Ok c' \<and> sim L s' c'"
proof -
  let ?d = "unat (curframe s)"
  have d: "?d < MAX_CALL_FRAMES - 1" and s': "s' = s\<lparr>saved := (saved s)[?d :=
             Some \<lparr>fr_regs = regs s, fr_stack = stack s, fr_ret_pc = ret_pc s\<rparr>],
          curframe := curframe s + 1, regs := callee_regs (regs s) (curframe s + 1),
          stack := stack_new, ret_pc := rp\<rparr>"
    using r by (simp_all add: call_subprog_Ok_iff)
  have lens: "length (saved s) = MAX_CALL_FRAMES - 1" "length (csaved c) = MAX_CALL_FRAMES - 1" "curframe s = ccurframe c"
    using sim wf by (simp_all add: sim_def saved_rel_def exec_wf_def saved_ok_def)
  have succ: "unat (curframe s + 1) = ?d + 1" using d unat_succ8 [of "curframe s"] by simp
  have regs: "val_rel L (regs s ! i) (cregs c ! i)" if "i < NUM_REGS" for i
    using sim that by (simp add: sim_def regs_rel_def)
  have "regs_rel L (replicate NUM_REGS Uninit) (replicate NUM_REGS None)" by (simp add: regs_rel_def)
  then have "regs_rel L (callee_regs (regs s) (curframe s + 1)) ((replicate NUM_REGS None)
      [1 := cregs c ! 1, 2 := cregs c ! 2, 3 := cregs c ! 3, 4 := cregs c ! 4, 5 := cregs c ! 5,
       10 := Some (StackPtr STACK_BASE (curframe s + 1))])"
    unfolding callee_regs_eq by (intro regs_rel_update) (simp_all add: regs pointer_in_def)
  moreover have "\<exists>fr cf. saved s' ! k = Some fr \<and>
      (csaved c)[?d := Some \<lparr>cf_regs = cregs c, cf_stack = cstack c, cf_ret_pc = cret_pc c\<rparr>] ! k = Some cf \<and> frame_rel L fr cf"
    if k: "k < ?d + 1" for k
  proof (cases "k = ?d")
    case True
    then show ?thesis using sim d lens by (simp add: s' sim_def frame_rel_def)
  next
    case False
    then show ?thesis using sim k lens by (simp add: s' sim_def saved_rel_def)
  qed
  ultimately show ?thesis
    using sim d lens succ stack_rel_new [of L]
    by (simp add: concrete_call_subprog_def Let_def sim_def s' saved_rel_def)
qed

lemma return_related:
  assumes sim: "sim L s c" and wf: "exec_wf s" and r: "return_from_subprog s = Some s'"
  shows "\<exists>c'. concrete_return_from_subprog c = Some c' \<and> sim L s' c'"
proof -
  let ?d = "unat (curframe s) - 1"
  obtain caller where caller: "curframe s \<noteq> 0" "saved s ! ?d = Some caller"
    and s': "s' = s\<lparr>curframe := curframe s - 1, saved := (saved s)[?d := None],
            ret_pc := fr_ret_pc caller, regs := clobber_args (fr_regs caller) (regs s ! 0),
            stack := fr_stack caller\<rparr>"
    using r by (auto simp: return_from_subprog_Some_iff)
  have pos: "0 < unat (curframe s)" and pred: "unat (curframe s - 1) = ?d"
    using caller(1) by (simp_all add: unat_gt_0 unat_pred8)
  have cur: "ccurframe c = curframe s" using sim by (simp add: sim_def)
  obtain cf where cf: "csaved c ! ?d = Some cf" "frame_rel L caller cf"
    using sim caller(2) pos unfolding sim_def saved_rel_def by (auto dest: spec [of _ ?d])
  have "val_rel L (regs s ! 0) (cregs c ! 0)" using sim by (simp add: sim_def regs_rel_def)
  then have regs: "regs_rel L (clobber_args (fr_regs caller) (regs s ! 0))
      ((cf_regs cf)[0 := cregs c ! 0, 1 := None, 2 := None, 3 := None, 4 := None, 5 := None])"
    unfolding clobber_args_def using cf(2) by (intro regs_rel_update) (simp_all add: frame_rel_def)
  have "\<exists>fr g. saved s' ! k = Some fr \<and> (csaved c)[?d := None] ! k = Some g \<and> frame_rel L fr g" if "k < ?d" for k
    using sim that by (simp add: s' sim_def saved_rel_def)
  then show ?thesis
    using sim cf regs caller(1) cur pred
    by (simp add: concrete_return_from_subprog_def Let_def sim_def s' saved_rel_def frame_rel_def)
qed

section \<open>One item of the worklists\<close>

text \<open>
  The fragment: straight-line instructions under \<open>straight_sound\<close>; comparisons of registers where the refinement
  is sound (\<open>refine_ok\<close>: the interval of a \<open>>=\<close> source is one value); calls of helpers without arguments; calls
  of subprograms whose offset fits the branch offset the verifier uses.
\<close>

definition insn_sound :: "u32 \<Rightarrow> verifier_state \<Rightarrow> bpf_insn \<Rightarrow> bool" where
  "insn_sound pc s insn =
     (case insn of
        CondReg op dst src off \<Rightarrow>
          (case (regs s ! unat dst, regs s ! unat src) of
             (Scalar d, Scalar b) \<Rightarrow> dst = src \<or> refine_ok op b
           | _ \<Rightarrow> True)
      | CondImm op dst imm off \<Rightarrow> True
      | Jset dst src off \<Rightarrow> True
      | JsetImm dst imm off \<Rightarrow> True
      | Jmp32 dst src imm off op \<Rightarrow> True
      | Jmp off \<Rightarrow> True
      | Exit \<Rightarrow> True
      | Call h \<Rightarrow> plain_helper h
      | CallSub off \<Rightarrow> scast (ucast off :: i16) = off
      | _ \<Rightarrow> straight_sound pc s insn)"

definition all_matched :: "successors \<Rightarrow> (u32 \<times> concrete_state) list \<Rightarrow> bool" where
  "all_matched succs qs \<longleftrightarrow> (\<forall>(pc', c') \<in> set qs. \<exists>s' L. (pc', s') \<in> set succs \<and> sim L s' c')"

lemma all_matched_one: "matched L succs q \<Longrightarrow> all_matched succs [q]"
  by (cases q) (auto simp: matched_def all_matched_def)

lemma exec_wf_returns:
  assumes "exec_wf s" "0 < curframe s"
  shows "\<exists>t. return_from_subprog s = Some t"
proof -
  have "0 < unat (curframe s)" using assms(2) by (simp add: unat_gt_0 word_neq_0_conv)
  then obtain f where "saved s ! (unat (curframe s) - 1) = Some f"
    using saved_ok_frame [of s "unat (curframe s) - 1"] assms(1) unfolding exec_wf_def saved_ok_def by fastforce
  then show ?thesis using assms(2) by (simp add: return_from_subprog_Some_iff word_neq_0_conv)
qed

lemma exit_related:
  assumes sim: "sim L s c" and wf: "exec_wf s" and r: "mini_expand pc Exit s = Ok succs"
  shows "\<exists>qs. run_expand maps pc Exit c mem = Ok (qs, mem) \<and> all_matched succs qs"
proof (cases "0 < curframe s")
  case True
  have cur: "ccurframe c = curframe s" "cret_pc c = ret_pc s" using sim by (simp_all add: sim_def)
  have v: "val_rel L (regs s ! 0) (cregs c ! 0)" using sim by (simp add: sim_def regs_rel_def)
  have n: "succs = [(ret_pc s, returned_state s)]" "\<nexists>mn mx al f. regs s ! 0 = PtrToStack mn mx al f"
    using r True by (auto simp: mini_expand_def nested_exit_def split: reg_state.split_asm)
  have "\<nexists>a f. cregs c ! 0 = Some (StackPtr a f)"
    using v n(2) by (cases "regs s ! 0") (auto simp: val_rel_Scalar val_rel_Ctx)
  then have "run_expand maps pc Exit c mem = Ok ([(ret_pc s, concrete_returned c)], mem)"
    using True cur by (auto simp: run_expand_def no_mem_def concrete_nested_exit_def split: option.split concrete_value.split)
  moreover obtain t where t: "return_from_subprog s = Some t"
    using exec_wf_returns [OF wf] True by auto
  obtain c' where c': "concrete_return_from_subprog c = Some c'" "sim L t c'"
    using return_related [OF sim wf t] by blast
  ultimately show ?thesis
    using n(1) t c' by (auto simp: all_matched_def returned_state_def concrete_returned_def)
next
  case False
  have "ccurframe c = curframe s" using sim by (simp add: sim_def)
  moreover obtain v where v: "read_reg pc s 0 = Ok v" "succs = []"
    using r False by (auto simp: mini_expand_def final_exit_def split: sum.split_asm reg_state.split_asm if_split_asm)
  moreover obtain w where "read_concrete_reg pc c 0 = Ok w" by (rule sim_read [OF sim v(1)])
  ultimately show ?thesis
    using False by (simp add: run_expand_def no_mem_def concrete_final_exit_def all_matched_def)
qed

lemma expand_related:
  assumes sim: "sim L s c" and wf: "exec_wf s" and ok: "insn_sound pc s insn" and r: "mini_expand pc insn s = Ok succs"
  shows "\<exists>qs. run_expand maps pc insn c mem = Ok (qs, mem) \<and> all_matched succs qs"
proof (cases "insn = Exit")
  case True
  then show ?thesis using exit_related [OF sim wf] r by simp
next
  case False
  then have r: "exec_successors pc insn s = Ok succs" and run: "run_expand maps pc insn c mem = concrete_successors pc insn c maps mem"
    using r by (auto simp: mini_expand_def run_expand_def map_err_def split: sum.split_asm)
  consider (straight) "straight_sound pc s insn" | (reg) op dst src off where "insn = CondReg op dst src off"
    | (imm) op dst imm off where "insn = CondImm op dst imm off" | (jset) dst src off where "insn = Jset dst src off"
    | (jseti) dst imm off where "insn = JsetImm dst imm off" | (j32) dst src imm off op where "insn = Jmp32 dst src imm off op"
    | (jmp) off where "insn = Jmp off" | (call) h where "insn = Call h" "plain_helper h"
    | (sub) off where "insn = CallSub off" "scast (ucast off :: i16) = off"
    using ok False by (cases insn) (auto simp: insn_sound_def)
  then show ?thesis
  proof cases
    case straight
    from straight_successors [OF sim wf this r, of maps mem] show ?thesis
      using run by (auto simp: all_matched_def)
  next
    case reg
    have ok: "\<forall>d b. regs s ! unat dst = Scalar d \<and> regs s ! unat src = Scalar b \<and> dst \<noteq> src \<longrightarrow> refine_ok op b"
      using ok reg by (auto simp: insn_sound_def)
    have "cond_branch pc dst src off op s = Ok succs" using r reg by (simp add: exec_successors_def)
    from cond_reg_related [OF sim wf ok this] show ?thesis
      using run reg all_matched_one by (auto simp: concrete_successors_def no_mem_def)
  next
    case imm
    then have "cond_branch_imm pc dst imm off op s = Ok succs" using r by (simp add: exec_successors_def)
    from cond_imm_related [OF sim wf this] show ?thesis
      using run imm all_matched_one by (auto simp: concrete_successors_def no_mem_def)
  next
    case jset
    then obtain d b where db: "read_scalar pc s dst = Ok d" "read_scalar pc s src = Ok b" "succs = branch_or_both pc off (jset_verdict d b) s"
      using r by (auto simp: exec_successors_def rbind_Ok_iff)
    from jset_related [OF sim db(1,2), of off] show ?thesis
      using run jset db(3) all_matched_one by (auto simp: concrete_successors_def no_mem_def)
  next
    case jseti
    then have "jset_imm_branch pc dst imm off s = Ok succs" using r by (simp add: exec_successors_def)
    from jset_imm_related [OF sim wf this] show ?thesis
      using run jseti all_matched_one by (auto simp: concrete_successors_def no_mem_def)
  next
    case j32
    then have "jmp32_branch pc dst src imm off op s = Ok succs" using r by (simp add: exec_successors_def)
    from jmp32_related [OF sim this] show ?thesis
      using run j32 all_matched_one by (auto simp: concrete_successors_def no_mem_def)
  next
    case jmp
    then show ?thesis using r run sim by (auto simp: exec_successors_def concrete_successors_def all_matched_def)
  next
    case call
    obtain s' where s': "helper_call pc s h = Ok s'" "succs = [(pc + 1, s')]"
      using r call by (auto simp: exec_successors_def step_def rbind_Ok_iff)
    obtain qs where "concrete_call pc h c = Ok qs" "\<forall>q \<in> set qs. fst q = pc + 1 \<and> sim L s' (snd q)"
      using helper_related [OF sim call(2) s'(1)] by blast
    moreover have "h \<noteq> 1" "h \<noteq> 2" using call(2) by (auto simp: plain_helper_def)
    ultimately show ?thesis
      using run call s'(2) by (fastforce simp: concrete_successors_def no_mem_def all_matched_def)
  next
    case sub
    obtain s' where s': "call_subprog (pc + 1) s = Ok s'" "succs = [(branch_target pc (ucast off), s')]"
      using r sub by (auto simp: exec_successors_def split: sum.split_asm)
    obtain c' where "concrete_call_subprog (pc + 1) c = Ok c'" "sim L s' c'"
      using callee_related [OF sim wf s'(1)] by blast
    then show ?thesis
      using run sub s'(2) by (auto simp: concrete_successors_def no_mem_def all_matched_def branch_target_def)
  qed
qed

lemma returned_wf:
  assumes "exec_wf s" "mini_expand pc Exit s = Ok succs" "(pc', s') \<in> set succs"
  shows "exec_wf s'"
proof -
  have n: "s' = returned_state s" "\<nexists>mn mx al f. regs s ! 0 = PtrToStack mn mx al f" "0 < curframe s"
    using assms(2,3) by (auto simp: mini_expand_def nested_exit_def final_exit_def
        split: sum.split_asm reg_state.split_asm if_split_asm)
  obtain t where "return_from_subprog s = Some t" using exec_wf_returns [OF assms(1) n(3)] by blast
  moreover have "reg_ok (unat (curframe s)) (regs s ! 0)"
    using assms(1) regs_ok_nth [of _ "regs s" 0] by (simp add: exec_wf_def)
  then have "reg_ok (unat (curframe s) - 1) (regs s ! 0)"
    using n(2) by (cases "regs s ! 0") auto
  ultimately show ?thesis using n(1) return_from_subprog_wf [OF assms(1)] by (simp add: returned_state_def)
qed

lemma mini_expand_wf:
  assumes "exec_wf s" "mini_expand pc insn s = Ok succs" "(pc', s') \<in> set succs"
  shows "exec_wf s'"
proof (cases "insn = Exit")
  case True
  then show ?thesis using returned_wf assms by blast
next
  case False
  then have "exec_successors pc insn s = Ok succs"
    using assms(2) by (auto simp: mini_expand_def map_err_def split: sum.split_asm)
  then show ?thesis using exec_successors_keep assms(1,3) by blast
qed

lemma expand_covers:
  assumes "covers s c" "insn_sound pc s insn" "mini_expand pc insn s = Ok succs"
  shows "\<exists>qs. run_expand maps pc insn c mem = Ok (qs, mem) \<and>
    (\<forall>(pc', c') \<in> set qs. \<exists>s'. (pc', s') \<in> set succs \<and> covers s' c')"
proof -
  obtain L where L: "exec_wf s" "sim L s c" using assms(1) by (auto simp: covers_def)
  obtain qs where qs: "run_expand maps pc insn c mem = Ok (qs, mem)" "all_matched succs qs"
    using expand_related [OF L(2,1) assms(2,3)] by blast
  then show ?thesis
    using mini_expand_wf [OF L(1) assms(3)] by (fastforce simp: all_matched_def covers_def)
qed

end
