(* ===== verification/Liveness.thy ===== *)
theory Liveness
  imports Cfg "HOL-Library.While_Combinator"
begin

text \<open>
  The static liveness analysis of \<open>src/src/liveness.rs\<close>: the registers and stack slots each instruction
  reads and writes (\<open>use_def\<close>), the static successors, and the fixed point of the dataflow equations
  (\<open>live_analyze\<close>, \<open>analyze\<close> of the sources). The loop of the sources ends, and the masks it returns are exactly
  what the equations describe: a register is live before an instruction when some static path reads it before
  writing it.
\<close>

section \<open>Uses and definitions\<close>

record insn_use_def =
  use_regs :: u16
  def_regs :: u16
  read_slots :: u64
  write_slots :: u64

definition NO_USE_DEF :: insn_use_def where
  "NO_USE_DEF = \<lparr>use_regs = 0, def_regs = 0, read_slots = 0, write_slots = 0\<rparr>"

text \<open>The shift amount of the release build is taken modulo the width.\<close>

definition reg_bit :: "u8 \<Rightarrow> u16" where
  "reg_bit r = push_bit (unat r mod 16) 1"

definition fixed_slot :: "i16 \<Rightarrow> nat option" where
  "fixed_slot off =
     (if 0 \<le> sint off \<or> sint off < - int STACK_SIZE \<or> sint off mod 8 \<noteq> 0 then None
      else Some ((nat (- sint off) - 1) div 8))"

definition all_slots :: u64 where
  "all_slots = drop_bit (64 - STACK_SLOTS) (- 1)"

definition slot_bit :: "nat \<Rightarrow> u64" where
  "slot_bit s = push_bit s 1"

definition read_slots_for :: "u8 \<Rightarrow> i16 \<Rightarrow> u64" where
  "read_slots_for base off =
     (if base = 10 then (case fixed_slot off of Some s \<Rightarrow> slot_bit s | None \<Rightarrow> all_slots) else all_slots)"

definition write_slots_for :: "u8 \<Rightarrow> i16 \<Rightarrow> mem_size \<Rightarrow> u64" where
  "write_slots_for base off sz =
     (if base = 10 \<and> mem_bytes sz = 8 then (case fixed_slot off of Some s \<Rightarrow> slot_bit s | None \<Rightarrow> 0) else 0)"

definition call_use_def :: insn_use_def where
  "call_use_def = NO_USE_DEF\<lparr>
     use_regs := reg_bit 1 OR reg_bit 2 OR reg_bit 3 OR reg_bit 4 OR reg_bit 5,
     def_regs := reg_bit 0 OR reg_bit 1 OR reg_bit 2 OR reg_bit 3 OR reg_bit 4 OR reg_bit 5\<rparr>"

definition unary_use_def :: "u8 \<Rightarrow> insn_use_def" where
  "unary_use_def dst = NO_USE_DEF\<lparr>use_regs := reg_bit dst, def_regs := reg_bit dst\<rparr>"

definition binary_use_def :: "u8 \<Rightarrow> u8 \<Rightarrow> insn_use_def" where
  "binary_use_def dst src = NO_USE_DEF\<lparr>use_regs := reg_bit dst OR reg_bit src, def_regs := reg_bit dst\<rparr>"

fun use_def :: "bpf_insn \<Rightarrow> insn_use_def" where
  "use_def (MovImm dst imm) = NO_USE_DEF\<lparr>def_regs := reg_bit dst\<rparr>"
| "use_def (Mov32Imm dst imm) = NO_USE_DEF\<lparr>def_regs := reg_bit dst\<rparr>"
| "use_def (MovReg dst src) = NO_USE_DEF\<lparr>use_regs := reg_bit src, def_regs := reg_bit dst\<rparr>"
| "use_def (Mov32Reg dst src) = NO_USE_DEF\<lparr>use_regs := reg_bit src, def_regs := reg_bit dst\<rparr>"
| "use_def (LdAbs sz imm) = NO_USE_DEF\<lparr>def_regs := reg_bit 0\<rparr>"
| "use_def (LdInd src sz imm) = NO_USE_DEF\<lparr>use_regs := reg_bit src, def_regs := reg_bit 0\<rparr>"
| "use_def (AluImm op w dst imm) = unary_use_def dst"
| "use_def (MulImm dst imm high) = unary_use_def dst"
| "use_def (Mul32Imm dst imm) = unary_use_def dst"
| "use_def (NegInsn w dst) = unary_use_def dst"
| "use_def (AluReg op w dst src) = binary_use_def dst src"
| "use_def (MulReg dst src high) = binary_use_def dst src"
| "use_def (Mul32Reg dst src) = binary_use_def dst src"
| "use_def (LdMem dst base off sz se) =
     NO_USE_DEF\<lparr>use_regs := reg_bit base, def_regs := reg_bit dst, read_slots := read_slots_for base off\<rparr>"
| "use_def (StMem src base off sz) =
     NO_USE_DEF\<lparr>use_regs := reg_bit src OR reg_bit base, write_slots := write_slots_for base off sz\<rparr>"
| "use_def (StMemImm imm base off sz) =
     NO_USE_DEF\<lparr>use_regs := reg_bit base, write_slots := write_slots_for base off sz\<rparr>"
| "use_def (LdImm64 dst imm) = NO_USE_DEF\<lparr>def_regs := reg_bit dst\<rparr>"
| "use_def (LdMapFd dst fd ks vs mt) = NO_USE_DEF\<lparr>def_regs := reg_bit dst\<rparr>"
| "use_def (LdMapValue dst fd off ks vs) = NO_USE_DEF\<lparr>def_regs := reg_bit dst\<rparr>"
| "use_def (LdImm64Second imm) = NO_USE_DEF"
| "use_def (Call h) = call_use_def"
| "use_def (CallSub off) = call_use_def"
| "use_def (CallKfunc btf) = call_use_def"
| "use_def (Atomic dst src off sz op fetch) =
     NO_USE_DEF\<lparr>use_regs := reg_bit dst OR reg_bit src, write_slots := write_slots_for dst off sz,
       def_regs := (if op = Atomic_Cmpxchg then reg_bit 0 else if fetch then reg_bit src else 0)\<rparr>"
| "use_def (Jmp32 dst src imm off op) =
     NO_USE_DEF\<lparr>use_regs := reg_bit dst OR (case src of Some r \<Rightarrow> reg_bit r | None \<Rightarrow> 0)\<rparr>"
| "use_def Exit = NO_USE_DEF\<lparr>use_regs := reg_bit 0\<rparr>"
| "use_def (Jmp off) = NO_USE_DEF"
| "use_def (Jset dst src off) = NO_USE_DEF\<lparr>use_regs := reg_bit dst OR reg_bit src\<rparr>"
| "use_def (CondReg op dst src off) = NO_USE_DEF\<lparr>use_regs := reg_bit dst OR reg_bit src\<rparr>"
| "use_def (JsetImm dst imm off) = NO_USE_DEF\<lparr>use_regs := reg_bit dst\<rparr>"
| "use_def (CondImm op dst imm off) = NO_USE_DEF\<lparr>use_regs := reg_bit dst\<rparr>"

section \<open>Static successors\<close>

text \<open>The subprogram entry containing an instruction; none for the main program.\<close>

definition subprog_entry_at :: "nat \<Rightarrow> bpf_insn list \<Rightarrow> u32 option" where
  "subprog_entry_at i prog =
     (let starts = foldl (\<lambda>ss (pc, insn). case insn of
                      CallSub off \<Rightarrow>
                        (let t = call_target (of_nat pc) off in
                         if unat t \<le> i \<and> t \<notin> set ss then ss @ [t] else ss)
                    | _ \<Rightarrow> ss) [0] (enumerate 0 prog);
          s = last (sort (filter (\<lambda>s. unat s \<le> i) starts))
      in if s \<noteq> 0 then Some s else None)"

definition in_program :: "nat \<Rightarrow> int \<Rightarrow> nat list" where
  "in_program n t = (if 0 \<le> t \<and> t < int n then [nat t] else [])"

definition next_insn :: "nat \<Rightarrow> nat \<Rightarrow> nat list" where
  "next_insn n i = (if Suc i < n then [Suc i] else [])"

fun cond_offset :: "bpf_insn \<Rightarrow> i16 option" where
  "cond_offset (CondReg op dst src off) = Some off"
| "cond_offset (CondImm op dst imm off) = Some off"
| "cond_offset (Jset dst src off) = Some off"
| "cond_offset (JsetImm dst imm off) = Some off"
| "cond_offset (Jmp32 dst src imm off op) = Some off"
| "cond_offset _ = None"

text \<open>The instructions after the calls of the subprogram at \<open>start\<close>.\<close>

definition return_sites :: "u32 \<Rightarrow> bpf_insn list \<Rightarrow> nat list" where
  "return_sites start prog =
     concat (map (\<lambda>(pc, insn). case insn of
         CallSub off \<Rightarrow> if call_target (of_nat pc) off = start then [Suc pc] else []
       | _ \<Rightarrow> []) (enumerate 0 prog))"

definition static_successors :: "nat \<Rightarrow> bpf_insn list \<Rightarrow> nat list" where
  "static_successors i prog =
     (let n = length prog in
      if n \<le> i then []
      else case prog ! i of
        Exit \<Rightarrow>
          (if i \<noteq> 0 then (case subprog_entry_at i prog of Some start \<Rightarrow> return_sites start prog | None \<Rightarrow> []) else [])
      | CallSub off \<Rightarrow> in_program n (int i + 1 + sint off)
      | Jmp off \<Rightarrow> in_program n (int i + 1 + sint off)
      | insn \<Rightarrow>
          (case cond_offset insn of
             Some off \<Rightarrow> next_insn n i @ in_program n (int i + 1 + sint off)
           | None \<Rightarrow> next_insn n i))"

section \<open>The fixed point\<close>

record live_state =
  in_regs :: "u16 list"
  out_regs :: "u16 list"
  in_slots :: "u64 list"
  out_slots :: "u64 list"
  live_changed :: bool

record liveness =
  live_regs_of :: "u16 list"
  live_stack_of :: "u64 list"

definition live_initial :: "bpf_insn list \<Rightarrow> live_state" where
  "live_initial prog =
     (let n = length prog in
      \<lparr>in_regs = replicate n 0, out_regs = replicate n 0, in_slots = replicate n 0, out_slots = replicate n 0,
       live_changed = True\<rparr>)"

definition join_regs :: "bpf_insn list \<Rightarrow> nat \<Rightarrow> live_state \<Rightarrow> u16" where
  "join_regs prog i st = foldl (\<lambda>a s. a OR in_regs st ! s) 0 (static_successors i prog)"

definition join_slots :: "bpf_insn list \<Rightarrow> nat \<Rightarrow> live_state \<Rightarrow> u64" where
  "join_slots prog i st = foldl (\<lambda>a s. a OR in_slots st ! s) 0 (static_successors i prog)"

definition new_in_regs :: "bpf_insn list \<Rightarrow> nat \<Rightarrow> live_state \<Rightarrow> u16" where
  "new_in_regs prog i st = (join_regs prog i st AND NOT (def_regs (use_def (prog ! i)))) OR use_regs (use_def (prog ! i))"

definition new_in_slots :: "bpf_insn list \<Rightarrow> nat \<Rightarrow> live_state \<Rightarrow> u64" where
  "new_in_slots prog i st =
     (join_slots prog i st AND NOT (write_slots (use_def (prog ! i)))) OR read_slots (use_def (prog ! i))"

definition live_visit :: "bpf_insn list \<Rightarrow> nat \<Rightarrow> live_state \<Rightarrow> live_state" where
  "live_visit prog i st =
     (let r = new_in_regs prog i st; s = new_in_slots prog i st; jr = join_regs prog i st; js = join_slots prog i st;
          st1 = (if r \<noteq> in_regs st ! i then st\<lparr>in_regs := (in_regs st)[i := r], live_changed := True\<rparr> else st);
          st2 = (if s \<noteq> in_slots st1 ! i then st1\<lparr>in_slots := (in_slots st1)[i := s], live_changed := True\<rparr> else st1)
      in if jr \<noteq> out_regs st2 ! i \<or> js \<noteq> out_slots st2 ! i
         then st2\<lparr>out_regs := (out_regs st2)[i := jr], out_slots := (out_slots st2)[i := js], live_changed := True\<rparr>
         else st2)"

definition live_sweep :: "bpf_insn list \<Rightarrow> live_state \<Rightarrow> live_state" where
  "live_sweep prog st = fold (live_visit prog) [0..<length prog] (st\<lparr>live_changed := False\<rparr>)"

text \<open>
  A static successor outside the program is an index out of range of the first sweep, a panic: \<open>None\<close>.
\<close>

definition static_inside :: "bpf_insn list \<Rightarrow> bool" where
  "static_inside prog \<longleftrightarrow> list_all (\<lambda>i. list_all (\<lambda>s. s < length prog) (static_successors i prog)) [0..<length prog]"

definition live_analyze :: "bpf_insn list \<Rightarrow> liveness option" where
  "live_analyze prog =
     (if static_inside prog then
        let st = while live_changed (live_sweep prog) (live_initial prog)
        in Some \<lparr>live_regs_of = in_regs st, live_stack_of = in_slots st\<rparr>
      else None)"

definition live_regs_before :: "liveness \<Rightarrow> u32 \<Rightarrow> u16" where
  "live_regs_before lv pc = (if unat pc < length (live_regs_of lv) then live_regs_of lv ! unat pc else 0)"

definition live_stack_before :: "liveness \<Rightarrow> u32 \<Rightarrow> u64" where
  "live_stack_before lv pc = (if unat pc < length (live_stack_of lv) then live_stack_of lv ! unat pc else 0)"

section \<open>One visit\<close>

lemma bit_foldl_or: "bit (foldl (\<lambda>a s. a OR f s) a xs) k \<longleftrightarrow> bit a k \<or> (\<exists>s \<in> set xs. bit (f s) k)"
  for a :: "'a::len word"
  by (induction xs arbitrary: a) (auto simp: bit_or_iff)

lemma bit_join_regs: "bit (join_regs prog i st) k \<longleftrightarrow> (\<exists>s \<in> set (static_successors i prog). bit (in_regs st ! s) k)"
  by (simp add: join_regs_def bit_foldl_or)

lemma bit_join_slots: "bit (join_slots prog i st) k \<longleftrightarrow> (\<exists>s \<in> set (static_successors i prog). bit (in_slots st ! s) k)"
  by (simp add: join_slots_def bit_foldl_or)

lemma and_not_bit: "bit (a AND NOT b) k \<longleftrightarrow> bit a k \<and> \<not> bit b k" for a b :: "'a::len word"
  using bit_imp_le_length [of a k] by (auto simp: bit_and_iff bit_not_iff)

lemma bit_new_in_regs:
  "bit (new_in_regs prog i st) k \<longleftrightarrow>
     bit (use_regs (use_def (prog ! i))) k \<or>
     \<not> bit (def_regs (use_def (prog ! i))) k \<and> (\<exists>s \<in> set (static_successors i prog). bit (in_regs st ! s) k)"
  by (auto simp: new_in_regs_def bit_or_iff and_not_bit bit_join_regs)

lemma bit_new_in_slots:
  "bit (new_in_slots prog i st) k \<longleftrightarrow>
     bit (read_slots (use_def (prog ! i))) k \<or>
     \<not> bit (write_slots (use_def (prog ! i))) k \<and> (\<exists>s \<in> set (static_successors i prog). bit (in_slots st ! s) k)"
  by (auto simp: new_in_slots_def bit_or_iff and_not_bit bit_join_slots)

text \<open>Each of the four masks of an instruction, by a number, and its new value.\<close>

definition live_word :: "nat \<Rightarrow> live_state \<Rightarrow> nat \<Rightarrow> u64" where
  "live_word m st i =
     (if m = 0 then ucast (in_regs st ! i) else if m = 1 then in_slots st ! i
      else if m = 2 then ucast (out_regs st ! i) else out_slots st ! i)"

definition live_new :: "bpf_insn list \<Rightarrow> nat \<Rightarrow> live_state \<Rightarrow> nat \<Rightarrow> u64" where
  "live_new prog m st i =
     (if m = 0 then ucast (new_in_regs prog i st) else if m = 1 then new_in_slots prog i st
      else if m = 2 then ucast (join_regs prog i st) else join_slots prog i st)"

definition live_sized :: "bpf_insn list \<Rightarrow> live_state \<Rightarrow> bool" where
  "live_sized prog st \<longleftrightarrow> length (in_regs st) = length prog \<and> length (in_slots st) = length prog \<and>
     length (out_regs st) = length prog \<and> length (out_slots st) = length prog"

lemma ucast16_eq_iff: "ucast a = (ucast b :: u64) \<longleftrightarrow> a = b" for a b :: u16
proof
  assume eq: "ucast a = (ucast b :: u64)"
  have "bit a k = bit b k" if "k < 16" for k
    using arg_cong [OF eq, of "\<lambda>w. bit w k"] that by (simp add: bit_ucast_iff)
  then show "a = b" by (intro bit_word_eqI) simp
qed simp

lemma live_visit_eq:
  assumes "live_sized prog st" "i < length prog"
  shows "live_visit prog i st =
    st\<lparr>in_regs := (in_regs st)[i := new_in_regs prog i st], in_slots := (in_slots st)[i := new_in_slots prog i st],
       out_regs := (out_regs st)[i := join_regs prog i st], out_slots := (out_slots st)[i := join_slots prog i st],
       live_changed := (live_changed st \<or> (\<exists>m<4. live_word m st i \<noteq> live_new prog m st i))\<rparr>"
proof -
  note u = ucast16_eq_iff
  have "(\<exists>m<4. live_word m st i \<noteq> live_new prog m st i) \<longleftrightarrow>
      in_regs st ! i \<noteq> new_in_regs prog i st \<or> in_slots st ! i \<noteq> new_in_slots prog i st \<or>
      out_regs st ! i \<noteq> join_regs prog i st \<or> out_slots st ! i \<noteq> join_slots prog i st"
    by (simp add: live_word_def live_new_def u less_Suc_eq numeral_eq_Suc ex_disj_distrib conj_disj_distribR)
  then show ?thesis
    using assms by (auto simp: live_visit_def Let_def live_sized_def list_update_same_conv)
qed

section \<open>Growth\<close>

definition bits_le :: "u64 \<Rightarrow> u64 \<Rightarrow> bool" where
  "bits_le a b \<longleftrightarrow> (\<forall>k. bit a k \<longrightarrow> bit b k)"

definition use_mask :: "nat \<Rightarrow> bpf_insn \<Rightarrow> u64" where
  "use_mask m insn = (if m = 0 then ucast (use_regs (use_def insn)) else read_slots (use_def insn))"

definition def_mask :: "nat \<Rightarrow> bpf_insn \<Rightarrow> u64" where
  "def_mask m insn = (if m = 0 then ucast (def_regs (use_def insn)) else write_slots (use_def insn))"

lemma bit_live_new:
  "m < 2 \<Longrightarrow> bit (live_new prog m st i) k \<longleftrightarrow>
     bit (use_mask m (prog ! i)) k \<or>
     \<not> bit (def_mask m (prog ! i)) k \<and> (\<exists>s \<in> set (static_successors i prog). bit (live_word m st s) k)"
  "m = 2 \<Longrightarrow> bit (live_new prog m st i) k \<longleftrightarrow> (\<exists>s \<in> set (static_successors i prog). bit (live_word 0 st s) k)"
  "m = 3 \<Longrightarrow> bit (live_new prog m st i) k \<longleftrightarrow> (\<exists>s \<in> set (static_successors i prog). bit (live_word 1 st s) k)"
  by (auto simp: less_2_cases_iff live_new_def live_word_def use_mask_def def_mask_def bit_ucast_iff bit_new_in_regs bit_new_in_slots
      bit_join_regs bit_join_slots dest: bit_imp_le_length)

definition live_below :: "bpf_insn list \<Rightarrow> live_state \<Rightarrow> live_state \<Rightarrow> bool" where
  "live_below prog st st' \<longleftrightarrow> (\<forall>i<length prog. \<forall>m<4. bits_le (live_word m st i) (live_word m st' i))"

lemma static_insideD: "static_inside prog \<Longrightarrow> i < length prog \<Longrightarrow> s \<in> set (static_successors i prog) \<Longrightarrow> s < length prog"
  by (auto simp: static_inside_def list_all_iff)

lemma live_new_mono:
  assumes "static_inside prog" "i < length prog" "m < 4" "live_below prog st st'"
  shows "bits_le (live_new prog m st i) (live_new prog m st' i)"
proof -
  have w: "bit (live_word m' st' s) k" if "bit (live_word m' st s) k" "s \<in> set (static_successors i prog)" "m' < 2" for m' s k
    using assms(4) that static_insideD [OF assms(1,2) that(2)] by (auto simp: live_below_def bits_le_def)
  consider "m < 2" | "m = 2" | "m = 3" using assms(3) by linarith
  then show ?thesis
    by cases (use w [of m] w [of 0] w [of 1] in \<open>fastforce simp: bits_le_def bit_live_new\<close>)+
qed

definition live_up :: "bpf_insn list \<Rightarrow> live_state \<Rightarrow> bool" where
  "live_up prog st \<longleftrightarrow> live_sized prog st \<and> (\<forall>i<length prog. \<forall>m<4. bits_le (live_word m st i) (live_new prog m st i))"

lemma live_word_visit:
  assumes "live_sized prog st" "i < length prog" "j < length prog" "m < 4"
  shows "live_word m (live_visit prog i st) j = (if j = i then live_new prog m st i else live_word m st j)"
proof -
  consider "m = 0" | "m = 1" | "m = 2" | "m = 3" using assms(4) by linarith
  then show ?thesis
    using assms(1,3) unfolding live_visit_eq [OF assms(1,2)]
    by cases (simp_all add: live_word_def live_new_def live_sized_def nth_list_update)
qed

lemma live_sized_visit: "live_sized prog st \<Longrightarrow> i < length prog \<Longrightarrow> live_sized prog (live_visit prog i st)"
  by (simp add: live_visit_eq) (simp add: live_sized_def)

lemma live_visit_below:
  assumes "live_up prog st" "i < length prog"
  shows "live_below prog st (live_visit prog i st)"
  using assms unfolding live_below_def by (auto simp: live_up_def live_word_visit bits_le_def)

lemma live_visit_up:
  assumes "static_inside prog" "live_up prog st" "i < length prog"
  shows "live_up prog (live_visit prog i st)"
proof -
  have sized: "live_sized prog st" using assms(2) by (simp add: live_up_def)
  have "bits_le (live_word m (live_visit prog i st) j) (live_new prog m (live_visit prog i st) j)"
    if "j < length prog" "m < 4" for j m
  proof -
    have "bits_le (live_word m (live_visit prog i st) j) (live_new prog m st j)"
      using assms(2) that by (auto simp: live_word_visit [OF sized assms(3)] live_up_def bits_le_def)
    then show ?thesis
      using live_new_mono [OF assms(1) that live_visit_below [OF assms(2,3)]] by (auto simp: bits_le_def)
  qed
  then show ?thesis using live_sized_visit [OF sized assms(3)] by (simp add: live_up_def)
qed

section \<open>Termination\<close>

text \<open>The set bits of a state; every sweep that reports a change adds one.\<close>

definition live_facts :: "bpf_insn list \<Rightarrow> live_state \<Rightarrow> (nat \<times> nat \<times> nat) set" where
  "live_facts prog st = {(m, i, k). m < 4 \<and> i < length prog \<and> bit (live_word m st i) k}"

lemma live_facts_bounded: "live_facts prog st \<subseteq> {..<4} \<times> {..<length prog} \<times> {..<64}"
  using bit_imp_le_length by (fastforce simp: live_facts_def)

lemma live_facts_below: "live_below prog st st' \<Longrightarrow> live_facts prog st \<subseteq> live_facts prog st'"
  by (auto simp: live_facts_def live_below_def bits_le_def)

lemma live_visit_facts:
  assumes "live_up prog st" "i < length prog"
  shows "live_facts prog st \<subseteq> live_facts prog (live_visit prog i st)"
    and "live_changed (live_visit prog i st) \<Longrightarrow> live_changed st \<or> live_facts prog st \<noteq> live_facts prog (live_visit prog i st)"
proof -
  show "live_facts prog st \<subseteq> live_facts prog (live_visit prog i st)"
    using live_facts_below [OF live_visit_below [OF assms]] .
  have sized: "live_sized prog st" using assms(1) by (simp add: live_up_def)
  assume "live_changed (live_visit prog i st)"
  then consider "live_changed st" | m where "m < 4" "live_word m st i \<noteq> live_new prog m st i"
    by (auto simp: live_visit_eq [OF sized assms(2)])
  then show "live_changed st \<or> live_facts prog st \<noteq> live_facts prog (live_visit prog i st)"
  proof cases
    case 2
    then obtain k where "bit (live_word m st i) k \<noteq> bit (live_new prog m st i) k" by (meson bit_eqI)
    then have "((m, i, k) \<in> live_facts prog st) \<noteq> ((m, i, k) \<in> live_facts prog (live_visit prog i st))"
      using 2(1) assms(2) by (simp add: live_facts_def live_word_visit [OF sized assms(2)])
    then show ?thesis by blast
  qed simp
qed

lemma live_fold:
  assumes "static_inside prog" "live_up prog st" "\<forall>i \<in> set is. i < length prog"
  shows "live_up prog (fold (live_visit prog) is st) \<and> live_facts prog st \<subseteq> live_facts prog (fold (live_visit prog) is st) \<and>
    (live_changed (fold (live_visit prog) is st) \<longrightarrow>
       live_changed st \<or> live_facts prog st \<noteq> live_facts prog (fold (live_visit prog) is st))"
  using assms(2,3)
proof (induction "is" arbitrary: st)
  case (Cons i "is")
  let ?v = "live_visit prog i st"
  have i: "i < length prog" using Cons.prems(2) by simp
  have up: "live_up prog ?v" by (rule live_visit_up [OF assms(1) Cons.prems(1) i])
  note ih = Cons.IH [OF up]
  note f = live_visit_facts [OF Cons.prems(1) i]
  show ?case using ih Cons.prems(2) f by (auto; blast)
qed simp

lemma live_flag [simp]:
  "live_word m (st\<lparr>live_changed := b\<rparr>) i = live_word m st i" "live_new prog m (st\<lparr>live_changed := b\<rparr>) i = live_new prog m st i"
  "live_sized prog (st\<lparr>live_changed := b\<rparr>) = live_sized prog st"
  by (simp_all add: live_word_def live_new_def live_sized_def new_in_regs_def new_in_slots_def join_regs_def join_slots_def)

lemma live_sweep_progress:
  assumes "static_inside prog" "live_up prog st"
  shows "live_up prog (live_sweep prog st)"
    and "live_changed (live_sweep prog st) \<Longrightarrow> live_facts prog st \<subset> live_facts prog (live_sweep prog st)"
proof -
  have up: "live_up prog (st\<lparr>live_changed := False\<rparr>)" and facts: "live_facts prog (st\<lparr>live_changed := False\<rparr>) = live_facts prog st"
    using assms(2) by (simp_all add: live_up_def live_facts_def)
  note f = live_fold [OF assms(1) up, of "[0..<length prog]"]
  show "live_up prog (live_sweep prog st)" using f by (simp add: live_sweep_def)
  show "live_changed (live_sweep prog st) \<Longrightarrow> live_facts prog st \<subset> live_facts prog (live_sweep prog st)"
    using f facts by (auto simp: live_sweep_def)
qed

section \<open>The fixed point reached\<close>

text \<open>A sweep without a change visits a solution of the equations.\<close>

definition live_solved :: "bpf_insn list \<Rightarrow> live_state \<Rightarrow> bool" where
  "live_solved prog st \<longleftrightarrow> (\<forall>i<length prog. \<forall>m<4. live_word m st i = live_new prog m st i)"

lemma live_fold_quiet:
  assumes "static_inside prog" "live_up prog st" "\<forall>i \<in> set is. i < length prog" "\<not> live_changed (fold (live_visit prog) is st)"
  shows "fold (live_visit prog) is st = st \<and> (\<forall>i \<in> set is. \<forall>m<4. live_word m st i = live_new prog m st i)"
  using assms(2-)
proof (induction "is" arbitrary: st)
  case (Cons i "is")
  let ?v = "live_visit prog i st"
  have i: "i < length prog" using Cons.prems(2) by simp
  have sized: "live_sized prog st" using Cons.prems(1) by (simp add: live_up_def)
  have up: "live_up prog ?v" by (rule live_visit_up [OF assms(1) Cons.prems(1) i])
  have rest: "fold (live_visit prog) is ?v = ?v" "\<forall>j \<in> set is. \<forall>m<4. live_word m ?v j = live_new prog m ?v j"
    using Cons.IH [OF up] Cons.prems(2,3) by simp_all
  then have "\<not> live_changed ?v" using Cons.prems(3) by simp
  then have same: "\<forall>m<4. live_word m st i = live_new prog m st i" "\<not> live_changed st"
    by (auto simp: live_visit_eq [OF sized i])
  have eq: "new_in_regs prog i st = in_regs st ! i" "new_in_slots prog i st = in_slots st ! i"
    "join_regs prog i st = out_regs st ! i" "join_slots prog i st = out_slots st ! i"
    using same(1) [rule_format, of 0] same(1) [rule_format, of 1] same(1) [rule_format, of 2] same(1) [rule_format, of 3]
    by (simp_all add: live_word_def live_new_def ucast16_eq_iff)
  then have "?v = st"
    unfolding live_visit_eq [OF sized i] eq using same by simp
  then show ?case using rest same(1) by simp
qed simp

section \<open>Paths\<close>

text \<open>Some static path from an instruction reads bit \<open>k\<close> of mask \<open>m\<close> (0 the registers, 1 the stack slots) before it is written.\<close>

inductive read_ahead :: "bpf_insn list \<Rightarrow> nat \<Rightarrow> nat \<Rightarrow> nat \<Rightarrow> bool" for prog m k where
  ra_use: "bit (use_mask m (prog ! i)) k \<Longrightarrow> read_ahead prog m k i"
| ra_step: "s \<in> set (static_successors i prog) \<Longrightarrow> \<not> bit (def_mask m (prog ! i)) k \<Longrightarrow> read_ahead prog m k s \<Longrightarrow>
    read_ahead prog m k i"

definition live_justified :: "bpf_insn list \<Rightarrow> live_state \<Rightarrow> bool" where
  "live_justified prog st \<longleftrightarrow> (\<forall>i<length prog. \<forall>m<2. \<forall>k. bit (live_word m st i) k \<longrightarrow> read_ahead prog m k i)"

lemma live_new_justified:
  assumes "static_inside prog" "live_justified prog st" "i < length prog" "m < 2" "bit (live_new prog m st i) k"
  shows "read_ahead prog m k i"
  using assms static_insideD [OF assms(1,3)] by (auto simp: bit_live_new live_justified_def intro: read_ahead.intros)

lemma live_fold_justified:
  assumes "static_inside prog" "live_sized prog st" "live_justified prog st" "\<forall>i \<in> set is. i < length prog"
  shows "live_justified prog (fold (live_visit prog) is st)"
  using assms(2-)
proof (induction "is" arbitrary: st)
  case (Cons i "is")
  have i: "i < length prog" using Cons.prems(3) by simp
  have "live_justified prog (live_visit prog i st)"
    using Cons.prems(2) live_new_justified [OF assms(1) Cons.prems(2) i]
    by (auto simp: live_justified_def live_word_visit [OF Cons.prems(1) i])
  then show ?case using Cons.IH [OF live_sized_visit [OF Cons.prems(1) i]] Cons.prems(3) by simp
qed simp

definition live_reached :: "bpf_insn list \<Rightarrow> live_state \<Rightarrow> bool" where
  "live_reached prog st \<longleftrightarrow> live_up prog st \<and> live_justified prog st \<and> (\<not> live_changed st \<longrightarrow> live_solved prog st)"

lemma live_reached_initial: "live_reached prog (live_initial prog)"
  by (simp add: live_reached_def live_up_def live_sized_def live_justified_def live_initial_def live_word_def bits_le_def
      Let_def less_2_cases_iff)

lemma live_reached_sweep:
  assumes inside: "static_inside prog" and st: "live_reached prog st"
  shows "live_reached prog (live_sweep prog st)"
proof -
  let ?st = "st\<lparr>live_changed := False\<rparr>"
  have up: "live_up prog ?st" "live_justified prog ?st" "live_sized prog ?st"
    using st by (simp_all add: live_reached_def live_up_def live_justified_def)
  have "live_justified prog (live_sweep prog st)"
    unfolding live_sweep_def by (rule live_fold_justified [OF inside up(3,2)]) simp
  moreover have "live_solved prog (live_sweep prog st)" if "\<not> live_changed (live_sweep prog st)"
    using live_fold_quiet [OF inside up(1), of "[0..<length prog]"] that by (simp add: live_sweep_def live_solved_def)
  ultimately show ?thesis
    using live_sweep_progress(1) [OF inside] st by (simp add: live_reached_def)
qed

lemma live_loop_ends:
  assumes "static_inside prog"
  shows "\<exists>st. while_option live_changed (live_sweep prog) (live_initial prog) = Some st"
proof (rule measure_while_option_Some [where P = "live_reached prog" and f = "\<lambda>st. 4 * length prog * 64 - card (live_facts prog st) + of_bool (live_changed st)"])
  fix st assume st: "live_reached prog st" and ch: "live_changed st"
  have next_st: "live_reached prog (live_sweep prog st)" by (rule live_reached_sweep [OF assms st])
  have fin: "finite ({..<4::nat} \<times> {..<length prog} \<times> {..<64::nat})" by simp
  have finite: "finite (live_facts prog t)" for t by (rule finite_subset [OF live_facts_bounded fin])
  have card: "card (live_facts prog t) \<le> 4 * length prog * 64" for t
    using card_mono [OF fin live_facts_bounded] by (simp add: card_cartesian_product)
  have up: "live_up prog st" using st by (simp add: live_reached_def)
  have mono: "card (live_facts prog st) \<le> card (live_facts prog (live_sweep prog st))"
    using live_fold [OF assms, of "st\<lparr>live_changed := False\<rparr>" "[0..<length prog]"] up
    by (intro card_mono [OF finite]) (simp add: live_sweep_def live_up_def live_facts_def)
  have less: "card (live_facts prog st) < card (live_facts prog (live_sweep prog st))" if "live_changed (live_sweep prog st)"
    using live_sweep_progress(2) [OF assms up that] by (rule psubset_card_mono [OF finite])
  show "live_reached prog (live_sweep prog st) \<and>
      4 * length prog * 64 - card (live_facts prog (live_sweep prog st)) + of_bool (live_changed (live_sweep prog st))
        < 4 * length prog * 64 - card (live_facts prog st) + of_bool (live_changed st)"
    using next_st ch mono less card [of "live_sweep prog st"] by (cases "live_changed (live_sweep prog st)") auto
next
  show "live_reached prog (live_initial prog)" by (rule live_reached_initial)
qed

lemma live_solved_reads:
  assumes "static_inside prog" "live_solved prog st" "read_ahead prog m k i" "m < 2" "i < length prog"
  shows "bit (live_word m st i) k"
  using assms(3,5)
proof (induction rule: read_ahead.induct)
  case (ra_use i)
  then show ?case using assms(2,4) by (simp add: live_solved_def bit_live_new)
next
  case (ra_step s i)
  then have "bit (live_word m st s) k" using static_insideD [OF assms(1)] by blast
  then show ?case using ra_step assms(2,4) by (auto simp: live_solved_def bit_live_new)
qed

lemma live_analyze_exact:
  assumes "live_analyze prog = Some lv" "unat pc < length prog"
  shows "bit (live_regs_before lv pc) r \<longleftrightarrow> read_ahead prog 0 r (unat pc)"
    and "bit (live_stack_before lv pc) r \<longleftrightarrow> read_ahead prog 1 r (unat pc)"
proof -
  let ?st = "while live_changed (live_sweep prog) (live_initial prog)"
  have inside: "static_inside prog" and lv: "lv = \<lparr>live_regs_of = in_regs ?st, live_stack_of = in_slots ?st\<rparr>"
    using assms(1) by (auto simp: live_analyze_def Let_def split: if_split_asm)
  obtain st where st: "while_option live_changed (live_sweep prog) (live_initial prog) = Some st"
    using live_loop_ends [OF inside] by blast
  then have w: "?st = st" by (simp add: while_def)
  have "live_reached prog st"
    by (rule while_option_rule [where P = "live_reached prog", OF _ st live_reached_initial]) (rule live_reached_sweep [OF inside])
  moreover have "\<not> live_changed st" by (rule while_option_stop [OF st])
  ultimately have "live_solved prog st" "live_justified prog st" "live_sized prog st"
    by (simp_all add: live_reached_def live_up_def)
  then have "bit (live_word m st (unat pc)) r \<longleftrightarrow> read_ahead prog m r (unat pc)" if "m < 2" for m
    using live_solved_reads [OF inside _ _ that assms(2)] that assms(2) by (auto simp: live_justified_def)
  from this [of 0] this [of 1] show "bit (live_regs_before lv pc) r \<longleftrightarrow> read_ahead prog 0 r (unat pc)"
    "bit (live_stack_before lv pc) r \<longleftrightarrow> read_ahead prog 1 r (unat pc)"
    using assms(2) \<open>live_sized prog st\<close>
    by (auto simp: lv w live_regs_before_def live_stack_before_def live_word_def live_sized_def bit_ucast_iff dest: bit_imp_le_length)
qed

end
