(* ===== verification/State_Eq.thy ===== *)
theory State_Eq
  imports Memory
begin

text \<open>
  The comparison of states of \<open>src/src/state_eq.rs\<close>: the identifier map (\<open>check_ids\<close>,
  \<open>check_scalar_ids\<close>), the comparison of registers (\<open>regsafe\<close>, \<open>regs_exact\<close>) and stacks (\<open>stacksafe\<close>), \<open>states_equal\<close>,
  the cleaning of dead state and the prefilter of the loop detection. A comparison that threads the identifier map
  returns the new map, or \<open>None\<close> where the sources return false; every caller stops at the first false.
\<close>

section \<open>Identifiers\<close>

datatype exact_level = NotExact | Exact

record id_map =
  id_pairs :: "(u32 \<times> u32) list"
  tmp_id_gen :: u32

definition id_map_new :: id_map where
  "id_map_new = \<lparr>id_pairs = [], tmp_id_gen = 0\<rparr>"

text \<open>The first pair that mentions either identifier decides.\<close>

fun lookup_ids :: "(u32 \<times> u32) list \<Rightarrow> u32 \<Rightarrow> u32 \<Rightarrow> bool option" where
  "lookup_ids [] old_id cur_id = None"
| "lookup_ids ((old, cur) # rest) old_id cur_id =
     (if old = old_id then Some (cur = cur_id)
      else if cur = cur_id then Some False
      else lookup_ids rest old_id cur_id)"

definition check_ids :: "u32 \<Rightarrow> u32 \<Rightarrow> id_map \<Rightarrow> id_map option" where
  "check_ids old_id cur_id m =
     (if (old_id = 0) \<noteq> (cur_id = 0) then None
      else if old_id = 0 then Some m
      else case lookup_ids (id_pairs m) old_id cur_id of
        Some b \<Rightarrow> if b then Some m else None
      | None \<Rightarrow> Some (m\<lparr>id_pairs := id_pairs m @ [(old_id, cur_id)]\<rparr>))"

definition check_scalar_ids :: "u32 \<Rightarrow> u32 \<Rightarrow> id_map \<Rightarrow> id_map option" where
  "check_scalar_ids old_id cur_id m =
     (if old_id = 0 then Some m
      else if cur_id = 0 then
        let m' = m\<lparr>tmp_id_gen := tmp_id_gen m + 1\<rparr> in check_ids old_id (tmp_id_gen m') m'
      else check_ids old_id cur_id m)"

definition when_true :: "bool \<Rightarrow> id_map option \<Rightarrow> id_map option" where
  "when_true b r = (if b then r else None)"

section \<open>Registers\<close>

definition scalar_range_within :: "scalar_bounds \<Rightarrow> scalar_bounds \<Rightarrow> bool" where
  "scalar_range_within old new \<longleftrightarrow>
     smin old \<le>s smin new \<and> smax new \<le>s smax old \<and> umin old \<le> umin new \<and> umax new \<le> umax old \<and>
     s32_min old \<le>s s32_min new \<and> s32_max new \<le>s s32_max old \<and>
     u32_min old \<le> u32_min new \<and> u32_max new \<le> u32_max old \<and> tnum_subsumes (stnum old) (stnum new)"

definition scalar_bounds_exact :: "scalar_bounds \<Rightarrow> scalar_bounds \<Rightarrow> bool" where
  "scalar_bounds_exact a b \<longleftrightarrow>
     smin a = smin b \<and> smax a = smax b \<and> umin a = umin b \<and> umax a = umax b \<and>
     s32_min a = s32_min b \<and> s32_max a = s32_max b \<and> u32_min a = u32_min b \<and> u32_max a = u32_max b \<and>
     stnum a = stnum b"

definition regs_exact :: "reg_state \<Rightarrow> reg_state \<Rightarrow> bool" where
  "regs_exact old new \<longleftrightarrow>
     (case old of
        Uninit \<Rightarrow> new = Uninit
      | Scalar a \<Rightarrow> (case new of Scalar b \<Rightarrow> scalar_bounds_exact a b | _ \<Rightarrow> False)
      | PtrToStack mn mx al f \<Rightarrow>
          (case new of PtrToStack mn' mx' al' f' \<Rightarrow> mn = mn' \<and> mx = mx' \<and> al = al' \<and> f = f' | _ \<Rightarrow> False)
      | PtrToCtx a \<Rightarrow> (case new of PtrToCtx b \<Rightarrow> a = b | _ \<Rightarrow> False)
      | PtrToMap ks vs mt \<Rightarrow> (case new of PtrToMap ks' vs' mt' \<Rightarrow> ks = ks' \<and> vs = vs' | _ \<Rightarrow> False)
      | PtrToMapValue mn mx al vs i \<Rightarrow>
          (case new of PtrToMapValue mn' mx' al' vs' i' \<Rightarrow> mn = mn' \<and> mx = mx' \<and> al = al' \<and> vs = vs' | _ \<Rightarrow> False)
      | PtrToMapValueOrNull vs i \<Rightarrow> (case new of PtrToMapValueOrNull vs' i' \<Rightarrow> vs = vs' | _ \<Rightarrow> False)
      | _ \<Rightarrow> False)"

definition check_reg_ids :: "reg_state \<Rightarrow> reg_state \<Rightarrow> id_map \<Rightarrow> id_map option" where
  "check_reg_ids old new m =
     (case old of
        Scalar a \<Rightarrow> (case new of Scalar b \<Rightarrow> check_scalar_ids (sid a) (sid b) m | _ \<Rightarrow> Some m)
      | PtrToMapValue mn mx al vs i \<Rightarrow>
          (case new of PtrToMapValue mn' mx' al' vs' i' \<Rightarrow> check_ids i i' m | _ \<Rightarrow> Some m)
      | PtrToMapValueOrNull vs i \<Rightarrow> (case new of PtrToMapValueOrNull vs' i' \<Rightarrow> check_ids i i' m | _ \<Rightarrow> Some m)
      | PtrToMem mn mx al i p \<Rightarrow> (case new of PtrToMem mn' mx' al' i' p' \<Rightarrow> check_ids i i' m | _ \<Rightarrow> Some m)
      | PtrToMemOrNull i p sz \<Rightarrow>
          (case new of PtrToMemOrNull i' p' sz' \<Rightarrow> Option.bind (check_ids i i' m) (check_ids p p') | _ \<Rightarrow> Some m)
      | PtrToBtfId b r \<Rightarrow> (case new of PtrToBtfId b' r' \<Rightarrow> check_ids r r' m | _ \<Rightarrow> Some m)
      | _ \<Rightarrow> Some m)"

definition scalar_safe :: "scalar_bounds \<Rightarrow> scalar_bounds \<Rightarrow> id_map \<Rightarrow> id_map option" where
  "scalar_safe a b m =
     (if \<not> precise a then Some m
      else when_true ((delta a = delta b \<or> sid a = 0) \<and> scalar_range_within a b) (check_scalar_ids (sid a) (sid b) m))"

definition regsafe_kinds :: "reg_state \<Rightarrow> reg_state \<Rightarrow> id_map \<Rightarrow> id_map option" where
  "regsafe_kinds old new m =
     (case old of
        Scalar a \<Rightarrow> (case new of Scalar b \<Rightarrow> scalar_safe a b m | _ \<Rightarrow> None)
      | PtrToStack mn mx al f \<Rightarrow> when_true (new = old) (Some m)
      | PtrToCtx a \<Rightarrow> when_true (new = old) (Some m)
      | PtrToMap ks vs mt \<Rightarrow> when_true (new = old) (Some m)
      | PtrToMapValue mn mx al vs i \<Rightarrow>
          (case new of
             PtrToMapValue mn' mx' al' vs' i' \<Rightarrow>
               when_true (vs = vs' \<and> mn \<le>s mn' \<and> mx' \<le>s mx \<and> (al = al' \<or> al = ALIGN_UNKNOWN)) (check_ids i i' m)
           | _ \<Rightarrow> None)
      | PtrToMapValueOrNull vs i \<Rightarrow>
          (case new of PtrToMapValueOrNull vs' i' \<Rightarrow> when_true (vs = vs') (check_ids i i' m) | _ \<Rightarrow> None)
      | PtrToMem mn mx al i p \<Rightarrow>
          (case new of
             PtrToMem mn' mx' al' i' p' \<Rightarrow>
               when_true (mn \<le>s mn' \<and> mx' \<le>s mx) (Option.bind (check_ids i i' m) (check_ids p p'))
           | _ \<Rightarrow> None)
      | PtrToMemOrNull i p sz \<Rightarrow>
          (case new of
             PtrToMemOrNull i' p' sz' \<Rightarrow> when_true (sz = sz') (Option.bind (check_ids i i' m) (check_ids p p'))
           | _ \<Rightarrow> None)
      | PtrToBtfId b r \<Rightarrow> (case new of PtrToBtfId b' r' \<Rightarrow> when_true (b = b') (check_ids r r' m) | _ \<Rightarrow> None)
      | Uninit \<Rightarrow> None)"

definition regsafe :: "reg_state \<Rightarrow> reg_state \<Rightarrow> exact_level \<Rightarrow> id_map \<Rightarrow> id_map option" where
  "regsafe old new ex m =
     (if ex = Exact then when_true (regs_exact old new) (check_reg_ids old new m)
      else if old = Uninit then Some m
      else regsafe_kinds old new m)"

section \<open>Stacks\<close>

definition upper_bytes :: "stack_state \<Rightarrow> nat \<Rightarrow> nat \<Rightarrow> stack_byte list" where
  "upper_bytes st spi im = drop im (take 8 (drop (spi * 8) (sbytes st)))"

text \<open>The 32-bit view of a spilled scalar.\<close>

definition sub_scalar :: "scalar_bounds \<Rightarrow> scalar_bounds" where
  "sub_scalar b =
     b\<lparr>smin := scast (s32_min b), smax := scast (s32_max b), umin := ucast (u32_min b), umax := ucast (u32_max b),
       stnum := tnum_subreg (stnum b)\<rparr>"

definition fake_scalar_for_stack :: "stack_state \<Rightarrow> nat \<Rightarrow> nat \<Rightarrow> reg_state option" where
  "fake_scalar_for_stack st spi im =
     (if list_all (\<lambda>b. b = SB_Spill) (upper_bytes st spi im) then
        (case spilled st ! spi of
           Some (Scalar b) \<Rightarrow> Some (Scalar (if im = 0 then b else sub_scalar b))
         | _ \<Rightarrow> None)
      else if list_all (\<lambda>b. b = SB_Misc) (upper_bytes st spi im) then
        Some (Scalar (scalar_unknown\<lparr>precise := False\<rparr>))
      else None)"

definition fake_pair :: "stack_state \<Rightarrow> stack_state \<Rightarrow> nat \<Rightarrow> nat \<Rightarrow> (reg_state \<times> reg_state) option" where
  "fake_pair old new spi im =
     (if im = 0 \<or> im = 4 then
        (case (fake_scalar_for_stack old spi im, fake_scalar_for_stack new spi im) of
           (Some a, Some b) \<Rightarrow> Some (a, b)
         | _ \<Rightarrow> None)
      else None)"

text \<open>The end of a slot: the metadata of dynptrs and full spills.\<close>

definition slot_end :: "stack_state \<Rightarrow> stack_state \<Rightarrow> exact_level \<Rightarrow> nat \<Rightarrow> stack_byte \<Rightarrow> id_map \<Rightarrow> id_map option" where
  "slot_end old new ex spi b m =
     (if b = SB_Dynptr \<and> dynptrs old ! spi \<noteq> dynptrs new ! spi then None
      else if b = SB_Spill then
        (case spilled old ! spi of
           None \<Rightarrow> Some m
         | Some a \<Rightarrow> (case spilled new ! spi of None \<Rightarrow> None | Some c \<Rightarrow> regsafe a c ex m))
      else Some m)"

function stacksafe_from :: "nat \<Rightarrow> stack_state \<Rightarrow> stack_state \<Rightarrow> exact_level \<Rightarrow> id_map \<Rightarrow> id_map option" where
  "stacksafe_from i old new ex m =
     (if STACK_SIZE \<le> i then Some m
      else
        let b = sbytes old ! i; c = sbytes new ! i; im = i mod 8; spi = i div 8 in
        if ex = Exact \<and> b \<noteq> c then None
        else if b = SB_Invalid then stacksafe_from (Suc i) old new ex m
        else case fake_pair old new spi im of
          Some (x, y) \<Rightarrow>
            (case regsafe x y ex m of
               None \<Rightarrow> None
             | Some m' \<Rightarrow> stacksafe_from (i + (if im = 0 then 8 else 4)) old new ex m')
        | None \<Rightarrow>
            if b = SB_Misc \<and> c = SB_Zero then stacksafe_from (Suc i) old new ex m
            else if b \<noteq> c then None
            else if im = 7 then
              (case slot_end old new ex spi b m of None \<Rightarrow> None | Some m' \<Rightarrow> stacksafe_from (Suc i) old new ex m')
            else stacksafe_from (Suc i) old new ex m)"
  by pat_completeness auto

termination
  by (relation "measure (\<lambda>(i, old, new, ex, m). STACK_SIZE - i)") auto

declare stacksafe_from.simps [simp del]

definition stacksafe :: "stack_state \<Rightarrow> stack_state \<Rightarrow> exact_level \<Rightarrow> id_map \<Rightarrow> id_map option" where
  "stacksafe old new ex m = stacksafe_from 0 old new ex m"

section \<open>States\<close>

fun all_ids :: "(u32 \<times> u32) list \<Rightarrow> id_map \<Rightarrow> id_map option" where
  "all_ids [] m = Some m"
| "all_ids ((a, b) # rest) m = Option.bind (check_ids a b m) (all_ids rest)"

fun all_regs :: "exact_level \<Rightarrow> (reg_state \<times> reg_state) list \<Rightarrow> id_map \<Rightarrow> id_map option" where
  "all_regs ex [] m = Some m"
| "all_regs ex ((a, b) # rest) m = Option.bind (regsafe a b ex m) (all_regs ex rest)"

fun all_frames :: "exact_level \<Rightarrow> (frame_state option \<times> frame_state option) list \<Rightarrow> id_map \<Rightarrow> id_map option" where
  "all_frames ex [] m = Some m"
| "all_frames ex ((None, None) # rest) m = all_frames ex rest m"
| "all_frames ex ((Some a, Some b) # rest) m =
     Option.bind (all_regs ex (zip (fr_regs a) (fr_regs b)) m) (\<lambda>m.
     Option.bind (stacksafe (fr_stack a) (fr_stack b) ex m) (all_frames ex rest))"
| "all_frames ex ((a, b) # rest) m = None"

definition live_only :: "u16 \<Rightarrow> 'a list \<Rightarrow> 'a list" where
  "live_only live xs = map snd (filter (\<lambda>(r, x). bit live r) (enumerate 0 xs))"

definition states_equal :: "verifier_state \<Rightarrow> verifier_state \<Rightarrow> exact_level \<Rightarrow> u16 \<Rightarrow> bool" where
  "states_equal old new ex live \<longleftrightarrow>
     curframe old = curframe new \<and> refs_cnt old = refs_cnt new \<and>
     Option.bind (all_ids (take (unat (refs_cnt old)) (zip (refs old) (refs new))) id_map_new) (\<lambda>m.
     Option.bind (all_regs ex (live_only live (zip (regs old) (regs new))) m) (\<lambda>m.
     Option.bind (stacksafe (stack old) (stack new) ex m)
       (all_frames ex (zip (saved old) (saved new))))) \<noteq> None"

definition clean_state :: "verifier_state \<Rightarrow> u16 \<Rightarrow> u64 \<Rightarrow> verifier_state" where
  "clean_state s live_regs live_stack =
     s\<lparr>regs := map (\<lambda>(r, v). if r \<noteq> 10 \<and> \<not> bit live_regs r then Uninit else v) (enumerate 0 (regs s)),
       stack := \<lparr>
         sbytes = map (\<lambda>(i, b). if bit live_stack (i div 8) then b else SB_Invalid) (enumerate 0 (sbytes (stack s))),
         spilled = map (\<lambda>(i, v). if bit live_stack i then v else None) (enumerate 0 (spilled (stack s))),
         dynptrs = map (\<lambda>(i, v). if bit live_stack i then v else None) (enumerate 0 (dynptrs (stack s)))\<rparr>\<rparr>"

definition states_maybe_looping :: "verifier_state \<Rightarrow> verifier_state \<Rightarrow> bool" where
  "states_maybe_looping old new \<longleftrightarrow>
     refs_cnt old = refs_cnt new \<and> list_all (\<lambda>(a, b). regs_exact a b) (zip (regs old) (regs new))"

end
