(* ===== verification/Precision.thy ===== *)
theory Precision
  imports Expand Liveness State_Eq
begin

text \<open>
  The checkpoints of the path exploration (\<open>src/src/mini.rs\<close>): the parent chain with its branch counts
  (\<open>bump_branches\<close>) and the scalar precision backtracking (\<open>backtrack_insn\<close>, \<open>mark_checkpoint\<close>,
  \<open>mark_all_scalars_precise\<close>, \<open>mark_chain_precision\<close>). A checkpoint is an index into the pool. The loops over the
  parent chain follow \<open>cp_chain\<close>, whose fuel is the size of the pool: a parent is stored before its child.
\<close>

section \<open>Checkpoints\<close>

record hist_entry =
  he_pc :: u32
  he_slots :: "(nat \<times> nat) option"

record checkpoint =
  cp_state :: verifier_state
  cp_parent :: "nat option"
  cp_branches :: nat
  cp_hit_cnt :: nat
  cp_miss_cnt :: nat
  cp_segment :: "hist_entry list"

fun chain_from :: "nat \<Rightarrow> checkpoint list \<Rightarrow> nat option \<Rightarrow> nat list" where
  "chain_from n cps None = []"
| "chain_from 0 cps (Some i) = []"
| "chain_from (Suc n) cps (Some i) = i # chain_from n cps (cp_parent (cps ! i))"

definition cp_chain :: "checkpoint list \<Rightarrow> nat option \<Rightarrow> nat list" where
  "cp_chain cps last_cp = chain_from (length cps) cps last_cp"

definition update_at :: "nat \<Rightarrow> ('a \<Rightarrow> 'a) \<Rightarrow> 'a list \<Rightarrow> 'a list" where
  "update_at i f xs = xs[i := f (xs ! i)]"

definition bump_up :: "nat option \<Rightarrow> checkpoint list \<Rightarrow> checkpoint list" where
  "bump_up last_cp cps = fold (\<lambda>i. update_at i (cp_branches_update Suc)) (cp_chain cps last_cp) cps"

definition bump_down :: "nat option \<Rightarrow> checkpoint list \<Rightarrow> checkpoint list" where
  "bump_down last_cp cps = fold (\<lambda>i. update_at i (cp_branches_update (\<lambda>b. b - 1))) (cp_chain cps last_cp) cps"

section \<open>Backtracking one instruction\<close>

record backtrack =
  bt_regs :: u16
  bt_slots :: u64

definition bt_empty :: "backtrack \<Rightarrow> bool" where
  "bt_empty bt \<longleftrightarrow> bt_regs bt = 0 \<and> bt_slots bt = 0"

datatype backtrack_outcome = Bt_Resolved | Bt_Fallback | Bt_Continue

definition drop_reg :: "u8 \<Rightarrow> backtrack \<Rightarrow> backtrack" where
  "drop_reg r bt = bt\<lparr>bt_regs := bt_regs bt AND NOT (reg_bit r)\<rparr>"

definition need_reg :: "u8 \<Rightarrow> backtrack \<Rightarrow> backtrack" where
  "need_reg r bt = bt\<lparr>bt_regs := bt_regs bt OR reg_bit r\<rparr>"

definition needs_reg :: "u8 \<Rightarrow> backtrack \<Rightarrow> bool" where
  "needs_reg r bt \<longleftrightarrow> bt_regs bt AND reg_bit r \<noteq> 0"

definition slots_mask :: "(nat \<times> nat) option \<Rightarrow> u64" where
  "slots_mask slots = (case slots of Some (lo, hi) \<Rightarrow> foldl (\<lambda>m s. m OR slot_bit s) 0 [lo..<Suc hi] | None \<Rightarrow> 0)"

fun transfer :: "bpf_insn \<Rightarrow> (nat \<times> nat) option \<Rightarrow> backtrack \<Rightarrow> backtrack" where
  "transfer (Atomic dst src off sz op fetch) slots bt =
     (if op = Atomic_Cmpxchg then drop_reg 0 bt else if fetch then drop_reg src bt else bt)"
| "transfer (LdAbs sz imm) slots bt = drop_reg 0 bt"
| "transfer (LdInd src sz imm) slots bt = drop_reg 0 bt"
| "transfer (MovImm dst imm) slots bt = drop_reg dst bt"
| "transfer (Mov32Imm dst imm) slots bt = drop_reg dst bt"
| "transfer (MovReg dst src) slots bt =
     (if needs_reg dst bt then let b = drop_reg dst bt in if src \<noteq> 10 then need_reg src b else b else bt)"
| "transfer (Mov32Reg dst src) slots bt =
     (if needs_reg dst bt then let b = drop_reg dst bt in if src \<noteq> 10 then need_reg src b else b else bt)"
| "transfer (AluReg op w dst src) slots bt = (if needs_reg dst bt \<and> src \<noteq> 10 then need_reg src bt else bt)"
| "transfer (MulReg dst src high) slots bt = (if needs_reg dst bt \<and> src \<noteq> 10 then need_reg src bt else bt)"
| "transfer (Mul32Reg dst src) slots bt = (if needs_reg dst bt \<and> src \<noteq> 10 then need_reg src bt else bt)"
| "transfer (LdMem dst base off sz se) slots bt =
     (if needs_reg dst bt then let b = drop_reg dst bt in b\<lparr>bt_slots := bt_slots b OR slots_mask slots\<rparr> else bt)"
| "transfer (StMem src base off sz) slots bt =
     (let hit = bt_slots bt AND slots_mask slots \<noteq> 0;
          b = bt\<lparr>bt_slots := bt_slots bt AND NOT (slots_mask slots)\<rparr>
      in if hit \<and> src \<noteq> 10 then need_reg src b else b)"
| "transfer (StMemImm imm base off sz) slots bt = bt\<lparr>bt_slots := bt_slots bt AND NOT (slots_mask slots)\<rparr>"
| "transfer (LdImm64 dst imm) slots bt = drop_reg dst bt"
| "transfer (LdMapFd dst fd ks vs mt) slots bt = drop_reg dst bt"
| "transfer (LdMapValue dst fd off ks vs) slots bt = drop_reg dst bt"
| "transfer (Call h) slots bt = drop_reg 0 bt"
| "transfer (CallKfunc btf) slots bt = drop_reg 0 bt"
| "transfer (CondReg op dst src off) slots bt =
     (if needs_reg dst bt \<or> needs_reg src bt then need_reg src (need_reg dst bt) else bt)"
| "transfer insn slots bt = bt"

definition argument_regs :: u16 where
  "argument_regs = 0b111110"

fun falls_back :: "bpf_insn \<Rightarrow> backtrack \<Rightarrow> bool" where
  "falls_back (CallSub off) bt \<longleftrightarrow> bt_regs bt AND (reg_bit 0 OR argument_regs) \<noteq> 0"
| "falls_back (Call h) bt \<longleftrightarrow> bt_regs bt AND argument_regs \<noteq> 0"
| "falls_back (CallKfunc btf) bt \<longleftrightarrow> bt_regs bt AND argument_regs \<noteq> 0"
| "falls_back insn bt \<longleftrightarrow> False"

definition backtrack_insn :: "bpf_insn \<Rightarrow> (nat \<times> nat) option \<Rightarrow> backtrack \<Rightarrow> backtrack_outcome \<times> backtrack" where
  "backtrack_insn insn slots bt =
     (let b = transfer insn slots bt in
      (if falls_back insn b then Bt_Fallback else if bt_empty b then Bt_Resolved else Bt_Continue, b))"

section \<open>Marking\<close>

definition make_precise :: "reg_state \<Rightarrow> reg_state" where
  "make_precise r = (case r of Scalar b \<Rightarrow> Scalar (b\<lparr>precise := True\<rparr>) | _ \<Rightarrow> r)"

definition mark_regs :: "u16 \<Rightarrow> verifier_state \<Rightarrow> verifier_state" where
  "mark_regs need s = s\<lparr>regs := map (\<lambda>(r, v). if bit need r then make_precise v else v) (enumerate 0 (regs s))\<rparr>"

definition mark_slots :: "u64 \<Rightarrow> verifier_state \<Rightarrow> verifier_state" where
  "mark_slots need s =
     s\<lparr>stack := (stack s)\<lparr>spilled :=
        map (\<lambda>(k, sp). if bit need k \<and> full_spill (stack s) k then map_option make_precise sp else sp)
          (enumerate 0 (spilled (stack s)))\<rparr>\<rparr>"

text \<open>Every register and slot of the state leaves the requirement, marked or not.\<close>

definition mark_checkpoint :: "nat \<Rightarrow> backtrack \<Rightarrow> checkpoint list \<Rightarrow> checkpoint list \<times> backtrack" where
  "mark_checkpoint i bt cps =
     (update_at i (cp_state_update (\<lambda>s. mark_slots (bt_slots bt) (mark_regs (bt_regs bt) s))) cps,
      \<lparr>bt_regs = bt_regs bt AND NOT (mask NUM_REGS), bt_slots = bt_slots bt AND NOT (mask STACK_SLOTS)\<rparr>)"

definition mark_all_scalars_precise :: "nat option \<Rightarrow> checkpoint list \<Rightarrow> checkpoint list" where
  "mark_all_scalars_precise last_cp cps =
     fold (\<lambda>i. update_at i (cp_state_update (\<lambda>s. mark_slots (- 1) (mark_regs (- 1) s)))) (cp_chain cps last_cp) cps"

text \<open>The walk over one segment, newest entry first.\<close>

fun walk_segment :: "bpf_insn list \<Rightarrow> hist_entry list \<Rightarrow> backtrack \<Rightarrow> backtrack_outcome \<times> backtrack" where
  "walk_segment prog [] bt = (Bt_Continue, bt)"
| "walk_segment prog (e # es) bt =
     (case backtrack_insn (prog ! unat (he_pc e)) (he_slots e) bt of
        (Bt_Continue, b) \<Rightarrow> walk_segment prog es b
      | r \<Rightarrow> r)"

fun walk_chain ::
  "bpf_insn list \<Rightarrow> hist_entry list list \<Rightarrow> nat option \<Rightarrow> backtrack \<Rightarrow> checkpoint list \<Rightarrow> checkpoint list" where
  "walk_chain prog [] last_cp bt cps = mark_all_scalars_precise last_cp cps"
| "walk_chain prog (seg # segs) last_cp bt cps =
     (case walk_segment prog (rev seg) bt of
        (Bt_Resolved, b) \<Rightarrow> cps
      | (Bt_Fallback, b) \<Rightarrow> mark_all_scalars_precise last_cp cps
      | (Bt_Continue, b) \<Rightarrow>
          (case last_cp of
             None \<Rightarrow> cps
           | Some i \<Rightarrow>
               (let (cps', b') = mark_checkpoint i b cps in
                if bt_empty b' then cps' else walk_chain prog segs (cp_parent (cps ! i)) b' cps')))"

definition mark_chain_precision ::
  "bpf_insn list \<Rightarrow> nat option \<Rightarrow> hist_entry list \<Rightarrow> u16 \<Rightarrow> checkpoint list \<Rightarrow> checkpoint list" where
  "mark_chain_precision prog last_cp segment need cps =
     (let bt = \<lparr>bt_regs = need, bt_slots = 0\<rparr> in
      if bt_empty bt then cps
      else walk_chain prog (segment # map (\<lambda>i. cp_segment (cps ! i)) (cp_chain cps last_cp)) last_cp bt cps)"

end
