(* ===== verification/Mini.thy ===== *)
theory Mini
  imports Precision
begin

text \<open>
  The path exploration of the verifier, \<open>verify_mini_core\<close> of \<open>src/src/mini.rs\<close>: the worklist, the prune points with
  the stored checkpoints (\<open>is_state_visited\<close> of the kernel), the budgets and the recorded states. The counter
  \<open>steps\<close> of the sources is the recursion of \<open>mini_loop\<close>: what is left of \<open>max_steps\<close>. The top of the worklist is the
  head of the list.
\<close>

section \<open>Data\<close>

record verifier_limits =
  max_states :: nat
  max_steps :: nat
  max_loop_iterations :: nat
  lim_prog_type :: prog_type

definition default_limits :: verifier_limits where
  "default_limits =
     \<lparr>max_states = 1024, max_steps = 100000, max_loop_iterations = 256, lim_prog_type = SocketFilter\<rparr>"

record work_item =
  wi_pc :: u32
  wi_state :: verifier_state
  wi_last_cp :: "nat option"
  wi_history :: "hist_entry list"

record mini_env =
  env_prog :: "bpf_insn list"
  env_live :: liveness
  env_prune :: "bool list"
  env_heads :: "u32 list"
  env_limits :: verifier_limits

record mini_state =
  worklist :: "work_item list"
  checkpoints :: "checkpoint list"
  visited_cps :: "u32 \<Rightarrow> nat list"
  analyzed :: "u32 \<Rightarrow> verifier_state list"
  loop_iters :: "u32 \<Rightarrow> nat"
  insn_processed :: nat
  jmps_processed :: nat
  prev_insn_processed :: nat
  prev_jmps_processed :: nat

section \<open>Prune points\<close>

fun prune_targets :: "nat \<Rightarrow> nat \<times> bpf_insn \<Rightarrow> nat list" where
  "prune_targets n (i, Jmp off) = in_program n (int i + 1 + sint off)"
| "prune_targets n (i, insn) = (if is_conditional_branch insn then [i] else [])"

definition compute_prune_points :: "bpf_insn list \<Rightarrow> bool list" where
  "compute_prune_points prog =
     (let marked = concat (map (prune_targets (length prog)) (enumerate 0 prog)) in
      map (\<lambda>i. i \<in> set marked) [0..<length prog])"

section \<open>Visiting the stored states\<close>

datatype visit_outcome =
    Visit_Loop
  | Visit_Pruned "checkpoint list"
  | Visit_Done "checkpoint list" bool "nat list"

text \<open>
  The comparison of an arrival with the checkpoints of its instruction: \<open>wait\<close> says that too little was processed
  since the last stored state for a loop that is still explored, \<open>add\<close> that the arrival is to be stored, \<open>evict\<close>
  collects the checkpoints that miss too often.
\<close>

fun visit_list ::
  "verifier_state \<Rightarrow> u16 \<Rightarrow> bool \<Rightarrow> nat list \<Rightarrow> checkpoint list \<Rightarrow> bool \<Rightarrow> nat list \<Rightarrow> visit_outcome" where
  "visit_list cur live wait [] cps add evict = Visit_Done cps add evict"
| "visit_list cur live wait (i # is) cps add evict =
     (let cp = cps ! i in
      if 0 < cp_branches cp \<and> states_maybe_looping (cp_state cp) cur \<and> states_equal (cp_state cp) cur Exact live
      then Visit_Loop
      else if cp_branches cp = 0 \<and> states_equal (cp_state cp) cur NotExact live
      then Visit_Pruned (update_at i (cp_hit_cnt_update Suc) cps)
      else
        let add' = (if 0 < cp_branches cp \<and> wait then False else add);
            cps' = (if add' then update_at i (cp_miss_cnt_update Suc) cps else cps);
            evict' = (if cp_hit_cnt (cps' ! i) * 3 + 3 < cp_miss_cnt (cps' ! i) then evict @ [i] else evict)
        in visit_list cur live wait is cps' add' evict')"

definition arrival_state :: "mini_env \<Rightarrow> u32 \<Rightarrow> verifier_state \<Rightarrow> verifier_state" where
  "arrival_state env pc s = clean_state s (live_regs_before (env_live env) pc) (live_stack_before (env_live env) pc)"

definition store_checkpoint :: "u32 \<Rightarrow> verifier_state \<Rightarrow> work_item \<Rightarrow> mini_state \<Rightarrow> mini_state" where
  "store_checkpoint pc cleaned item ms =
     (let i = length (checkpoints ms) in
      ms\<lparr>checkpoints := checkpoints ms @
            [\<lparr>cp_state = cleaned, cp_parent = wi_last_cp item, cp_branches = 0, cp_hit_cnt = 0, cp_miss_cnt = 0,
              cp_segment = wi_history item\<rparr>],
         visited_cps := (visited_cps ms)(pc := visited_cps ms pc @ [i]),
         prev_insn_processed := insn_processed ms, prev_jmps_processed := jmps_processed ms\<rparr>)"

datatype arrival = Pruned mini_state | Arrived mini_state "nat option"

definition is_state_visited :: "mini_env \<Rightarrow> work_item \<Rightarrow> verifier_state \<Rightarrow> mini_state \<Rightarrow> (mini_error, arrival) res" where
  "is_state_visited env item cleaned ms =
     (let pc = wi_pc item;
          insns = insn_processed ms - prev_insn_processed ms; jmps = jmps_processed ms - prev_jmps_processed ms;
          add = (64 \<le> length (wi_history item) \<or> 8 \<le> insns \<and> 2 \<le> jmps) in
      case visit_list cleaned (live_regs_before (env_live env) pc) (insns < 100 \<and> jmps < 20) (visited_cps ms pc)
             (checkpoints ms) add [] of
        Visit_Loop \<Rightarrow> mfail pc (Infinite_Loop pc)
      | Visit_Pruned cps \<Rightarrow> Ok (Pruned (ms\<lparr>checkpoints := bump_down (wi_last_cp item) cps\<rparr>))
      | Visit_Done cps add evict \<Rightarrow>
          (let ms1 = ms\<lparr>checkpoints := cps,
                 visited_cps := (visited_cps ms)(pc := filter (\<lambda>i. i \<notin> set evict) (visited_cps ms pc))\<rparr> in
           if add then Ok (Arrived (store_checkpoint pc cleaned item ms1) (Some (length cps)))
           else Ok (Arrived ms1 (wi_last_cp item))))"

definition mini_arrive :: "mini_env \<Rightarrow> work_item \<Rightarrow> verifier_state \<Rightarrow> mini_state \<Rightarrow> (mini_error, arrival) res" where
  "mini_arrive env item cleaned ms =
     (if env_prune env ! unat (wi_pc item) then is_state_visited env item cleaned ms
      else Ok (Arrived ms (wi_last_cp item)))"

section \<open>Budgets\<close>

definition count_loop :: "mini_env \<Rightarrow> u32 \<Rightarrow> mini_state \<Rightarrow> (mini_error, mini_state) res" where
  "count_loop env pc ms =
     (if pc \<in> set (env_heads env) then
        let n = Suc (loop_iters ms pc) in
        if max_loop_iterations (env_limits env) < n then mfail pc (Max_Loops (max_loop_iterations (env_limits env)))
        else Ok (ms\<lparr>loop_iters := (loop_iters ms)(pc := n)\<rparr>)
      else Ok ms)"

definition check_states :: "mini_env \<Rightarrow> u32 \<Rightarrow> mini_state \<Rightarrow> (mini_error, mini_state) res" where
  "check_states env pc ms =
     (if max_states (env_limits env) < length (checkpoints ms) then mfail pc (Max_States (max_states (env_limits env)))
      else Ok ms)"

definition record_arrival :: "u32 \<Rightarrow> bpf_insn \<Rightarrow> verifier_state \<Rightarrow> mini_state \<Rightarrow> mini_state" where
  "record_arrival pc insn cleaned ms =
     ms\<lparr>analyzed := (analyzed ms)(pc := analyzed ms pc @ [cleaned]),
        jmps_processed := jmps_processed ms +
          of_bool (is_control_flow insn \<or> (case insn of Call h \<Rightarrow> True | _ \<Rightarrow> False))\<rparr>"

section \<open>Precision sites\<close>

fun insn_dst :: "bpf_insn \<Rightarrow> u8" where
  "insn_dst (MovImm dst imm) = dst"
| "insn_dst (MovReg dst src) = dst"
| "insn_dst (Mov32Imm dst imm) = dst"
| "insn_dst (Mov32Reg dst src) = dst"
| "insn_dst (AluImm op w dst imm) =
     (if op \<in> {Bin_Add, Bin_Sub, Bin_And, Bin_Or, Bin_Xor, Bin_Lsh, Bin_Rsh, Bin_Arsh} then dst else 0)"
| "insn_dst (AluReg op w dst src) =
     (if op \<in> {Bin_Add, Bin_Sub, Bin_And, Bin_Or, Bin_Xor, Bin_Lsh, Bin_Rsh, Bin_Arsh} then dst else 0)"
| "insn_dst (LdMem dst base off sz se) = dst"
| "insn_dst (LdImm64 dst imm) = dst"
| "insn_dst (LdMapFd dst fd ks vs mt) = dst"
| "insn_dst (LdMapValue dst fd off ks vs) = dst"
| "insn_dst (CondReg op dst src off) = dst"
| "insn_dst (CondImm op dst imm off) = dst"
| "insn_dst (Jset dst src off) = dst"
| "insn_dst (JsetImm dst imm off) = dst"
| "insn_dst (Jmp32 dst src imm off op) = dst"
| "insn_dst insn = 0"

fun insn_src :: "bpf_insn \<Rightarrow> u8 option" where
  "insn_src (MovReg dst src) = Some src"
| "insn_src (AluReg op w dst src) =
     (if op \<in> {Bin_Add, Bin_Sub, Bin_And, Bin_Or, Bin_Xor, Bin_Lsh, Bin_Rsh, Bin_Arsh} then Some src else None)"
| "insn_src (CondReg op dst src off) = Some src"
| "insn_src insn = None"

definition is_pointer :: "reg_state \<Rightarrow> bool" where
  "is_pointer r \<longleftrightarrow> (case r of Uninit \<Rightarrow> False | Scalar b \<Rightarrow> False | _ \<Rightarrow> True)"

definition is_scalar :: "reg_state \<Rightarrow> bool" where
  "is_scalar r \<longleftrightarrow> (case r of Scalar b \<Rightarrow> True | _ \<Rightarrow> False)"

fun offset_alu :: "bpf_insn \<Rightarrow> bool" where
  "offset_alu (AluReg op w dst src) \<longleftrightarrow>
     op = Bin_Add \<or> op = Bin_Sub \<or> op \<in> {Bin_And, Bin_Or, Bin_Xor} \<and> w = W64"
| "offset_alu insn \<longleftrightarrow> False"

fun add_reg64 :: "bpf_insn \<Rightarrow> bool" where
  "add_reg64 (AluReg op w dst src) \<longleftrightarrow> op = Bin_Add \<and> w = W64"
| "add_reg64 insn \<longleftrightarrow> False"

definition precision_regs :: "bpf_insn \<Rightarrow> verifier_state \<Rightarrow> nat \<Rightarrow> u16" where
  "precision_regs insn s count =
     (let dst = insn_dst insn; src = insn_src insn in
      if is_conditional_branch insn \<and> count = 1 then
        reg_bit dst OR (case src of Some r \<Rightarrow> reg_bit r | None \<Rightarrow> 0)
      else case src of
        None \<Rightarrow> 0
      | Some r \<Rightarrow>
          if offset_alu insn \<and> is_pointer (regs s ! unat dst) \<and> is_scalar (regs s ! unat r) then reg_bit r
          else if add_reg64 insn \<and> is_scalar (regs s ! unat dst) \<and> is_pointer (regs s ! unat r) then reg_bit dst
          else 0)"

section \<open>One item\<close>

fun stack_slots_of :: "u32 \<Rightarrow> bpf_insn \<Rightarrow> verifier_state \<Rightarrow> (nat \<times> nat) option" where
  "stack_slots_of pc insn s =
     (case stack_access insn of
        Some (base, off, sz) \<Rightarrow>
          (case regs s ! unat base of
             PtrToStack mn mx al f \<Rightarrow>
               (case stack_access_range pc base s off (mem_bytes sz) of Ok r \<Rightarrow> Some r | Err e \<Rightarrow> None)
           | _ \<Rightarrow> None)
      | None \<Rightarrow> None)"

text \<open>The item after an arrival that was not pruned: \<open>last_cp\<close> is the checkpoint its successors descend from.\<close>

definition push_successors ::
  "mini_env \<Rightarrow> work_item \<Rightarrow> bpf_insn \<Rightarrow> nat option \<Rightarrow> successors \<Rightarrow> mini_state \<Rightarrow> mini_state" where
  "push_successors env item insn last_cp nexts ms =
     (let stored = (last_cp \<noteq> wi_last_cp item);
          need = precision_regs insn (wi_state item) (length nexts);
          cps = (if need = 0 then checkpoints ms
                 else mark_chain_precision (env_prog env) last_cp (if stored then [] else wi_history item) need
                        (checkpoints ms));
          entry = \<lparr>he_pc = wi_pc item, he_slots = stack_slots_of (wi_pc item) insn (wi_state item)\<rparr>;
          history = (if stored then [entry] else wi_history item @ [entry]);
          items = map (\<lambda>(pc', s'). \<lparr>wi_pc = pc', wi_state = s', wi_last_cp = last_cp, wi_history = history\<rparr>) nexts
      in ms\<lparr>worklist := items @ worklist ms,
            checkpoints := bump_down (wi_last_cp item) (fold (\<lambda>_. bump_up last_cp) nexts cps)\<rparr>)"

definition push_returned :: "work_item \<Rightarrow> successors \<Rightarrow> mini_state \<Rightarrow> mini_state" where
  "push_returned item nexts ms =
     (let items = map (\<lambda>(pc', s'). \<lparr>wi_pc = pc', wi_state = s', wi_last_cp = wi_last_cp item, wi_history = []\<rparr>) nexts
      in ms\<lparr>worklist := items @ worklist ms,
            checkpoints := bump_down (wi_last_cp item) (fold (\<lambda>_. bump_up (wi_last_cp item)) nexts (checkpoints ms))\<rparr>)"

definition mini_item :: "mini_env \<Rightarrow> work_item \<Rightarrow> mini_state \<Rightarrow> (mini_error, mini_state) res" where
  "mini_item env item ms =
     (let pc = wi_pc item in
      if length (env_prog env) \<le> unat pc then mfail pc Pc_Out_Of_Range
      else
        let insn = env_prog env ! unat pc; cleaned = arrival_state env pc (wi_state item);
            ms0 = ms\<lparr>insn_processed := Suc (insn_processed ms)\<rparr> in
        rbind (mini_arrive env item cleaned ms0) (\<lambda>r.
        case r of
          Pruned ms1 \<Rightarrow> Ok ms1
        | Arrived ms1 last_cp \<Rightarrow>
            rbind (count_loop env pc ms1) (\<lambda>ms2.
            rbind (check_states env pc ms2) (\<lambda>ms3.
            let ms4 = record_arrival pc insn cleaned ms3 in
            rbind (mini_expand pc insn (wi_state item)) (\<lambda>nexts.
              Ok (if insn = Exit then push_returned item nexts ms4
                  else push_successors env item insn last_cp nexts ms4))))))"

fun mini_loop :: "mini_env \<Rightarrow> nat \<Rightarrow> mini_state \<Rightarrow> (mini_error, mini_state) res" where
  "mini_loop env n ms =
     (case worklist ms of
        [] \<Rightarrow> Ok ms
      | item # rest \<Rightarrow>
          (case n of
             0 \<Rightarrow> mfail (wi_pc item) (Max_Steps (max_steps (env_limits env)))
           | Suc k \<Rightarrow> rbind (mini_item env item (ms\<lparr>worklist := rest\<rparr>)) (mini_loop env k)))"

definition mini_start :: "prog_type \<Rightarrow> mini_state" where
  "mini_start t =
     \<lparr>worklist = [\<lparr>wi_pc = 0, wi_state = initial_with t, wi_last_cp = None, wi_history = []\<rparr>], checkpoints = [],
      visited_cps = (\<lambda>_. []), analyzed = (\<lambda>_. []), loop_iters = (\<lambda>_. 0), insn_processed = 0, jmps_processed = 0,
      prev_insn_processed = 0, prev_jmps_processed = 0\<rparr>"

text \<open>The exploration with its final state; the sources return the number of checkpoints and the recorded states.\<close>

definition mini_explore :: "bpf_insn list \<Rightarrow> u32 list \<Rightarrow> verifier_limits \<Rightarrow> (mini_error, mini_state) res" where
  "mini_explore prog heads limits =
     (case live_analyze prog of
        None \<Rightarrow> Err (Mini_Exec Exec_Panic)
      | Some lv \<Rightarrow>
          mini_loop \<lparr>env_prog = prog, env_live = lv, env_prune = compute_prune_points prog, env_heads = heads,
                     env_limits = limits\<rparr> (max_steps limits) (mini_start (lim_prog_type limits)))"

definition verify_mini_core ::
  "bpf_insn list \<Rightarrow> u32 list \<Rightarrow> verifier_limits \<Rightarrow> (mini_error, nat \<times> (u32 \<Rightarrow> verifier_state list)) res" where
  "verify_mini_core prog heads limits =
     rbind (mini_explore prog heads limits) (\<lambda>ms. Ok (length (checkpoints ms), analyzed ms))"

end
