(* ===== verification/Mini_Inv.thy ===== *)
theory Mini_Inv
  imports Mini
begin

text \<open>
  Invariants of the path exploration. Every operation on the checkpoints keeps their number, parents and hit counts
  (\<open>same_shape\<close>), except that a new one is stored and a pruned arrival counts a hit; the indices in the lists of stored
  checkpoints stay valid (\<open>mini_ok\<close>). \<open>path_reach\<close> is the inductive set of states \<open>mini_expand\<close> reaches from
  the initial state: an exploration that ends without an error and without a hit has expanded and recorded all of it.
\<close>

section \<open>Hits\<close>

definition hits :: "checkpoint list \<Rightarrow> nat" where
  "hits cps = sum_list (map cp_hit_cnt cps)"

text \<open>An update of checkpoints that keeps their number, parents and hit counts.\<close>

definition same_shape :: "checkpoint list \<Rightarrow> checkpoint list \<Rightarrow> bool" where
  "same_shape cps cps' \<longleftrightarrow> map cp_parent cps' = map cp_parent cps \<and> map cp_hit_cnt cps' = map cp_hit_cnt cps"

lemma same_shape_refl [simp]: "same_shape cps cps"
  by (simp add: same_shape_def)

lemma same_shape_trans: "same_shape a b \<Longrightarrow> same_shape b c \<Longrightarrow> same_shape a c"
  by (simp add: same_shape_def)

lemma same_shape_length: "same_shape a b \<Longrightarrow> length b = length a"
  by (metis same_shape_def length_map)

lemma same_shape_hits: "same_shape a b \<Longrightarrow> hits b = hits a"
  by (simp add: same_shape_def hits_def)

lemma map_update_at: "(\<And>cp. g (f cp) = g cp) \<Longrightarrow> map g (update_at i f cps) = map g cps"
  by (cases "i < length cps") (simp_all add: update_at_def map_update list_update_same_conv list_update_beyond)

lemma update_same_shape:
  assumes "\<And>cp. cp_parent (f cp) = cp_parent cp" "\<And>cp. cp_hit_cnt (f cp) = cp_hit_cnt cp"
  shows "same_shape cps (update_at i f cps)"
  using assms by (simp add: same_shape_def map_update_at)

lemma fold_same_shape: "(\<And>i cps. same_shape cps (g i cps)) \<Longrightarrow> same_shape cps (fold g is cps)"
  by (induction "is" arbitrary: cps) (auto intro: same_shape_trans)

lemma bump_shape [simp]: "same_shape cps (bump_up last_cp cps)" "same_shape cps (bump_down last_cp cps)"
  unfolding bump_up_def bump_down_def by (intro fold_same_shape update_same_shape; simp)+

lemma mark_all_shape [simp]: "same_shape cps (mark_all_scalars_precise last_cp cps)"
  unfolding mark_all_scalars_precise_def by (intro fold_same_shape update_same_shape; simp)

lemma mark_checkpoint_shape: "mark_checkpoint i bt cps = (cps', bt') \<Longrightarrow> same_shape cps cps'"
  by (auto simp: mark_checkpoint_def update_same_shape)

lemma walk_chain_shape: "same_shape cps (walk_chain prog segs last_cp bt cps)"
proof (induction prog segs last_cp bt cps rule: walk_chain.induct)
  case (2 prog seg segs last_cp bt cps)
  obtain r b where w: "walk_segment prog (rev seg) bt = (r, b)" by (metis surj_pair)
  show ?case
  proof (cases "r = Bt_Continue \<and> last_cp \<noteq> None")
    case True
    then obtain i where i: "r = Bt_Continue" "last_cp = Some i" by auto
    obtain cps' b' where m: "mark_checkpoint i b cps = (cps', b')" by (metis surj_pair)
    then show ?thesis
      using "2.IH" w i mark_checkpoint_shape [OF m] by (auto simp: w intro: same_shape_trans)
  next
    case False
    then show ?thesis using w by (cases r) auto
  qed
qed simp

lemma mark_chain_shape [simp]: "same_shape cps (mark_chain_precision prog last_cp seg need cps)"
  by (simp add: mark_chain_precision_def Let_def walk_chain_shape del: walk_chain.simps)

lemma visit_list_done:
  "visit_list cur live wait is cps add evict = Visit_Done cps' add' evict' \<Longrightarrow> same_shape cps cps'"
proof (induction cur live wait "is" cps add evict rule: visit_list.induct)
  case (2 cur live wait i "is" cps add evict)
  have "same_shape cps (update_at i (cp_miss_cnt_update Suc) cps)" by (simp add: update_same_shape)
  with 2 show ?case
    by (auto simp: Let_def split: if_split_asm intro: same_shape_trans)
qed simp

lemma hits_hit: "i < length cps \<Longrightarrow> hits (update_at i (cp_hit_cnt_update Suc) cps) = Suc (hits cps)"
  by (simp add: hits_def update_at_def map_update sum_list_update)

lemma visit_list_pruned:
  "visit_list cur live wait is cps add evict = Visit_Pruned cps' \<Longrightarrow> \<forall>i \<in> set is. i < length cps \<Longrightarrow>
   length cps' = length cps \<and> hits cps' = Suc (hits cps)"
proof (induction cur live wait "is" cps add evict rule: visit_list.induct)
  case (2 cur live wait i "is" cps add evict)
  have miss: "same_shape cps (update_at i (cp_miss_cnt_update Suc) cps)" by (simp add: update_same_shape)
  have hit: "length (update_at i (cp_hit_cnt_update Suc) cps) = length cps \<and>
      hits (update_at i (cp_hit_cnt_update Suc) cps) = Suc (hits cps)"
    using 2(3) hits_hit by (simp add: update_at_def)
  show ?case
    using 2 hit same_shape_length [OF miss] same_shape_hits [OF miss]
    by (auto simp: Let_def split: if_split_asm)
qed simp

section \<open>One item\<close>

definition mini_ok :: "mini_state \<Rightarrow> bool" where
  "mini_ok ms \<longleftrightarrow> (\<forall>pc. \<forall>i \<in> set (visited_cps ms pc). i < length (checkpoints ms))"

definition mini_hits :: "mini_state \<Rightarrow> nat" where
  "mini_hits ms = hits (checkpoints ms)"

definition item_key :: "work_item \<Rightarrow> u32 \<times> verifier_state" where
  "item_key item = (wi_pc item, wi_state item)"

lemma arrive_pruned:
  assumes "mini_ok ms" "mini_arrive env item cleaned ms = Ok (Pruned ms')"
  shows "mini_ok ms' \<and> worklist ms' = worklist ms \<and> mini_hits ms' = Suc (mini_hits ms) \<and> analyzed ms' = analyzed ms"
proof -
  obtain cps where v: "visit_list cleaned (live_regs_before (env_live env) (wi_pc item))
      (insn_processed ms - prev_insn_processed ms < 100 \<and> jmps_processed ms - prev_jmps_processed ms < 20)
      (visited_cps ms (wi_pc item)) (checkpoints ms)
      (64 \<le> length (wi_history item) \<or> 8 \<le> insn_processed ms - prev_insn_processed ms \<and> 2 \<le> jmps_processed ms - prev_jmps_processed ms)
      [] = Visit_Pruned cps"
    and ms': "ms' = ms\<lparr>checkpoints := bump_down (wi_last_cp item) cps\<rparr>"
    using assms(2) by (auto simp: mini_arrive_def is_state_visited_def Let_def split: visit_outcome.split_asm if_split_asm)
  have "length cps = length (checkpoints ms) \<and> hits cps = Suc (mini_hits ms)"
    unfolding mini_hits_def by (rule visit_list_pruned [OF v]) (use assms(1) in \<open>auto simp: mini_ok_def\<close>)
  then show ?thesis
    using assms(1) ms' same_shape_length [OF bump_shape(2)] same_shape_hits [OF bump_shape(2)]
    by (simp add: mini_ok_def mini_hits_def)
qed

lemma arrive_arrived:
  assumes "mini_ok ms" "mini_arrive env item cleaned ms = Ok (Arrived ms' last_cp)"
  shows "mini_ok ms' \<and> worklist ms' = worklist ms \<and> mini_hits ms' = mini_hits ms \<and> analyzed ms' = analyzed ms"
proof (cases "env_prune env ! unat (wi_pc item)")
  case True
  then obtain cps add evict where v: "visit_list cleaned (live_regs_before (env_live env) (wi_pc item))
      (insn_processed ms - prev_insn_processed ms < 100 \<and> jmps_processed ms - prev_jmps_processed ms < 20)
      (visited_cps ms (wi_pc item)) (checkpoints ms)
      (64 \<le> length (wi_history item) \<or> 8 \<le> insn_processed ms - prev_insn_processed ms \<and> 2 \<le> jmps_processed ms - prev_jmps_processed ms)
      [] = Visit_Done cps add evict"
    and ms': "ms' = (let ms1 = ms\<lparr>checkpoints := cps,
        visited_cps := (visited_cps ms)(wi_pc item := filter (\<lambda>i. i \<notin> set evict) (visited_cps ms (wi_pc item)))\<rparr>
      in if add then store_checkpoint (wi_pc item) cleaned item ms1 else ms1)"
    using assms(2) by (auto simp: mini_arrive_def is_state_visited_def Let_def split: visit_outcome.split_asm if_split_asm)
  note shape = same_shape_length [OF visit_list_done [OF v]] same_shape_hits [OF visit_list_done [OF v]]
  show ?thesis
    using assms(1) shape unfolding ms'
    by (auto simp: mini_ok_def mini_hits_def Let_def store_checkpoint_def hits_def less_Suc_eq)
next
  case False
  then show ?thesis using assms by (simp add: mini_arrive_def)
qed

definition recorded_at :: "mini_env \<Rightarrow> work_item \<Rightarrow> (u32 \<Rightarrow> verifier_state list) \<Rightarrow> u32 \<Rightarrow> verifier_state list" where
  "recorded_at env item an =
     an(wi_pc item := an (wi_pc item) @ [arrival_state env (wi_pc item) (wi_state item)])"

text \<open>What one item does: it is pruned, which is a hit, or it is expanded and its successors are pushed.\<close>

lemma mini_item_cases:
  assumes ok: "mini_ok ms" and r: "mini_item env item ms = Ok ms'"
  obtains (pruned) "mini_ok ms'" "worklist ms' = worklist ms" "mini_hits ms < mini_hits ms'" "analyzed ms' = analyzed ms"
    | (expanded) nexts items where "mini_ok ms'" "mini_hits ms' = mini_hits ms" "unat (wi_pc item) < length (env_prog env)"
      "mini_expand (wi_pc item) (env_prog env ! unat (wi_pc item)) (wi_state item) = Ok nexts"
      "worklist ms' = items @ worklist ms" "map item_key items = nexts" "analyzed ms' = recorded_at env item (analyzed ms)"
proof -
  let ?ms0 = "ms\<lparr>insn_processed := Suc (insn_processed ms)\<rparr>"
  let ?insn = "env_prog env ! unat (wi_pc item)" and ?cl = "arrival_state env (wi_pc item) (wi_state item)"
  have ok0: "mini_ok ?ms0" using ok by (simp add: mini_ok_def)
  have pc: "unat (wi_pc item) < length (env_prog env)"
    using r by (auto simp: mini_item_def Let_def split: if_split_asm)
  obtain a where a: "mini_arrive env item ?cl ?ms0 = Ok a"
    using r pc by (auto simp: mini_item_def Let_def rbind_Ok_iff)
  show thesis
  proof (cases a)
    case (Pruned ms1)
    then have "ms' = ms1" using r pc a by (simp add: mini_item_def Let_def)
    then show thesis
      using pruned arrive_pruned [OF ok0 a [unfolded Pruned]] by (simp add: mini_hits_def)
  next
    case (Arrived ms1 last_cp)
    note ar = arrive_arrived [OF ok0 a [unfolded Arrived]]
    obtain ms2 ms3 nexts where c: "count_loop env (wi_pc item) ms1 = Ok ms2" "check_states env (wi_pc item) ms2 = Ok ms3"
      and nexts: "mini_expand (wi_pc item) ?insn (wi_state item) = Ok nexts"
      and ms': "ms' = (if ?insn = Exit then push_returned item nexts (record_arrival (wi_pc item) ?insn ?cl ms3)
        else push_successors env item ?insn last_cp nexts (record_arrival (wi_pc item) ?insn ?cl ms3))"
      using r pc a Arrived by (auto simp: mini_item_def Let_def rbind_Ok_iff)
    let ?ms4 = "record_arrival (wi_pc item) ?insn ?cl ms3"
    have ms4: "worklist ?ms4 = worklist ms" "mini_hits ?ms4 = mini_hits ms" "mini_ok ?ms4"
      "analyzed ?ms4 = recorded_at env item (analyzed ms)"
      using c ar by (auto simp: recorded_at_def record_arrival_def count_loop_def check_states_def Let_def mini_ok_def mini_hits_def split: if_split_asm)
    have shape: "same_shape (checkpoints ?ms4) (checkpoints ms') \<and> visited_cps ms' = visited_cps ?ms4 \<and> analyzed ms' = analyzed ?ms4 \<and>
        (\<exists>items. worklist ms' = items @ worklist ?ms4 \<and> map item_key items = nexts)"
    proof (cases "?insn = Exit")
      case True
      have "same_shape cps (bump_down l (fold (\<lambda>_. bump_up l) nexts cps))" for l cps
        by (intro same_shape_trans [OF fold_same_shape bump_shape(2)]) simp
      then show ?thesis
        using True ms' by (auto simp: push_returned_def Let_def item_key_def comp_def case_prod_unfold)
    next
      case False
      have "same_shape cps (bump_down l (fold (\<lambda>_. bump_up k) nexts cps'))" if "same_shape cps cps'" for l k cps cps'
        by (intro same_shape_trans [OF that] same_shape_trans [OF fold_same_shape bump_shape(2)]) simp
      then show ?thesis
        using False ms' by (auto simp: push_successors_def Let_def item_key_def comp_def case_prod_unfold)
    qed
    then obtain items where items: "worklist ms' = items @ worklist ?ms4" "map item_key items = nexts" by blast
    have "mini_ok ms'" "mini_hits ms' = mini_hits ms"
      using shape ms4 same_shape_length same_shape_hits by (fastforce simp: mini_ok_def mini_hits_def)+
    then show thesis using expanded pc nexts items ms4(1,4) shape by simp
  qed
qed

section \<open>Reachable states\<close>

text \<open>The states on the paths of a program, without any pruning.\<close>

inductive path_reach :: "bpf_insn list \<Rightarrow> prog_type \<Rightarrow> u32 \<Rightarrow> verifier_state \<Rightarrow> bool" for prog t where
  pr_start: "path_reach prog t 0 (initial_with t)"
| pr_step: "path_reach prog t pc s \<Longrightarrow> unat pc < length prog \<Longrightarrow> mini_expand pc (prog ! unat pc) s = Ok succs \<Longrightarrow>
    (pc', s') \<in> set succs \<Longrightarrow> path_reach prog t pc' s'"

definition expandable :: "bpf_insn list \<Rightarrow> u32 \<times> verifier_state \<Rightarrow> (u32 \<times> verifier_state) set \<Rightarrow> bool" where
  "expandable prog q S \<longleftrightarrow> unat (fst q) < length prog \<and>
     (\<exists>succs. mini_expand (fst q) (prog ! unat (fst q)) (snd q) = Ok succs \<and> set succs \<subseteq> S)"

definition recorded :: "mini_env \<Rightarrow> mini_state \<Rightarrow> u32 \<times> verifier_state \<Rightarrow> bool" where
  "recorded env ms q \<longleftrightarrow> arrival_state env (fst q) (snd q) \<in> set (analyzed ms (fst q))"

text \<open>The frontier: every state of \<open>D\<close> was expanded and recorded, and its successors are in \<open>D\<close> or pending.\<close>

definition frontier :: "mini_env \<Rightarrow> (u32 \<times> verifier_state) set \<Rightarrow> mini_state \<Rightarrow> bool" where
  "frontier env D ms \<longleftrightarrow>
     (\<forall>q \<in> D. expandable (env_prog env) q (D \<union> item_key ` set (worklist ms)) \<and> recorded env ms q)"

definition explored_set :: "mini_env \<Rightarrow> mini_state \<Rightarrow> (u32 \<times> verifier_state) set \<Rightarrow> bool" where
  "explored_set env ms C \<longleftrightarrow> (\<forall>q \<in> C. expandable (env_prog env) q C \<and> recorded env ms q)"

lemma expandable_mono: "expandable prog q S \<Longrightarrow> S \<subseteq> T \<Longrightarrow> expandable prog q T"
  by (auto simp: expandable_def)

lemma recorded_step:
  "analyzed ms' = recorded_at env item (analyzed ms) \<Longrightarrow> recorded env ms q \<or> q = item_key item \<Longrightarrow> recorded env ms' q"
  by (auto simp: recorded_def recorded_at_def item_key_def)

lemma frontier_step:
  assumes "frontier env D ms" "worklist ms = item # rest" "unat (wi_pc item) < length (env_prog env)"
    "mini_expand (wi_pc item) (env_prog env ! unat (wi_pc item)) (wi_state item) = Ok nexts"
    "worklist ms' = items @ rest" "map item_key items = nexts" "analyzed ms' = recorded_at env item (analyzed ms)"
  shows "frontier env (insert (item_key item) D) ms' \<and>
    D \<union> item_key ` set (worklist ms) \<subseteq> insert (item_key item) D \<union> item_key ` set (worklist ms')"
proof
  have pend: "item_key ` set (worklist ms') = set nexts \<union> item_key ` set rest"
    using assms(5) assms(6) [symmetric] by (simp add: image_Un)
  show sub: "D \<union> item_key ` set (worklist ms) \<subseteq> insert (item_key item) D \<union> item_key ` set (worklist ms')"
    unfolding pend assms(2) by auto
  have "expandable (env_prog env) (item_key item) (insert (item_key item) D \<union> item_key ` set (worklist ms'))"
    unfolding pend using assms(3,4) by (auto simp: expandable_def item_key_def)
  then show "frontier env (insert (item_key item) D) ms'"
    using assms(1) recorded_step [OF assms(7)] expandable_mono [OF _ sub] by (auto simp: frontier_def)
qed

lemma mini_loop_closed:
  assumes "mini_loop env n ms = Ok final" "mini_ok ms" "frontier env D ms"
  shows "mini_hits ms \<le> mini_hits final \<and>
    (mini_hits final = mini_hits ms \<longrightarrow>
       (\<exists>C. D \<union> item_key ` set (worklist ms) \<subseteq> C \<and> explored_set env final C))"
  using assms
proof (induction n arbitrary: ms D)
  case 0
  then have "worklist ms = []" "final = ms" by (auto split: list.split_asm)
  with 0 show ?case by (auto simp: frontier_def explored_set_def)
next
  case (Suc n)
  show ?case
  proof (cases "worklist ms")
    case Nil
    with Suc.prems show ?thesis by (auto simp: frontier_def explored_set_def)
  next
    case (Cons item rest)
    let ?ms = "ms\<lparr>worklist := rest\<rparr>"
    obtain ms' where ms': "mini_item env item ?ms = Ok ms'" "mini_loop env n ms' = Ok final"
      using Suc.prems(1) Cons by (auto simp: rbind_Ok_iff)
    have ok: "mini_ok ?ms" using Suc.prems(2) by (simp add: mini_ok_def)
    have h: "mini_hits ?ms = mini_hits ms" by (simp add: mini_hits_def)
    show ?thesis
      using ok ms'(1)
    proof (cases rule: mini_item_cases)
      case pruned
      have "frontier env {} ms'" by (simp add: frontier_def)
      from Suc.IH [OF ms'(2) pruned(1) this] show ?thesis using pruned(3) h by linarith
    next
      case (expanded nexts items)
      have "worklist ms' = items @ rest" "analyzed ms' = recorded_at env item (analyzed ms)"
        using expanded(5,7) by simp_all
      note step = frontier_step [OF Suc.prems(3) Cons expanded(3,4) this(1) expanded(6) this(2)]
      then have step: "frontier env (insert (item_key item) D) ms'"
        "D \<union> item_key ` set (worklist ms) \<subseteq> insert (item_key item) D \<union> item_key ` set (worklist ms')" by blast+
      note ih = Suc.IH [OF ms'(2) expanded(1) step(1)]
      show ?thesis
      proof (intro conjI impI)
        show "mini_hits ms \<le> mini_hits final" using ih expanded(2) h by simp
        assume "mini_hits final = mini_hits ms"
        then obtain C where "insert (item_key item) D \<union> item_key ` set (worklist ms') \<subseteq> C" "explored_set env final C"
          using ih expanded(2) h by auto
        then show "\<exists>C. D \<union> item_key ` set (worklist ms) \<subseteq> C \<and> explored_set env final C"
          using step(2) by (meson order_trans)
      qed
    qed
  qed
qed

lemma path_reach_closed:
  assumes "path_reach prog t pc s" "(0, initial_with t) \<in> C" "\<forall>q \<in> C. expandable prog q C"
  shows "(pc, s) \<in> C"
  using assms(1)
proof (induction rule: path_reach.induct)
  case (pr_step pc s succs pc' s')
  then show ?case using assms(3) by (fastforce simp: expandable_def)
qed (use assms(2) in simp)

lemma accepted_paths:
  assumes run: "mini_loop env n (mini_start t) = Ok final" and hits: "mini_hits final = 0"
    and reach: "path_reach (env_prog env) t pc s"
  shows "unat pc < length (env_prog env) \<and> (\<exists>succs. mini_expand pc (env_prog env ! unat pc) s = Ok succs) \<and>
    arrival_state env pc s \<in> set (analyzed final pc)"
proof -
  have start: "mini_ok (mini_start t)" "frontier env {} (mini_start t)" "mini_hits (mini_start t) = 0"
    "item_key ` set (worklist (mini_start t)) = {(0, initial_with t)}"
    by (simp_all add: mini_ok_def frontier_def mini_start_def mini_hits_def hits_def item_key_def)
  obtain C where C: "(0, initial_with t) \<in> C" "explored_set env final C"
    using mini_loop_closed [OF run start(1,2)] start(3,4) hits by auto
  then have "\<forall>q \<in> C. expandable (env_prog env) q C" by (simp add: explored_set_def)
  then have "(pc, s) \<in> C" using path_reach_closed [OF reach C(1)] by blast
  then show ?thesis using C(2) by (force simp: explored_set_def expandable_def recorded_def)
qed

end
