(* ===== verification/Concrete_Run.thy ===== *)
theory Concrete_Run
  imports Expand Liveness
begin

text \<open>
  The exploration of the interpreter, \<open>run_concrete_with_maps\<close> of \<open>src/src/concrete.rs\<close>: a worklist with exact
  deduplication, the recorded states, the budgets and the outcomes at the outermost \<open>exit\<close>. As in \<open>Mini\<close>, the step
  counter is what is left of \<open>max_steps\<close>, and the top of the worklist is the head of the list.
\<close>

record concrete_limits =
  cl_max_states :: nat
  cl_max_steps :: nat
  cl_max_loop_iterations :: nat
  cl_prog_type :: prog_type

record concrete_run =
  run_visited :: "(u32 \<times> concrete_state) list"
  run_outcomes :: "(u32 \<times> concrete_state) list"
  run_inconclusive :: bool
  run_no_exit :: bool

record run_state =
  rs_worklist :: "(u32 \<times> concrete_state) list"
  rs_seen :: "u32 \<Rightarrow> concrete_state list"
  rs_order :: "(u32 \<times> concrete_state) list"
  rs_iters :: "u32 \<Rightarrow> nat"
  rs_outcomes :: "(u32 \<times> concrete_state) list"
  rs_explored :: nat
  rs_mem :: map_mem

record run_env =
  re_prog :: "bpf_insn list"
  re_live :: liveness
  re_heads :: "u32 list"
  re_limits :: concrete_limits
  re_maps :: map_registry

definition run_result :: "bool \<Rightarrow> run_state \<Rightarrow> concrete_run" where
  "run_result inconclusive rs =
     \<lparr>run_visited = rs_order rs, run_outcomes = rs_outcomes rs, run_inconclusive = inconclusive,
      run_no_exit = (\<not> inconclusive \<and> rs_outcomes rs = [])\<rparr>"

definition record_state :: "run_env \<Rightarrow> u32 \<Rightarrow> concrete_state \<Rightarrow> run_state \<Rightarrow> run_state" where
  "record_state env pc c rs =
     rs\<lparr>rs_seen := (rs_seen rs)(pc := rs_seen rs pc @ [c]),
        rs_order := rs_order rs @
          [(pc, clean_concrete_state (live_regs_before (re_live env) pc) (live_stack_before (re_live env) pc) c)]\<rparr>"

text \<open>The loop budget and the state budget: \<open>None\<close> ends the run inconclusively.\<close>

definition run_budget :: "run_env \<Rightarrow> u32 \<Rightarrow> run_state \<Rightarrow> run_state \<times> bool" where
  "run_budget env pc rs =
     (let heads = (pc \<in> set (re_heads env)); n = Suc (rs_iters rs pc);
          rs1 = (if heads then rs\<lparr>rs_iters := (rs_iters rs)(pc := n)\<rparr> else rs) in
      if heads \<and> cl_max_loop_iterations (re_limits env) < n then (rs1, True)
      else
        let rs2 = rs1\<lparr>rs_explored := Suc (rs_explored rs1)\<rparr>
        in (rs2, cl_max_states (re_limits env) < rs_explored rs2))"

definition record_outcome :: "u32 \<Rightarrow> bpf_insn \<Rightarrow> concrete_state \<Rightarrow> run_state \<Rightarrow> run_state" where
  "record_outcome pc insn c rs =
     (if insn = Exit \<and> ccurframe c = 0 \<and> c \<notin> snd ` set (rs_outcomes rs)
      then rs\<lparr>rs_outcomes := rs_outcomes rs @ [(pc, c)]\<rparr> else rs)"

definition run_item ::
  "run_env \<Rightarrow> u32 \<Rightarrow> concrete_state \<Rightarrow> run_state \<Rightarrow> (concrete_error, run_state) res" where
  "run_item env pc c rs =
     (if length (re_prog env) \<le> unat pc then cfail (InternalError pc)
      else
        let insn = re_prog env ! unat pc in
        rbind (run_expand (re_maps env) pc insn c (rs_mem rs)) (\<lambda>(nexts, mem).
          Ok (record_outcome pc insn c (rs\<lparr>rs_worklist := rev nexts @ rs_worklist rs, rs_mem := mem\<rparr>))))"

fun run_loop :: "run_env \<Rightarrow> nat \<Rightarrow> run_state \<Rightarrow> (concrete_error, concrete_run) res" where
  "run_loop env n rs =
     (case rs_worklist rs of
        [] \<Rightarrow> Ok (run_result False rs)
      | (pc, c) # rest \<Rightarrow>
          (case n of
             0 \<Rightarrow> Ok (run_result True (rs\<lparr>rs_worklist := rest\<rparr>))
           | Suc k \<Rightarrow>
               (let rs = rs\<lparr>rs_worklist := rest\<rparr> in
                if c \<in> set (rs_seen rs pc) then run_loop env k rs
                else case run_budget env pc (record_state env pc c rs) of
                  (rs', True) \<Rightarrow> Ok (run_result True rs')
                | (rs', False) \<Rightarrow> rbind (run_item env pc c rs') (run_loop env k))))"

definition run_start :: "prog_type \<Rightarrow> run_state" where
  "run_start t =
     \<lparr>rs_worklist = [(0, concrete_initial_with t)], rs_seen = (\<lambda>_. []), rs_order = [], rs_iters = (\<lambda>_. 0),
      rs_outcomes = [], rs_explored = 0, rs_mem = Map.empty\<rparr>"

definition run_concrete_with_maps ::
  "bpf_insn list \<Rightarrow> u32 list \<Rightarrow> concrete_limits \<Rightarrow> map_registry \<Rightarrow> (concrete_error, concrete_run) res" where
  "run_concrete_with_maps prog heads limits maps =
     (case live_analyze prog of
        None \<Rightarrow> Err Conc_Panic
      | Some lv \<Rightarrow>
          run_loop \<lparr>re_prog = prog, re_live = lv, re_heads = heads, re_limits = limits, re_maps = maps\<rparr>
            (cl_max_steps limits) (run_start (cl_prog_type limits)))"

end
