(* ===== verification/Sim_Run.thy ===== *)
theory Sim_Run
  imports Sim_Flow Mini_Inv Concrete_Run
begin

text \<open>
  The verifier and the interpreter end to end: a program the path exploration accepts without pruning an arrival, whose
  reachable states stay in the fragment of the simulation, is executed by the interpreter without a failure, and every
  state the interpreter visits is covered by a state of a verifier path.
\<close>

section \<open>Runs\<close>

definition covered_at :: "bpf_insn list \<Rightarrow> prog_type \<Rightarrow> u32 \<Rightarrow> concrete_state \<Rightarrow> bool" where
  "covered_at prog t pc c \<longleftrightarrow> (\<exists>s. path_reach prog t pc s \<and> covers s c)"

text \<open>Every state on a path is expanded without an error, inside the fragment.\<close>

definition paths_sound :: "bpf_insn list \<Rightarrow> prog_type \<Rightarrow> bool" where
  "paths_sound prog t \<longleftrightarrow>
     (\<forall>pc s. path_reach prog t pc s \<longrightarrow> unat pc < length prog \<and> insn_sound pc s (prog ! unat pc) \<and>
        (\<exists>succs. mini_expand pc (prog ! unat pc) s = Ok succs))"

lemma covered_expands:
  assumes sound: "paths_sound prog t" and c: "covered_at prog t pc c"
  shows "unat pc < length prog \<and> (\<exists>qs. run_expand maps pc (prog ! unat pc) c mem = Ok (qs, mem) \<and>
    (\<forall>(pc', c') \<in> set qs. covered_at prog t pc' c'))"
proof -
  obtain s where s: "path_reach prog t pc s" "covers s c" using c by (auto simp: covered_at_def)
  then obtain succs where e: "unat pc < length prog" "insn_sound pc s (prog ! unat pc)"
    "mini_expand pc (prog ! unat pc) s = Ok succs"
    using sound unfolding paths_sound_def by blast
  have "covered_at prog t pc' c'" if "(pc', s') \<in> set succs" "covers s' c'" for pc' s' c'
    using pr_step [OF s(1) e(1,3) that(1)] that(2) by (auto simp: covered_at_def)
  then show ?thesis using e(1) expand_covers [OF s(2) e(2,3), of maps mem] by fastforce
qed

text \<open>At the outermost exit the return value is a number.\<close>

lemma covered_exit:
  assumes sound: "paths_sound prog t" and c: "covered_at prog t pc c" "prog ! unat pc = Exit" "ccurframe c = 0"
  shows "\<exists>x. cregs c ! 0 = Some (CV_Scalar x)"
proof -
  obtain s L where s: "path_reach prog t pc s" "sim L s c" using c(1) by (auto simp: covered_at_def covers_def)
  obtain succs where "mini_expand pc Exit s = Ok succs" using sound s(1) c(2) by (fastforce simp: paths_sound_def)
  moreover have "curframe s = 0" using s(2) c(3) by (simp add: sim_def)
  ultimately obtain b where "regs s ! 0 = Scalar b"
    by (auto simp: mini_expand_def final_exit_def read_reg_Ok_iff split: sum.split_asm reg_state.split_asm)
  moreover have "val_rel L (regs s ! 0) (cregs c ! 0)" using s(2) by (simp add: sim_def regs_rel_def)
  ultimately show ?thesis by (auto simp: val_rel_Scalar)
qed

definition run_covered :: "run_env \<Rightarrow> prog_type \<Rightarrow> run_state \<Rightarrow> bool" where
  "run_covered env t rs \<longleftrightarrow>
     (\<forall>(pc, c) \<in> set (rs_worklist rs). covered_at (re_prog env) t pc c) \<and>
     (\<forall>(pc, d) \<in> set (rs_order rs). \<exists>c. covered_at (re_prog env) t pc c \<and>
        d = clean_concrete_state (live_regs_before (re_live env) pc) (live_stack_before (re_live env) pc) c) \<and>
     (\<forall>(pc, c) \<in> set (rs_outcomes rs). covered_at (re_prog env) t pc c \<and> (\<exists>x. cregs c ! 0 = Some (CV_Scalar x)))"

definition result_covered :: "run_env \<Rightarrow> prog_type \<Rightarrow> concrete_run \<Rightarrow> bool" where
  "result_covered env t run \<longleftrightarrow>
     (\<forall>(pc, d) \<in> set (run_visited run). \<exists>c. covered_at (re_prog env) t pc c \<and>
        d = clean_concrete_state (live_regs_before (re_live env) pc) (live_stack_before (re_live env) pc) c) \<and>
     (\<forall>(pc, c) \<in> set (run_outcomes run). covered_at (re_prog env) t pc c \<and> (\<exists>x. cregs c ! 0 = Some (CV_Scalar x)))"

lemma run_result_covered: "run_covered env t rs \<Longrightarrow> result_covered env t (run_result b rs)"
  by (simp add: run_covered_def result_covered_def run_result_def)

lemma run_budget_same:
  "run_budget env pc rs = (rs', b) \<Longrightarrow>
   rs_worklist rs' = rs_worklist rs \<and> rs_order rs' = rs_order rs \<and> rs_outcomes rs' = rs_outcomes rs"
  by (auto simp: run_budget_def Let_def split: if_split_asm)

lemma run_item_covered:
  assumes sound: "paths_sound (re_prog env) t" and rs: "run_covered env t rs" and c: "covered_at (re_prog env) t pc c"
  obtains rs' where "run_item env pc c rs = Ok rs'" "run_covered env t rs'"
proof -
  let ?insn = "re_prog env ! unat pc"
  obtain qs where qs: "unat pc < length (re_prog env)" "run_expand (re_maps env) pc ?insn c (rs_mem rs) = Ok (qs, rs_mem rs)"
    "\<forall>(pc', c') \<in> set qs. covered_at (re_prog env) t pc' c'"
    using covered_expands [OF sound c, of "re_maps env" "rs_mem rs"] by blast
  have "run_item env pc c rs = Ok (record_outcome pc ?insn c (rs\<lparr>rs_worklist := rev qs @ rs_worklist rs\<rparr>))"
    using qs(1,2) by (simp add: run_item_def Let_def)
  moreover have "run_covered env t (record_outcome pc ?insn c (rs\<lparr>rs_worklist := rev qs @ rs_worklist rs\<rparr>))"
    using rs qs(3) c covered_exit [OF sound c] by (auto simp: run_covered_def record_outcome_def)
  ultimately show thesis by (rule that)
qed

lemma run_loop_Nil: "rs_worklist rs = [] \<Longrightarrow> run_loop env n rs = Ok (run_result False rs)"
  by simp

lemma run_loop_0: "rs_worklist rs = (pc, c) # rest \<Longrightarrow> run_loop env 0 rs = Ok (run_result True (rs\<lparr>rs_worklist := rest\<rparr>))"
  by simp

lemma run_loop_Suc:
  "rs_worklist rs = (pc, c) # rest \<Longrightarrow> run_loop env (Suc k) rs =
     (if c \<in> set (rs_seen rs pc) then run_loop env k (rs\<lparr>rs_worklist := rest\<rparr>)
      else case run_budget env pc (record_state env pc c (rs\<lparr>rs_worklist := rest\<rparr>)) of
        (rs', True) \<Rightarrow> Ok (run_result True rs')
      | (rs', False) \<Rightarrow> rbind (run_item env pc c rs') (run_loop env k))"
  by (subst run_loop.simps) (simp add: Let_def del: run_loop.simps)

declare run_loop.simps [simp del]

lemma run_loop_covered:
  assumes "paths_sound (re_prog env) t" "run_covered env t rs"
  shows "\<exists>run. run_loop env n rs = Ok run \<and> result_covered env t run"
  using assms(2)
proof (induction n arbitrary: rs)
  case 0
  then show ?case
    using run_result_covered [OF 0] run_result_covered [of env t "rs\<lparr>rs_worklist := tl (rs_worklist rs)\<rparr>"]
    by (cases "rs_worklist rs") (auto simp: run_covered_def run_loop_Nil run_loop_0)
next
  case (Suc n)
  show ?case
  proof (cases "rs_worklist rs")
    case Nil
    then show ?thesis using run_result_covered [OF Suc.prems] by (simp add: run_loop_Nil)
  next
    case (Cons q rest)
    obtain pc c where q: "q = (pc, c)" by (cases q)
    let ?rs = "rs\<lparr>rs_worklist := rest\<rparr>"
    have cov: "run_covered env t ?rs" "covered_at (re_prog env) t pc c"
      using Suc.prems Cons q by (auto simp: run_covered_def)
    show ?thesis
    proof (cases "c \<in> set (rs_seen ?rs pc)")
      case True
      then show ?thesis using Suc.IH [OF cov(1)] Cons q by (simp add: run_loop_Suc)
    next
      case False
      let ?rec = "record_state env pc c ?rs"
      obtain rs' b where b: "run_budget env pc ?rec = (rs', b)" by (metis surj_pair)
      have "run_covered env t ?rec" using cov by (auto simp: run_covered_def record_state_def)
      then have rs': "run_covered env t rs'" using run_budget_same [OF b] by (simp add: run_covered_def)
      show ?thesis
      proof (cases b)
        case True
        then show ?thesis using False b Cons q run_result_covered [OF rs'] by (simp add: run_loop_Suc)
      next
        case False': False
        obtain rs'' where "run_item env pc c rs' = Ok rs''" "run_covered env t rs''"
          by (rule run_item_covered [OF assms(1) rs' cov(2)])
        then show ?thesis using False False' b Cons q Suc.IH by (simp add: run_loop_Suc)
      qed
    qed
  qed
qed

lemma run_concrete_covered:
  assumes "paths_sound prog (cl_prog_type limits)" "live_analyze prog = Some lv"
  shows "\<exists>run. run_concrete_with_maps prog heads limits maps = Ok run \<and>
    result_covered \<lparr>re_prog = prog, re_live = lv, re_heads = heads, re_limits = limits, re_maps = maps\<rparr> (cl_prog_type limits) run"
proof -
  let ?env = "\<lparr>re_prog = prog, re_live = lv, re_heads = heads, re_limits = limits, re_maps = maps\<rparr>"
  have "covered_at prog (cl_prog_type limits) 0 (concrete_initial_with (cl_prog_type limits))"
    using covers_initial pr_start by (auto simp: covered_at_def)
  then have "run_covered ?env (cl_prog_type limits) (run_start (cl_prog_type limits))"
    by (simp add: run_covered_def run_start_def)
  from run_loop_covered [OF _ this] show ?thesis using assms by (simp add: run_concrete_with_maps_def)
qed

end
