(* ===== verification/Coverage.thy ===== *)
theory Coverage
  imports Sim_Run
begin

text \<open>
  The coverage check between the two sides (\<open>abstract_covers\<close>, \<open>state_covers\<close>, \<open>check_coverage\<close> of
  \<open>src/src/concrete.rs\<close>): does some recorded abstract state stand for a visited concrete state? States related by the
  simulation pass the check once both sides are cleaned with the same masks.
\<close>

section \<open>The check\<close>

definition stack_ptr_covers :: "i32 \<Rightarrow> i32 \<Rightarrow> u8 \<Rightarrow> u64 \<Rightarrow> bool" where
  "stack_ptr_covers mn mx al v \<longleftrightarrow>
     (let off = v - STACK_BASE in
      sint mn \<le> sint off \<and> sint off \<le> sint mx \<and> (al = ALIGN_UNKNOWN \<or> of_int (sint off mod 8) = al))"

definition map_value_ptr_covers :: "i32 \<Rightarrow> i32 \<Rightarrow> u8 \<Rightarrow> i64 \<Rightarrow> bool" where
  "map_value_ptr_covers mn mx al off \<longleftrightarrow>
     sint mn \<le> sint off \<and> sint off \<le> sint mx \<and> (al = ALIGN_UNKNOWN \<or> of_int (sint off mod 8) = al)"

definition null_or_buffer :: "concrete_value \<Rightarrow> bool" where
  "null_or_buffer v \<longleftrightarrow> (case v of MemPtr a \<Rightarrow> True | CV_Scalar x \<Rightarrow> x = 0 | _ \<Rightarrow> False)"

definition abstract_covers :: "reg_state \<Rightarrow> concrete_value \<Rightarrow> bool" where
  "abstract_covers r v =
     (case r of
        Uninit \<Rightarrow> False
      | Scalar b \<Rightarrow> (case v of CV_Scalar x \<Rightarrow> scalar_covers b x | _ \<Rightarrow> False)
      | PtrToStack mn mx al f \<Rightarrow> (case v of StackPtr a g \<Rightarrow> stack_ptr_covers mn mx al a | _ \<Rightarrow> False)
      | PtrToCtx off \<Rightarrow> (case v of CtxPtr a \<Rightarrow> a = CTX_BASE + scast off | _ \<Rightarrow> False)
      | PtrToMap ks vs mt \<Rightarrow> (case v of MapPtr fd None off \<Rightarrow> True | _ \<Rightarrow> False)
      | PtrToMapValue mn mx al vs i \<Rightarrow> (case v of MapPtr fd (Some e) off \<Rightarrow> map_value_ptr_covers mn mx al off | _ \<Rightarrow> False)
      | PtrToMapValueOrNull vs i \<Rightarrow>
          (case v of
             MapPtr fd (Some e) off \<Rightarrow> 0 \<le> sint off \<and> (vs = 0 \<or> sint off < uint vs)
           | CV_Scalar x \<Rightarrow> x = 0
           | _ \<Rightarrow> False)
      | PtrToMem mn mx al i p \<Rightarrow> null_or_buffer v
      | PtrToMemOrNull i p sz \<Rightarrow> null_or_buffer v
      | PtrToBtfId t i \<Rightarrow> False)"

definition reg_covers :: "reg_state \<times> concrete_value option \<Rightarrow> bool" where
  "reg_covers p = (case snd p of None \<Rightarrow> fst p = Uninit | Some v \<Rightarrow> abstract_covers (fst p) v)"

text \<open>Byte \<open>j\<close> of a frame slot is byte \<open>7 - j\<close> of the value in the slot.\<close>

definition slot_byte :: "u64 \<Rightarrow> nat \<Rightarrow> u64" where
  "slot_byte x j = drop_bit ((7 - j) * 8) x AND 0xFF"

definition byte_covers :: "reg_state option \<Rightarrow> concrete_value \<Rightarrow> nat \<times> stack_byte \<Rightarrow> bool" where
  "byte_covers sp v p =
     (case snd p of
        SB_Misc \<Rightarrow> True
      | SB_Zero \<Rightarrow> slot_byte (value_bits v) (fst p) = 0
      | SB_Spill \<Rightarrow>
          (case sp of
             None \<Rightarrow> False
           | Some r \<Rightarrow>
               (case r of
                  Scalar b \<Rightarrow>
                    if scalar_is_constant b then slot_byte (value_bits v) (fst p) = slot_byte (smin b) (fst p)
                    else abstract_covers r v
                | _ \<Rightarrow> abstract_covers r v))
      | SB_Invalid \<Rightarrow> slot_byte (value_bits v) (fst p) = 0
      | SB_Dynptr \<Rightarrow> False)"

definition slot_covers :: "stack_state \<Rightarrow> nat \<times> concrete_value option \<Rightarrow> bool" where
  "slot_covers st p =
     (case snd p of
        None \<Rightarrow> list_all (\<lambda>b. b = SB_Invalid \<or> b = SB_Misc \<or> b = SB_Dynptr) (slot_bytes st (fst p))
      | Some v \<Rightarrow> list_all (byte_covers (spilled st ! fst p) v) (enumerate 0 (slot_bytes st (fst p))))"

definition state_covers :: "verifier_state \<Rightarrow> concrete_state \<Rightarrow> bool" where
  "state_covers s c \<longleftrightarrow>
     list_all reg_covers (zip (regs s) (cregs c)) \<and> list_all (slot_covers (stack s)) (enumerate 0 (cstack c))"

datatype coverage_kind = Abstract_Missed_Pc | Not_Covered

record coverage_violation =
  cv_pc :: u32
  cv_kind :: coverage_kind
  cv_concrete :: concrete_state
  cv_abstract :: "verifier_state list"

text \<open>The table of recorded states has an entry for an instruction once a state was recorded there.\<close>

definition visit_violation :: "(u32 \<Rightarrow> verifier_state list) \<Rightarrow> u32 \<times> concrete_state \<Rightarrow> coverage_violation list" where
  "visit_violation an p =
     (let pc = fst p; c = snd p in
      if an pc = [] then [\<lparr>cv_pc = pc, cv_kind = Abstract_Missed_Pc, cv_concrete = c, cv_abstract = []\<rparr>]
      else if list_ex (\<lambda>s. state_covers s c) (an pc) then []
      else [\<lparr>cv_pc = pc, cv_kind = Not_Covered, cv_concrete = c, cv_abstract = an pc\<rparr>])"

definition check_coverage :: "(u32 \<Rightarrow> verifier_state list) \<Rightarrow> concrete_run \<Rightarrow> coverage_violation list" where
  "check_coverage an run = concat (map (visit_violation an) (run_visited run))"

section \<open>Values\<close>

lemma slot_byte_eqI: "byte_same (7 - j) x y \<Longrightarrow> slot_byte x j = slot_byte y j"
proof -
  assume b: "byte_same (7 - j) x y"
  have m: "(0xFF :: u64) = mask 8" by (simp add: mask_eq_exp_minus_1)
  show ?thesis
    unfolding slot_byte_def m by (rule bit_word_eqI) (use b in \<open>auto simp: byte_same_def bit_simps mult.commute\<close>)
qed

lemma slot_byte_0 [simp]: "slot_byte 0 j = 0"
  by (simp add: slot_byte_def)

lemma in_bounds_exact: "scalar_is_constant b \<Longrightarrow> in_bounds b x \<Longrightarrow> x = smin b"
proof -
  assume "scalar_is_constant b" "in_bounds b x"
  then have "sint x = sint (smin b)"
    by (auto simp: scalar_is_constant_def in_bounds_def scalar_mem64_def in_signed_def)
  then show ?thesis by (rule signed_word_eqI)
qed

lemma pointer_in_covers: "pointer_in mn mx al (sint off) \<Longrightarrow>
    sint mn \<le> sint off \<and> sint off \<le> sint mx \<and> (al = ALIGN_UNKNOWN \<or> of_int (sint off mod 8) = al)"
  by (auto simp: pointer_in_def)

lemma val_rel_covers: "val_rel L r (Some v) \<Longrightarrow> abstract_covers r v"
proof (cases r)
  case (Scalar b)
  then show "val_rel L r (Some v) \<Longrightarrow> ?thesis"
    by (auto simp: val_rel_Scalar abstract_covers_def in_bounds_def intro: scalar_mem_covers)
next
  case (PtrToStack mn mx al f)
  then show "val_rel L r (Some v) \<Longrightarrow> ?thesis"
    by (auto simp: val_rel_Stack abstract_covers_def stack_ptr_covers_def Let_def dest: pointer_in_covers)
next
  case (PtrToCtx off)
  then show "val_rel L r (Some v) \<Longrightarrow> ?thesis" by (auto simp: val_rel_Ctx abstract_covers_def)
qed simp_all

lemma val_rel_reg_covers: "val_rel L r v \<Longrightarrow> reg_covers (r, v)"
  using val_rel_kinds [of L r v] by (cases v) (auto simp: reg_covers_def val_rel_covers val_rel_Scalar val_rel_Stack val_rel_Ctx)

section \<open>Cells\<close>

lemma byte_covers_full:
  assumes "val_rel L r (Some v)"
  shows "byte_covers (Some r) v (j, SB_Spill)"
proof (cases r)
  case (Scalar b)
  then obtain x where "v = CV_Scalar x" "in_bounds b x" using assms by (auto simp: val_rel_Scalar)
  then show ?thesis
    using val_rel_covers [OF assms] in_bounds_exact Scalar by (simp add: byte_covers_def)
qed (use val_rel_covers [OF assms] in \<open>simp_all add: byte_covers_def\<close>)

lemma byte_covers_partial:
  assumes "partial_rel st k x" "j < 8" "\<forall>r. spilled st ! k = Some r \<longrightarrow> reg_ok n r"
  shows "byte_covers (spilled st ! k) (CV_Scalar x) (j, sbytes st ! (k * 8 + j))"
proof (cases "sbytes st ! (k * 8 + j)")
  case SB_Spill
  then obtain r where r: "spilled st ! k = Some r" using assms(1,2) unfolding partial_rel_def by blast
  then obtain b y where b: "r = Scalar b" "in_bounds b y" "byte_same (7 - j) x y"
    using assms(1,2) SB_Spill unfolding partial_rel_def by blast
  have "abstract_covers r (CV_Scalar x)" using assms(3) r b(1) by (simp add: abstract_covers_def scalar_covers_def)
  then show ?thesis
    using SB_Spill r b slot_byte_eqI [OF b(3)] in_bounds_exact [OF _ b(2)] by (simp add: byte_covers_def)
qed (use assms(1,2) slot_byte_eqI [of j x 0] in \<open>auto simp: byte_covers_def partial_rel_def\<close>)

lemma cell_rel_covers:
  assumes "cell_rel L st k cell" "stack_ok n st" "k < STACK_SLOTS"
  shows "slot_covers st (k, cell)"
proof -
  have len: "length (slot_bytes st k) = 8" and nth: "slot_bytes st k ! j = sbytes st ! (k * 8 + j)" if "j < 8" for j
    using assms(2,3) that by (auto simp: slot_bytes_def stack_ok_def stack_wf_def)
  have ok: "\<forall>r. spilled st ! k = Some r \<longrightarrow> reg_ok n r" using stack_ok_spilled [OF assms(2,3)] by blast
  show ?thesis
  proof (cases cell)
    case None
    then show ?thesis using assms(1) len [of 0] nth by (auto simp: cell_rel_def slot_covers_def list_all_length)
  next
    case (Some v)
    have "byte_covers (spilled st ! k) v (j, slot_bytes st k ! j)" if j: "j < 8" for j
    proof (cases "full_spill st k")
      case True
      then obtain r where r: "spilled st ! k = Some r" "val_rel L r (Some v)" using assms(1) Some by (auto simp: cell_rel_def)
      have "slot_bytes st k ! j = SB_Spill" using True len [of 0] j by (simp add: full_spill_def list_all_length)
      then show ?thesis using byte_covers_full [OF r(2)] r(1) by simp
    next
      case False
      then obtain x where "v = CV_Scalar x" "partial_rel st k x" using assms(1) Some by (auto simp: cell_rel_def)
      then show ?thesis using byte_covers_partial [OF _ j ok] nth [OF j] by simp
    qed
    then show ?thesis using Some len [of 0] by (simp add: slot_covers_def list_all_length nth_enumerate_eq)
  qed
qed

section \<open>Cleaned states\<close>

lemma clean_covers:
  assumes "covers s c"
  shows "state_covers (clean_state s lr ls) (clean_concrete_state lr ls c)"
proof -
  obtain L where wf: "exec_wf s" and sim: "sim L s c" using assms by (auto simp: covers_def)
  have lens: "length (regs s) = NUM_REGS" "length (cregs c) = NUM_REGS" "length (cstack c) = STACK_SLOTS"
    using sim by (simp_all add: sim_def regs_rel_def stack_rel_def)
  have st: "stack_ok (unat (curframe s)) (stack s)" using wf by (simp add: exec_wf_def)
  then have slens: "length (sbytes (stack s)) = STACK_SIZE" "length (spilled (stack s)) = STACK_SLOTS"
    "length (dynptrs (stack s)) = STACK_SLOTS" by (simp_all add: stack_ok_def stack_wf_def)
  have "reg_covers (regs (clean_state s lr ls) ! i, cregs (clean_concrete_state lr ls c) ! i)" if i: "i < NUM_REGS" for i
  proof -
    have "val_rel L (regs s ! i) (cregs c ! i)" using sim i by (simp add: sim_def regs_rel_def)
    then show ?thesis
      using val_rel_reg_covers lens i
      by (auto simp: clean_state_def clean_concrete_state_def nth_enumerate_eq reg_covers_def)
  qed
  moreover have "slot_covers (stack (clean_state s lr ls)) (k, cstack (clean_concrete_state lr ls c) ! k)" if k: "k < STACK_SLOTS" for k
  proof -
    have cell: "cell_rel L (stack s) k (cstack c ! k)" using sim k by (simp add: sim_def stack_rel_def)
    have j: "(k * 8 + j) div 8 = k" "k * 8 + j < STACK_SIZE" if "j < 8" for j using that k by simp_all
    have bytes: "slot_bytes (stack (clean_state s lr ls)) k =
        (if bit ls k then slot_bytes (stack s) k else replicate 8 SB_Invalid)"
      by (rule nth_equalityI) (use k slens j in \<open>auto simp: slot_bytes_def clean_state_def nth_enumerate_eq\<close>)
    have sp: "spilled (stack (clean_state s lr ls)) ! k = (if bit ls k then spilled (stack s) ! k else None)"
      using k slens by (simp add: clean_state_def nth_enumerate_eq)
    have c: "cstack (clean_concrete_state lr ls c) ! k = (if bit ls k then cstack c ! k else None)"
      using k lens by (simp add: clean_concrete_state_def nth_enumerate_eq)
    show ?thesis
      using cell_rel_covers [OF cell st k] by (cases "bit ls k"; cases "cstack c ! k") (simp_all add: slot_covers_def bytes sp c numeral_eq_Suc)
  qed
  moreover have "length (cstack (clean_concrete_state lr ls c)) = STACK_SLOTS" "length (cregs (clean_concrete_state lr ls c)) = NUM_REGS"
    "length (regs (clean_state s lr ls)) = NUM_REGS"
    using lens by (simp_all add: clean_concrete_state_def clean_state_def)
  ultimately show ?thesis
    by (simp add: state_covers_def list_all_length nth_enumerate_eq)
qed

text \<open>A run whose visited states are cleaned states covered by recorded ones has no violation.\<close>

lemma check_coverage_clean:
  assumes "\<forall>(pc, d) \<in> set (run_visited run). \<exists>s c lr ls. covers s c \<and> clean_state s lr ls \<in> set (an pc) \<and>
      d = clean_concrete_state lr ls c"
  shows "check_coverage an run = []"
proof -
  have "visit_violation an p = []" if p: "p \<in> set (run_visited run)" for p
  proof -
    obtain s c lr ls where "covers s c" "clean_state s lr ls \<in> set (an (fst p))" "snd p = clean_concrete_state lr ls c"
      using assms p by (cases p) fastforce
    then show ?thesis using clean_covers [of s c lr ls] by (auto simp: visit_violation_def Let_def list_ex_iff)
  qed
  then show ?thesis by (simp add: check_coverage_def)
qed

section \<open>What the check sees of scalars\<close>

text \<open>
  The states on the worklist have the invariant of the executor, so no scalar in them is marked precise; the recorded
  states are cleaned copies of them, taken before any mark is set on a checkpoint.
\<close>

definition recorded_wf :: "mini_env \<Rightarrow> mini_state \<Rightarrow> bool" where
  "recorded_wf env ms \<longleftrightarrow>
     (\<forall>item \<in> set (worklist ms). exec_wf (wi_state item)) \<and>
     (\<forall>pc. \<forall>d \<in> set (analyzed ms pc). \<exists>s. exec_wf s \<and> d = arrival_state env pc s)"

lemma recorded_wf_step:
  assumes "recorded_wf env ms" "worklist ms = item # rest" "worklist ms' = items @ rest" "map item_key items = nexts"
    "mini_expand (wi_pc item) insn (wi_state item) = Ok nexts" "analyzed ms' = recorded_at env item (analyzed ms)"
  shows "recorded_wf env ms'"
proof -
  have wf: "exec_wf (wi_state item)" using assms(1,2) by (simp add: recorded_wf_def)
  have "exec_wf (wi_state i)" if "i \<in> set items" for i
    using mini_expand_wf [OF wf assms(5), of "wi_pc i"] that assms(4) by (auto simp: item_key_def)
  then show ?thesis
    using assms(1-3,6) wf by (auto simp: recorded_wf_def recorded_at_def)
qed

lemma mini_loop_recorded:
  assumes "mini_loop env n ms = Ok final" "mini_ok ms" "recorded_wf env ms"
  shows "recorded_wf env final"
  using assms
proof (induction n arbitrary: ms)
  case 0
  then show ?case by (auto split: list.split_asm)
next
  case (Suc n)
  show ?case
  proof (cases "worklist ms")
    case Nil
    with Suc.prems show ?thesis by auto
  next
    case (Cons item rest)
    let ?ms = "ms\<lparr>worklist := rest\<rparr>"
    obtain ms' where ms': "mini_item env item ?ms = Ok ms'" "mini_loop env n ms' = Ok final"
      using Suc.prems(1) Cons by (auto simp: rbind_Ok_iff)
    have ok: "mini_ok ?ms" using Suc.prems(2) by (simp add: mini_ok_def)
    have "mini_ok ms' \<and> recorded_wf env ms'"
      using ok ms'(1)
    proof (cases rule: mini_item_cases)
      case pruned
      then show ?thesis using Suc.prems(3) Cons by (simp add: recorded_wf_def)
    next
      case (expanded nexts items)
      then show ?thesis
        using recorded_wf_step [OF Suc.prems(3) Cons _ expanded(6,4)] by simp
    qed
    then show ?thesis using Suc.IH [OF ms'(2)] by blast
  qed
qed

lemma recorded_imprecise:
  assumes "mini_explore prog heads limits = Ok final" "s \<in> set (analyzed final pc)"
    "i < NUM_REGS" "regs s ! i = Scalar b"
  shows "\<not> precise b"
proof -
  obtain lv where run: "mini_loop \<lparr>env_prog = prog, env_live = lv, env_prune = compute_prune_points prog, env_heads = heads,
      env_limits = limits\<rparr> (max_steps limits) (mini_start (lim_prog_type limits)) = Ok final"
    using assms(1) by (auto simp: mini_explore_def split: option.split_asm)
  have "recorded_wf env (mini_start t)" "mini_ok (mini_start t)" for env t
    by (simp_all add: recorded_wf_def mini_start_def mini_ok_def exec_wf_initial)
  from mini_loop_recorded [OF run this(2,1)] obtain t lr ls where t: "exec_wf t" "s = clean_state t lr ls"
    using assms(2) unfolding recorded_wf_def arrival_state_def by blast
  have ok: "regs_ok (unat (curframe t)) (regs t)" using t(1) by (simp add: exec_wf_def)
  then have "regs t ! i = Scalar b"
    using assms(3,4) t(2) by (auto simp: clean_state_def regs_ok_def nth_enumerate_eq split: if_split_asm)
  then show ?thesis using regs_ok_nth [OF ok assms(3)] by simp
qed

end
