(* ===== verification/Soundness.thy ===== *)
theory Soundness
  imports Coverage
begin

text \<open>
  The verifier against the interpreter, end to end: an accepted program of the fragment is executed without a failure, and
  what the interpreter visits is covered by what the verifier recorded.
\<close>

section \<open>The fragment by its instructions\<close>

text \<open>Instructions that are in the fragment of the simulation whatever the state is.\<close>

definition always_sound :: "bpf_insn \<Rightarrow> bool" where
  "always_sound insn =
     (case insn of
        MovImm dst imm \<Rightarrow> True
      | Mov32Imm dst imm \<Rightarrow> True
      | Mov32Reg dst src \<Rightarrow> True
      | LdImm64 dst imm \<Rightarrow> True
      | LdImm64Second imm \<Rightarrow> True
      | MulImm dst imm high \<Rightarrow> high \<noteq> Mul_Low
      | MulReg dst src high \<Rightarrow> high \<noteq> Mul_Low
      | NegInsn w dst \<Rightarrow> True
      | CondImm op dst imm off \<Rightarrow> True
      | Jset dst src off \<Rightarrow> True
      | JsetImm dst imm off \<Rightarrow> True
      | Jmp32 dst src imm off op \<Rightarrow> True
      | Jmp off \<Rightarrow> True
      | Exit \<Rightarrow> True
      | Call h \<Rightarrow> plain_helper h
      | CallSub off \<Rightarrow> scast (ucast off :: i16) = off
      | _ \<Rightarrow> False)"

lemma always_sound: "always_sound insn \<Longrightarrow> insn_sound pc s insn"
  by (cases insn) (auto simp: always_sound_def insn_sound_def straight_sound_def)

lemma accepted_explored:
  assumes "mini_explore prog heads limits = Ok final" "mini_hits final = 0" "path_reach prog (lim_prog_type limits) pc s"
  shows "unat pc < length prog \<and> (\<exists>succs. mini_expand pc (prog ! unat pc) s = Ok succs) \<and>
    (\<exists>lv. live_analyze prog = Some lv \<and>
       clean_state s (live_regs_before lv pc) (live_stack_before lv pc) \<in> set (analyzed final pc))"
proof -
  obtain lv where lv: "live_analyze prog = Some lv"
    and run: "mini_loop \<lparr>env_prog = prog, env_live = lv, env_prune = compute_prune_points prog, env_heads = heads,
      env_limits = limits\<rparr> (max_steps limits) (mini_start (lim_prog_type limits)) = Ok final"
    using assms(1) by (auto simp: mini_explore_def split: option.split_asm)
  show ?thesis using accepted_paths [OF run assms(2), simplified, OF assms(3)] lv by (simp add: arrival_state_def)
qed

lemma accepted_paths_sound:
  assumes acc: "mini_explore prog heads limits = Ok final" "mini_hits final = 0"
    and ok: "\<forall>pc s. path_reach prog (lim_prog_type limits) pc s \<and> unat pc < length prog \<longrightarrow> insn_sound pc s (prog ! unat pc)"
  obtains lv where "live_analyze prog = Some lv" "paths_sound prog (lim_prog_type limits)"
    "\<And>pc s. path_reach prog (lim_prog_type limits) pc s \<Longrightarrow>
      clean_state s (live_regs_before lv pc) (live_stack_before lv pc) \<in> set (analyzed final pc)"
proof -
  obtain lv where lv: "live_analyze prog = Some lv"
    and run: "mini_loop \<lparr>env_prog = prog, env_live = lv, env_prune = compute_prune_points prog, env_heads = heads,
      env_limits = limits\<rparr> (max_steps limits) (mini_start (lim_prog_type limits)) = Ok final"
    using acc(1) by (auto simp: mini_explore_def split: option.split_asm)
  note paths = accepted_paths [OF run acc(2), simplified]
  show thesis
  proof (rule that [OF lv])
    show "paths_sound prog (lim_prog_type limits)" using paths ok by (simp add: paths_sound_def)
    show "clean_state s (live_regs_before lv pc) (live_stack_before lv pc) \<in> set (analyzed final pc)"
      if "path_reach prog (lim_prog_type limits) pc s" for pc s
      using paths [OF that] by (simp add: arrival_state_def)
  qed
qed

section \<open>Short explorations\<close>

text \<open>
  The first eight items of an exploration store no checkpoint, so an exploration that ends within them is the plain
  search of the paths.
\<close>

fun plain_search :: "bpf_insn list \<Rightarrow> nat \<Rightarrow> successors \<Rightarrow> bool" where
  "plain_search prog n [] \<longleftrightarrow> True"
| "plain_search prog 0 (q # work) \<longleftrightarrow> False"
| "plain_search prog (Suc n) ((pc, s) # work) \<longleftrightarrow>
     unat pc < length prog \<and>
     (case mini_expand pc (prog ! unat pc) s of Ok nexts \<Rightarrow> plain_search prog n (nexts @ work) | Err e \<Rightarrow> False)"

definition early :: "mini_state \<Rightarrow> bool" where
  "early ms \<longleftrightarrow> checkpoints ms = [] \<and> visited_cps ms = (\<lambda>_. []) \<and> prev_insn_processed ms = 0 \<and>
     (\<forall>item \<in> set (worklist ms). wi_last_cp item = None \<and> length (wi_history item) \<le> insn_processed ms)"

lemma no_checkpoints [simp]:
  "bump_down None [] = []" "fold (\<lambda>_. bump_up None) xs [] = []" "mark_chain_precision prog None seg need [] = []"
proof -
  show "bump_down None [] = []" by (simp add: bump_down_def cp_chain_def)
  show "fold (\<lambda>_. bump_up None) xs [] = []" by (induction xs) (simp_all add: bump_up_def cp_chain_def)
  have "same_shape [] (mark_chain_precision prog None seg need [])" by simp
  from same_shape_length [OF this] show "mark_chain_precision prog None seg need [] = []" by simp
qed

lemma early_item:
  assumes "early ms" "worklist ms = item # rest" "insn_processed ms < 7" "env_heads env = []"
    "unat (wi_pc item) < length (env_prog env)"
    "mini_expand (wi_pc item) (env_prog env ! unat (wi_pc item)) (wi_state item) = Ok nexts"
  shows "\<exists>ms'. mini_item env item (ms\<lparr>worklist := rest\<rparr>) = Ok ms' \<and> early ms' \<and>
    insn_processed ms' = Suc (insn_processed ms) \<and> map item_key (worklist ms') = nexts @ map item_key rest"
proof -
  let ?ms0 = "ms\<lparr>worklist := rest, insn_processed := Suc (insn_processed ms)\<rparr>"
  have last: "wi_last_cp item = None" "length (wi_history item) < 64" using assms(1,2,3) by (auto simp: early_def)
  have same: "?ms0\<lparr>checkpoints := [], visited_cps := (\<lambda>_. [])(wi_pc item := [])\<rparr> = ?ms0"
    using assms(1) by (cases ms) (simp add: early_def fun_upd_idem)
  have arrive: "mini_arrive env item cleaned ?ms0 = Ok (Arrived ?ms0 None)" for cleaned
    using assms(1,3) last same by (auto simp: mini_arrive_def is_state_visited_def Let_def early_def)
  show ?thesis
    using assms arrive last
    by (auto simp: mini_item_def Let_def count_loop_def check_states_def early_def record_arrival_def push_returned_def
        push_successors_def item_key_def case_prod_unfold comp_def)
qed

lemma early_loop:
  assumes "plain_search (env_prog env) n (map item_key (worklist ms))" "early ms" "insn_processed ms + n \<le> 7" "env_heads env = []"
    "n \<le> m"
  shows "\<exists>final. mini_loop env m ms = Ok final \<and> mini_hits final = 0"
  using assms
proof (induction n arbitrary: ms m)
  case 0
  then show ?case
    by (cases "worklist ms") (auto simp: mini_hits_def hits_def early_def)
next
  case (Suc n)
  show ?case
  proof (cases "worklist ms")
    case Nil
    then show ?thesis using Suc.prems(2) by (auto simp: mini_hits_def hits_def early_def)
  next
    case (Cons item rest)
    obtain k where m: "m = Suc k" "n \<le> k" using Suc.prems(5) by (cases m) auto
    obtain nexts where nexts: "unat (wi_pc item) < length (env_prog env)"
      "mini_expand (wi_pc item) (env_prog env ! unat (wi_pc item)) (wi_state item) = Ok nexts"
      "plain_search (env_prog env) n (nexts @ map item_key rest)"
      using Suc.prems(1) Cons by (auto simp: item_key_def [of item] split: sum.split_asm)
    obtain ms' where ms': "mini_item env item (ms\<lparr>worklist := rest\<rparr>) = Ok ms'" "early ms'"
      "insn_processed ms' = Suc (insn_processed ms)" "map item_key (worklist ms') = nexts @ map item_key rest"
      using early_item [OF Suc.prems(2) Cons _ Suc.prems(4) nexts(1,2)] Suc.prems(3) by auto
    have "\<exists>final. mini_loop env k ms' = Ok final \<and> mini_hits final = 0"
      using ms' nexts(3) Suc.prems(3,4) m(2) by (intro Suc.IH) simp_all
    then show ?thesis using Cons ms'(1) m(1) by simp
  qed
qed

lemma early_explore:
  assumes "static_inside prog" "plain_search prog 7 [(0, initial_with (lim_prog_type limits))]" "7 \<le> max_steps limits"
  shows "\<exists>final. mini_explore prog [] limits = Ok final \<and> mini_hits final = 0"
proof -
  let ?ms = "mini_start (lim_prog_type limits)"
  have "\<exists>final. mini_loop env (max_steps limits) ?ms = Ok final \<and> mini_hits final = 0"
    if "env_prog env = prog" "env_heads env = []" for env
    using assms(2,3) that by (intro early_loop [where n = 7]) (simp_all add: mini_start_def early_def item_key_def)
  then show ?thesis using assms(1) by (simp add: mini_explore_def live_analyze_def Let_def)
qed

lemma accepted_runs:
  assumes acc: "mini_explore prog heads limits = Ok final" "mini_hits final = 0"
    and ok: "\<forall>pc s. path_reach prog (lim_prog_type limits) pc s \<and> unat pc < length prog \<longrightarrow> insn_sound pc s (prog ! unat pc)"
    and t: "cl_prog_type climits = lim_prog_type limits"
  shows "\<exists>lv run. live_analyze prog = Some lv \<and> run_concrete_with_maps prog heads' climits maps = Ok run \<and>
    (\<forall>(pc, c) \<in> set (run_outcomes run). \<exists>x. cregs c ! 0 = Some (CV_Scalar x)) \<and>
    (\<forall>(pc, d) \<in> set (run_visited run). \<exists>s c. covers s c \<and>
       clean_state s (live_regs_before lv pc) (live_stack_before lv pc) \<in> set (analyzed final pc) \<and>
       d = clean_concrete_state (live_regs_before lv pc) (live_stack_before lv pc) c) \<and>
    check_coverage (analyzed final) run = []"
proof -
  obtain lv where lv: "live_analyze prog = Some lv" "paths_sound prog (cl_prog_type climits)"
    "\<And>pc s. path_reach prog (lim_prog_type limits) pc s \<Longrightarrow>
      clean_state s (live_regs_before lv pc) (live_stack_before lv pc) \<in> set (analyzed final pc)"
    using accepted_paths_sound [OF acc ok] t by metis
  from run_concrete_covered [OF lv(2,1), of heads' maps] obtain run
    where run: "run_concrete_with_maps prog heads' climits maps = Ok run"
      "result_covered \<lparr>re_prog = prog, re_live = lv, re_heads = heads', re_limits = climits, re_maps = maps\<rparr>
         (cl_prog_type climits) run" by blast
  have out: "\<exists>x. cregs c ! 0 = Some (CV_Scalar x)" if "(pc, c) \<in> set (run_outcomes run)" for pc c
    using run(2) that by (auto simp: result_covered_def)
  have vis: "\<exists>s c. covers s c \<and> clean_state s (live_regs_before lv pc) (live_stack_before lv pc) \<in> set (analyzed final pc) \<and>
      d = clean_concrete_state (live_regs_before lv pc) (live_stack_before lv pc) c"
    if v: "(pc, d) \<in> set (run_visited run)" for pc d
  proof -
    obtain c where "covered_at prog (cl_prog_type climits) pc c"
      "d = clean_concrete_state (live_regs_before lv pc) (live_stack_before lv pc) c"
      using run(2) v by (auto simp: result_covered_def)
    then show ?thesis using lv(3) t by (auto simp: covered_at_def)
  qed
  have "check_coverage (analyzed final) run = []"
    by (rule check_coverage_clean) (use vis in blast)
  then show ?thesis using lv(1) run(1) out vis by blast
qed


definition tiny_limits :: verifier_limits where
  "tiny_limits = \<lparr>max_states = 8, max_steps = 16, max_loop_iterations = 4, lim_prog_type = SocketFilter\<rparr>"

definition coin_program :: "bpf_insn list" where
  "coin_program = [CallSub 3, CondImm Cond_Ugt 0 10 1, MovImm 0 0, Exit, Call 7, Exit]"

lemma coin_search: "plain_search coin_program 7 [(0, initial_with SocketFilter)]"
  by code_simp

lemma coin_accepted: "\<exists>final. mini_explore coin_program [] tiny_limits = Ok final \<and> mini_hits final = 0"
proof (rule early_explore)
  show "static_inside coin_program" by code_simp
qed (use coin_search in \<open>simp_all add: tiny_limits_def\<close>)

lemma coin_sound:
  "\<forall>pc s. path_reach coin_program t pc s \<and> unat pc < length coin_program \<longrightarrow> insn_sound pc s (coin_program ! unat pc)"
proof -
  have "list_all always_sound coin_program" by code_simp
  then show ?thesis using always_sound by (simp add: list_all_length)
qed


text \<open>
  C8: an exploration that ends without an error and prunes nothing has expanded every state on a path of the
  program: each lies in the program, its instruction is accepted, and its cleaned copy is recorded.
\<close>

theorem accepted_exploration_closed:
  assumes "mini_explore prog heads limits = Ok final" "mini_hits final = 0" "path_reach prog (lim_prog_type limits) pc s"
  shows "unat pc < length prog \<and> (\<exists>succs. mini_expand pc (prog ! unat pc) s = Ok succs) \<and>
    (\<exists>lv. live_analyze prog = Some lv \<and>
       clean_state s (live_regs_before lv pc) (live_stack_before lv pc) \<in> set (analyzed final pc))"
  using accepted_explored [OF assms(1,2)] assms(3) by blast

lemma coin_reach: "\<exists>s. path_reach coin_program SocketFilter 4 s"
proof -
  have "case mini_expand 0 (coin_program ! 0) (initial_with SocketFilter) of Ok [(p, s)] \<Rightarrow> p = 4 | _ \<Rightarrow> False"
    by code_simp
  then obtain s where s: "mini_expand 0 (coin_program ! unat (0 :: u32)) (initial_with SocketFilter) = Ok [(4, s)]"
    by (auto split: sum.split_asm list.split_asm prod.split_asm)
  have "unat (0 :: u32) < length coin_program" by (simp add: coin_program_def)
  from pr_step [OF pr_start this s, of 4 s] show ?thesis by auto
qed

theorem accepted_exploration_closed_witness:
  "\<exists>s succs. path_reach coin_program SocketFilter 4 s \<and> mini_expand 4 (Call 7) s = Ok succs"
proof -
  obtain final s where "mini_explore coin_program [] tiny_limits = Ok final" "mini_hits final = 0"
    "path_reach coin_program SocketFilter 4 s"
    using coin_accepted coin_reach by blast
  with accepted_exploration_closed [of coin_program "[]" tiny_limits final 4 s] show ?thesis
    by (auto simp: tiny_limits_def coin_program_def)
qed



text \<open>
  C12: no scalar of a recorded state is marked precise, so the coverage check of an accepted program takes every
  register that holds a number to cover every number.
\<close>

theorem coverage_never_tests_scalars:
  assumes "mini_explore prog heads limits = Ok final" "s \<in> set (analyzed final pc)" "i < NUM_REGS" "regs s ! i = Scalar b"
  shows "abstract_covers (regs s ! i) (CV_Scalar x)"
  using recorded_imprecise [OF assms] assms(4) by (simp add: abstract_covers_def scalar_covers_def)

definition seven_program :: "bpf_insn list" where
  "seven_program = [MovImm 0 7, Exit]"

theorem coverage_never_tests_scalars_witness:
  "\<exists>final s. mini_explore seven_program [] tiny_limits = Ok final \<and> s \<in> set (analyzed final 1) \<and>
     regs s ! 0 = Scalar (scalar_constant 7) \<and> abstract_covers (regs s ! 0) (CV_Scalar 8)"
proof -
  have inside: "static_inside seven_program" by code_simp
  have "plain_search seven_program 7 [(0, initial_with SocketFilter)]" by code_simp
  then obtain final where final: "mini_explore seven_program [] tiny_limits = Ok final" "mini_hits final = 0"
    using early_explore [OF inside, of tiny_limits] by (auto simp: tiny_limits_def)
  let ?s = "set_reg (initial_with SocketFilter) 0 (Scalar (scalar_constant 7))"
  have step: "mini_expand 0 (seven_program ! unat (0 :: u32)) (initial_with SocketFilter) = Ok [(1, ?s)]"
    by (simp add: seven_program_def mini_expand_def exec_successors_def step_def checked_set_def check_reg_def map_err_def)
  have "unat (0 :: u32) < length seven_program" by (simp add: seven_program_def)
  from pr_step [OF pr_start this step, of 1 ?s] have reach: "path_reach seven_program SocketFilter 1 ?s"
    unfolding list.set by blast
  obtain lv where lv: "live_analyze seven_program = Some lv"
    "clean_state ?s (live_regs_before lv 1) (live_stack_before lv 1) \<in> set (analyzed final 1)"
    using accepted_explored [OF final, of 1 ?s] reach by (auto simp: tiny_limits_def)
  have "read_ahead seven_program 0 0 1" by (rule ra_use) code_simp
  moreover have "unat (1 :: u32) < length seven_program" by (simp add: seven_program_def)
  ultimately have "bit (live_regs_before lv 1) 0" using live_analyze_exact(1) [OF lv(1), of 1 0] by simp
  then have "regs (clean_state ?s (live_regs_before lv 1) (live_stack_before lv 1)) ! 0 = Scalar (scalar_constant 7)"
    by (simp add: clean_state_def set_reg_def initial_with_def initial_reg_state_def nth_enumerate_eq)
  with coverage_never_tests_scalars [OF final(1) lv(2), of 0] show ?thesis using final(1) lv(2) by auto
qed

end
