(* ===== verification/Pipeline.thy ===== *)
theory Pipeline
  imports Soundness Cfg_Search
begin

text \<open>
  The verification environment of \<open>src/src/env.rs\<close>: loading a program (\<open>load_raw\<close>, with the resolution of map
  descriptors) and the pipeline \<open>verify\<close>: subprograms, stack budget, control flow, path exploration, stack budget with
  the recorded states, and the run of the interpreter, which is compared with the recorded states on an accepted
  program (\<open>check_coverage\<close>) and only noted on a rejected one (\<open>reject_with_cross_check\<close>). A panic of any pass is
  \<open>Env_Panic\<close>. Reading files and the rendering of the report are not modelled.
\<close>

section \<open>Data\<close>

datatype verify_failure =
    VF_Decode nat decode_error
  | VF_Unknown_Map nat u32
  | VF_Cfg "cfg_msg failure"
  | VF_Exec "exec_msg failure"
  | VF_Mini "mini_msg failure"

datatype verdict = Verdict_Safe | Verdict_Unsafe verify_failure

record bpf_prog =
  prog_raw :: "u8 list"
  prog_insns :: "bpf_insn list"
  prog_subprogs :: "u32 list"
  prog_cnt :: u32
  prog_decode_error :: "verify_failure option"

datatype concrete_verdict = Conc_Safe | Conc_Unsafe | Conc_Inconclusive

datatype reject_note = Note_Also_Fails concrete_failure | Note_Inconclusive | Note_No_Exit | Note_Executes

record concrete_report =
  rep_violations :: "coverage_violation list"
  rep_inconclusive :: bool
  rep_no_exit :: bool
  rep_failure :: "concrete_failure option"
  rep_note :: "reject_note option"
  rep_verdict :: concrete_verdict

definition report_default :: concrete_report where
  "report_default =
     \<lparr>rep_violations = [], rep_inconclusive = False, rep_no_exit = False, rep_failure = None, rep_note = None,
      rep_verdict = Conc_Safe\<rparr>"

record verifier_env =
  ve_prog :: bpf_prog
  ve_report :: "concrete_report option"
  ve_maps :: map_registry
  ve_type :: prog_type

section \<open>Loading\<close>

datatype load_error = Load_Size nat | Load_Empty

fun resolve_map :: "map_registry \<Rightarrow> bpf_insn \<Rightarrow> (u32, bpf_insn) res" where
  "resolve_map maps (LdMapFd dst fd ks vs mt) =
     (case maps fd of
        Some info \<Rightarrow> Ok (LdMapFd dst fd (mi_key_size info) (mi_value_size info) (mi_type info))
      | None \<Rightarrow> Err fd)"
| "resolve_map maps (LdMapValue dst fd off ks vs) =
     (case maps fd of
        Some info \<Rightarrow> Ok (LdMapValue dst fd off (mi_key_size info) (mi_value_size info))
      | None \<Rightarrow> Err fd)"
| "resolve_map maps insn = Ok insn"

fun resolve_maps :: "map_registry \<Rightarrow> nat \<Rightarrow> bpf_insn list \<Rightarrow> (verify_failure, bpf_insn list) res" where
  "resolve_maps maps i [] = Ok []"
| "resolve_maps maps i (insn # rest) =
     rbind (map_err (VF_Unknown_Map i) (resolve_map maps insn)) (\<lambda>insn'.
     rbind (resolve_maps maps (Suc i) rest) (\<lambda>rest'. Ok (insn' # rest')))"

definition decode_and_resolve :: "map_registry \<Rightarrow> u8 list \<Rightarrow> (verify_failure, bpf_insn list) res" where
  "decode_and_resolve maps raw =
     rbind (map_err (\<lambda>(i, e). VF_Decode i e) (decode_program raw)) (resolve_maps maps 0)"

definition load_raw :: "u8 list \<Rightarrow> verifier_env \<Rightarrow> (load_error, u32 \<times> verifier_env) res" where
  "load_raw raw env =
     (if length raw mod 8 \<noteq> 0 then Err (Load_Size (length raw))
      else if raw = [] then Err Load_Empty
      else
        let cnt = of_nat (length raw div 8); r = decode_and_resolve (ve_maps env) raw in
        Ok (cnt, env\<lparr>ve_prog := (ve_prog env)\<lparr>prog_raw := raw, prog_cnt := cnt,
             prog_insns := (case r of Ok insns \<Rightarrow> insns | Err f \<Rightarrow> []),
             prog_decode_error := (case r of Ok insns \<Rightarrow> None | Err f \<Rightarrow> Some f)\<rparr>\<rparr>))"

section \<open>The pipeline\<close>

datatype env_panic = Env_Panic

type_synonym verify_result = "(env_panic, verdict \<times> verifier_env) res"

definition concrete_limits_for :: "prog_type \<Rightarrow> concrete_limits" where
  "concrete_limits_for t =
     \<lparr>cl_max_states = 1024, cl_max_steps = 100000, cl_max_loop_iterations = 256, cl_prog_type = t\<rparr>"

definition reject_with_cross_check :: "verifier_env \<Rightarrow> u32 list \<Rightarrow> verify_failure \<Rightarrow> verify_result" where
  "reject_with_cross_check env heads failure =
     (let done = (\<lambda>rep. Ok (Verdict_Unsafe failure, env\<lparr>ve_report := Some rep\<rparr>)) in
      case run_concrete_with_maps (prog_insns (ve_prog env)) heads (concrete_limits_for (ve_type env)) (ve_maps env) of
        Err Conc_Panic \<Rightarrow> Err Env_Panic
      | Err (Conc_Fail f) \<Rightarrow>
          done (report_default\<lparr>rep_note := Some (Note_Also_Fails f), rep_verdict := Conc_Unsafe\<rparr>)
      | Ok run \<Rightarrow>
          if run_inconclusive run then
            done (report_default\<lparr>rep_inconclusive := True, rep_note := Some Note_Inconclusive,
              rep_verdict := Conc_Inconclusive\<rparr>)
          else if run_no_exit run then
            done (report_default\<lparr>rep_no_exit := True, rep_note := Some Note_No_Exit, rep_verdict := Conc_Unsafe\<rparr>)
          else done (report_default\<lparr>rep_note := Some Note_Executes, rep_verdict := Conc_Safe\<rparr>))"

definition accept_with_coverage ::
  "verifier_env \<Rightarrow> u32 list \<Rightarrow> (u32 \<Rightarrow> verifier_state list) \<Rightarrow> verify_result" where
  "accept_with_coverage env heads an =
     (let done = (\<lambda>rep. Ok (Verdict_Safe, env\<lparr>ve_report := Some rep\<rparr>)) in
      case run_concrete_with_maps (prog_insns (ve_prog env)) heads (concrete_limits_for (ve_type env)) (ve_maps env) of
        Err Conc_Panic \<Rightarrow> Err Env_Panic
      | Err (Conc_Fail f) \<Rightarrow> done (report_default\<lparr>rep_failure := Some f, rep_verdict := Conc_Unsafe\<rparr>)
      | Ok run \<Rightarrow>
          let violations = check_coverage an run in
          done (report_default\<lparr>rep_inconclusive := run_inconclusive run, rep_no_exit := run_no_exit run,
            rep_violations := violations,
            rep_verdict := (if run_inconclusive run then Conc_Inconclusive
              else if violations \<noteq> [] \<or> run_no_exit run then Conc_Unsafe else Conc_Safe)\<rparr>))"

text \<open>One pass: a panic ends the call, a failure is rejected, a result goes on to the next pass.\<close>

definition staged ::
  "('e \<Rightarrow> verify_failure option) \<Rightarrow> ('e, 'a) res \<Rightarrow> (verify_failure \<Rightarrow> verify_result) \<Rightarrow> ('a \<Rightarrow> verify_result) \<Rightarrow>
   verify_result" where
  "staged failure r rejected go =
     (case r of
        Ok x \<Rightarrow> go x
      | Err e \<Rightarrow> (case failure e of None \<Rightarrow> Err Env_Panic | Some f \<Rightarrow> rejected f))"

fun cfg_failure :: "cfg_error \<Rightarrow> verify_failure option" where
  "cfg_failure (Cfg_Fail f) = Some (VF_Cfg f)"
| "cfg_failure Cfg_Panic = None"

fun mini_failure :: "mini_error \<Rightarrow> verify_failure option" where
  "mini_failure (Mini_Exec (Exec_Fail f)) = Some (VF_Exec f)"
| "mini_failure (Mini_Exec Exec_Panic) = None"
| "mini_failure (Mini_Fail f) = Some (VF_Mini f)"

text \<open>The recorded states as the hash table yields them: \<open>order\<close> is the order of its keys.\<close>

definition state_table :: "u32 list \<Rightarrow> (u32 \<Rightarrow> verifier_state list) \<Rightarrow> (u32 \<times> verifier_state list) list" where
  "state_table order an = map (\<lambda>pc. (pc, an pc)) (filter (\<lambda>pc. an pc \<noteq> []) order)"

definition verify_env :: "u32 list \<Rightarrow> verifier_env \<Rightarrow> verify_result" where
  "verify_env order env =
     (let env = env\<lparr>ve_report := None\<rparr>; insns = prog_insns (ve_prog env) in
      case prog_decode_error (ve_prog env) of
        Some f \<Rightarrow> Ok (Verdict_Unsafe f, env)
      | None \<Rightarrow>
          staged cfg_failure (add_subprog insns) (reject_with_cross_check env []) (\<lambda>sp.
          let env = env\<lparr>ve_prog := (ve_prog env)\<lparr>prog_subprogs := sp\<rparr>\<rparr> in
          staged cfg_failure (check_combined_stack_depth insns sp) (reject_with_cross_check env []) (\<lambda>_.
          staged cfg_failure (check_cfg insns sp) (reject_with_cross_check env []) (\<lambda>heads.
          staged mini_failure (verify_mini_core insns heads (default_limits\<lparr>lim_prog_type := ve_type env\<rparr>))
            (reject_with_cross_check env heads) (\<lambda>(n, an).
          staged cfg_failure (check_combined_stack_depth_with_states insns sp (state_table order an))
            (reject_with_cross_check env heads) (\<lambda>_.
          accept_with_coverage env heads an))))))"

section \<open>What the passes guarantee each other\<close>

lemma staged_Ok: "staged failure r rejected go = Ok y \<longleftrightarrow>
    (\<exists>x. r = Ok x \<and> go x = Ok y) \<or> (\<exists>e f. r = Err e \<and> failure e = Some f \<and> rejected f = Ok y)"
  by (cases r) (auto simp: staged_def split: option.splits)

lemma reject_verdict: "reject_with_cross_check env heads f = Ok (v, env') \<Longrightarrow> v = Verdict_Unsafe f"
  by (auto simp: reject_with_cross_check_def Let_def split: sum.split_asm concrete_error.split_asm if_split_asm)

text \<open>An accepted program passed every stage.\<close>

lemma verify_env_Safe:
  assumes "verify_env order env = Ok (Verdict_Safe, env')"
  obtains sp heads n an env1 where "add_subprog (prog_insns (ve_prog env)) = Ok sp"
    "check_combined_stack_depth (prog_insns (ve_prog env)) sp = Ok ()"
    "check_cfg (prog_insns (ve_prog env)) sp = Ok heads"
    "verify_mini_core (prog_insns (ve_prog env)) heads (default_limits\<lparr>lim_prog_type := ve_type env\<rparr>) = Ok (n, an)"
    "accept_with_coverage env1 heads an = Ok (Verdict_Safe, env')" "prog_insns (ve_prog env1) = prog_insns (ve_prog env)"
    "ve_type env1 = ve_type env" "ve_maps env1 = ve_maps env"
  using assms
  by (fastforce simp: verify_env_def Let_def staged_Ok split: option.split_asm dest!: reject_verdict)

text \<open>The control-flow pass makes the liveness analysis safe: every return site lies in the program.\<close>

lemma check_cfg_static_inside:
  assumes "check_cfg insns sp = Ok heads" "wf_subprogs insns sp"
  shows "static_inside insns"
proof -
  have "insns \<noteq> []" "check_ends insns sp = Ok ()" using assms(1) by (auto simp: check_cfg_def rbind_Ok_iff split: if_splits)
  then have ends: "ends_control (last insns)"
    using check_ends_last assms(2) by (simp add: wf_subprogs_def)
  have site: "s < length insns" if s: "s \<in> set (return_sites start insns)" for s start
  proof -
    obtain pc off where "pc < length insns" "insns ! pc = CallSub off" "s = Suc pc"
      using s by (auto simp: return_sites_def in_set_enumerate_eq split: bpf_insn.split_asm if_split_asm)
    moreover have "Suc pc \<noteq> length insns"
      using calculation ends by (cases insns rule: rev_cases) auto
    ultimately show ?thesis by simp
  qed
  have inside: "s \<in> set (next_insn (length insns) i) \<Longrightarrow> s < length insns"
    "s \<in> set (in_program (length insns) t) \<Longrightarrow> s < length insns" for s i t
    by (auto simp: next_insn_def in_program_def split: if_split_asm)
  have "s < length insns" if "s \<in> set (static_successors i insns)" for s i
    using that
    by (auto simp: static_successors_def Let_def dest: site inside split: if_split_asm bpf_insn.split_asm option.split_asm)
  then show ?thesis by (simp add: static_inside_def list_all_iff)
qed

section \<open>Results\<close>


definition ahead_program :: "bpf_insn list" where
  "ahead_program = [MovImm 6 1, MovReg 0 6, Exit]"


text \<open>
  C1: when the pipeline calls a program safe, its exploration pruned no arrival and its paths stay in the fragment
  of the simulation, the report of the interpreter has no failure and no coverage violation: it is unsafe only for a
  program that never reaches its exit.
\<close>

theorem verified_program_is_clean:
  assumes safe: "verify_env order env = Ok (Verdict_Safe, env')" and insns: "insns = prog_insns (ve_prog env)"
    and unpruned: "\<forall>sp heads final. add_subprog insns = Ok sp \<and> check_cfg insns sp = Ok heads \<and>
      mini_explore insns heads (default_limits\<lparr>lim_prog_type := ve_type env\<rparr>) = Ok final \<longrightarrow> mini_hits final = 0"
    and fragment: "\<forall>pc s. path_reach insns (ve_type env) pc s \<and> unat pc < length insns \<longrightarrow> insn_sound pc s (insns ! unat pc)"
  shows "\<exists>rep. ve_report env' = Some rep \<and> rep_failure rep = None \<and> rep_violations rep = [] \<and>
    (rep_verdict rep = Conc_Unsafe \<longrightarrow> rep_no_exit rep)"
proof -
  obtain sp heads n an env1 where ok: "add_subprog insns = Ok sp" "check_cfg insns sp = Ok heads"
    "verify_mini_core insns heads (default_limits\<lparr>lim_prog_type := ve_type env\<rparr>) = Ok (n, an)"
    and acc: "accept_with_coverage env1 heads an = Ok (Verdict_Safe, env')"
    and same: "prog_insns (ve_prog env1) = insns" "ve_type env1 = ve_type env" "ve_maps env1 = ve_maps env"
    unfolding insns by (rule verify_env_Safe [OF safe])
  obtain final where final: "mini_explore insns heads (default_limits\<lparr>lim_prog_type := ve_type env\<rparr>) = Ok final"
    "an = analyzed final"
    using ok(3) by (auto simp: verify_mini_core_def rbind_Ok_iff)
  have "mini_hits final = 0" using unpruned ok(1,2) final(1) by blast
  from accepted_runs [OF final(1) this, of "concrete_limits_for (ve_type env)" heads "ve_maps env"] fragment
  obtain run where "run_concrete_with_maps insns heads (concrete_limits_for (ve_type env)) (ve_maps env) = Ok run"
    "check_coverage an run = []"
    by (auto simp: final(2) concrete_limits_for_def)
  then show ?thesis
    using acc by (auto simp: accept_with_coverage_def same Let_def report_default_def)
qed

definition coin_env :: verifier_env where
  "coin_env =
     \<lparr>ve_prog = \<lparr>prog_raw = [], prog_insns = coin_program, prog_subprogs = [], prog_cnt = 6, prog_decode_error = None\<rparr>,
      ve_report = None, ve_maps = Map.empty, ve_type = SocketFilter\<rparr>"

lemma coin_passes:
  "add_subprog coin_program = Ok [0, 4]" "check_combined_stack_depth coin_program [0, 4] = Ok ()"
  "check_cfg coin_program [0, 4] = Ok []"
  by code_simp+

lemma coin_depths: "check_combined_stack_depth_with_states coin_program [0, 4] (state_table order an) = Ok ()"
proof -
  have none: "(if unat pc < length coin_program then stack_access (coin_program ! unat pc) else None) = None" for pc
  proof -
    have "list_all (\<lambda>i. stack_access i = None) coin_program" by code_simp
    then show ?thesis by (simp add: list_all_length)
  qed
  have "depth_of_table coin_program [0, 4] table depth = Ok depth" for table depth
    by (induction table arbitrary: depth) (auto simp: none)
  then show ?thesis
    using coin_passes(2) by (auto simp: check_combined_stack_depth_with_states_def check_combined_stack_depth_def rbind_Ok_iff)
qed

theorem verified_program_is_clean_witness:
  "\<exists>env' rep. verify_env [0, 1, 2] coin_env = Ok (Verdict_Safe, env') \<and> ve_report env' = Some rep \<and> rep_violations rep = []"
proof -
  have explored: "\<exists>final. mini_explore coin_program [] (default_limits\<lparr>lim_prog_type := SocketFilter\<rparr>) = Ok final \<and> mini_hits final = 0"
  proof (rule early_explore)
    show "static_inside coin_program" by code_simp
  qed (use coin_search in \<open>simp_all add: default_limits_def\<close>)
  then obtain final where final: "mini_explore coin_program [] (default_limits\<lparr>lim_prog_type := SocketFilter\<rparr>) = Ok final"
    "mini_hits final = 0" by blast
  have ok: "\<forall>pc s. path_reach coin_program SocketFilter pc s \<and> unat pc < length coin_program \<longrightarrow> insn_sound pc s (coin_program ! unat pc)"
    by (rule coin_sound)
  obtain run where run: "run_concrete_with_maps coin_program [] (concrete_limits_for SocketFilter) Map.empty = Ok run"
    using accepted_runs [OF final, of "concrete_limits_for SocketFilter" "[]" Map.empty] ok
    by (auto simp: default_limits_def concrete_limits_for_def)
  have "\<exists>env'. verify_env [0, 1, 2] coin_env = Ok (Verdict_Safe, env')"
    using coin_passes coin_depths final(1) run
    by (simp add: verify_env_def Let_def coin_env_def staged_def verify_mini_core_def accept_with_coverage_def)
  then obtain env' where safe: "verify_env [0, 1, 2] coin_env = Ok (Verdict_Safe, env')" by blast
  have insns: "coin_program = prog_insns (ve_prog coin_env)" by (simp add: coin_env_def)
  from verified_program_is_clean [OF safe insns] show ?thesis
    using safe coin_passes final ok by (auto simp: coin_env_def)
qed

text \<open>A call as the last instruction, of a subprogram with an exit: the control-flow pass rejects it.\<close>

definition dangling_call :: "u8 list" where
  "dangling_call =
     [0xb7, 0, 0, 0, 0, 0, 0, 0,  0x95, 0, 0, 0, 0, 0, 0, 0,  0x85, 0x10, 0, 0, 0xfe, 0xff, 0xff, 0xff]"

text \<open>
  C37: a program whose last instruction calls a subprogram that has an exit is loaded and rejected by the
  control-flow pass, but the cross-check of the rejected program panics: the liveness analysis indexes the return
  site past the end.
\<close>

theorem cross_check_panics:
  "\<exists>env'. load_raw dangling_call env = Ok (3, env') \<and> verify_env order env' = Err Env_Panic"
proof -
  have insns: "decode_and_resolve maps dangling_call = Ok [MovImm 0 0, Exit, CallSub (-2)]" for maps
  proof -
    have "decode_program dangling_call = Ok [MovImm 0 0, Exit, CallSub (-2)]" by code_simp
    then show ?thesis by (simp add: decode_and_resolve_def map_err_def)
  qed
  have passes: "add_subprog [MovImm 0 0, Exit, CallSub (-2)] = Ok [0, 1]"
    "check_combined_stack_depth [MovImm 0 0, Exit, CallSub (-2)] [0, 1] = Ok ()"
    "check_cfg [MovImm 0 0, Exit, CallSub (-2)] [0, 1] = Err (Cfg_Fail (Failure 0 (No_Terminator 0 1)))"
    "static_inside [MovImm 0 0, Exit, CallSub (-2)] = False"
    by code_simp+
  have "length dangling_call = 24" "dangling_call \<noteq> []" by (simp_all add: dangling_call_def)
  then show ?thesis
    using passes
    by (simp add: load_raw_def insns Let_def verify_env_def staged_def reject_with_cross_check_def
        run_concrete_with_maps_def live_analyze_def)
qed

end
