(* ===== verification/State_Eq_Props.thy ===== *)
theory State_Eq_Props
  imports Coverage
begin

text \<open>
  What the comparison of states promises: a register it calls safe covers the values of the other, states that differ
  only in unmarked scalars and in where their frames return to are equal, and a program on which the latter merges two
  calls of one subprogram although only one of them returns to safe code.
\<close>

section \<open>Registers\<close>

text \<open>A register read with its full precision.\<close>

definition sharpen :: "reg_state \<Rightarrow> reg_state" where
  "sharpen r = (case r of Scalar b \<Rightarrow> Scalar (b\<lparr>precise := True\<rparr>) | _ \<Rightarrow> r)"

lemma when_true_Some [simp]: "when_true b r = Some m \<longleftrightarrow> b \<and> r = Some m"
  by (simp add: when_true_def)

lemma tnum_subsumes_contains: "tnum_subsumes a b \<Longrightarrow> tnum_contains b x \<Longrightarrow> tnum_contains a x"
proof -
  assume "tnum_subsumes a b" "tnum_contains b x"
  moreover have "bit (tmask b) i \<Longrightarrow> bit (tmask a) i" "\<not> bit (tmask a) i \<Longrightarrow> bit (tvalue b) i = bit (tvalue a) i"
    if "i < 64" for i
    using calculation(1) that by (auto simp: tnum_subsumes_def bit_eq_iff bit_simps)
  ultimately show "tnum_contains a x" by (auto simp: tnum_contains_iff)
qed

lemma tnum_subsumes_refl [simp]: "tnum_subsumes a a"
  by (simp add: tnum_subsumes_def)

lemma scalar_safe_covers:
  assumes "scalar_safe a b m = Some m'" "scalar_covers (b\<lparr>precise := True\<rparr>) x"
  shows "scalar_covers a x"
proof (cases "precise a")
  case True
  then have "scalar_range_within a b" using assms(1) by (simp add: scalar_safe_def)
  then show ?thesis
    using assms(2) tnum_subsumes_contains
    by (auto simp: scalar_covers_def scalar_range_within_def intro: signed.order_trans order_trans)
qed (simp add: scalar_covers_def)

lemma regsafe_values:
  assumes "regsafe old new NotExact m = Some m'" "old \<noteq> Uninit" "abstract_covers (sharpen new) v"
  shows "abstract_covers old v"
proof -
  have r: "regsafe_kinds old new m = Some m'" using assms(1,2) by (simp add: regsafe_def)
  show ?thesis
  proof (cases old)
    case (Scalar a)
    then obtain b where "new = Scalar b" "scalar_safe a b m = Some m'"
      using r by (auto simp: regsafe_kinds_def split: reg_state.split_asm)
    then show ?thesis
      using assms(3) Scalar scalar_safe_covers by (auto simp: abstract_covers_def sharpen_def split: concrete_value.split_asm)
  next
    case (PtrToMapValue mn mx al vs i)
    then obtain mn' mx' al' vs' i' where "new = PtrToMapValue mn' mx' al' vs' i'"
      "vs = vs' \<and> mn \<le>s mn' \<and> mx' \<le>s mx \<and> (al = al' \<or> al = ALIGN_UNKNOWN)"
      using r by (auto simp: regsafe_kinds_def split: reg_state.split_asm)
    then show ?thesis
      using assms(3) PtrToMapValue
      by (auto simp: abstract_covers_def sharpen_def map_value_ptr_covers_def word_sle_eq split: concrete_value.split_asm option.split_asm)
  qed (use r assms(3) in \<open>auto simp: regsafe_kinds_def abstract_covers_def sharpen_def split: reg_state.split_asm\<close>)
qed

section \<open>Twins\<close>

definition twin_reg :: "reg_state \<Rightarrow> reg_state \<Rightarrow> bool" where
  "twin_reg a b \<longleftrightarrow>
     a = b \<or> (case a of Scalar x \<Rightarrow> (case b of Scalar y \<Rightarrow> \<not> precise x | _ \<Rightarrow> False) | _ \<Rightarrow> False)"

definition twin_frame :: "frame_state option \<Rightarrow> frame_state option \<Rightarrow> bool" where
  "twin_frame f g =
     (case f of
        None \<Rightarrow> g = None
      | Some a \<Rightarrow> (case g of None \<Rightarrow> False | Some b \<Rightarrow> list_all2 twin_reg (fr_regs a) (fr_regs b) \<and> fr_stack a = fr_stack b))"

text \<open>The return addresses of the states and of their saved frames are not compared.\<close>

definition twin_states :: "verifier_state \<Rightarrow> verifier_state \<Rightarrow> bool" where
  "twin_states a b \<longleftrightarrow>
     curframe a = curframe b \<and> refs_cnt a = refs_cnt b \<and> refs a = refs b \<and> list_all2 twin_reg (regs a) (regs b) \<and>
     stack a = stack b \<and> list_all2 twin_frame (saved a) (saved b)"

text \<open>An identifier map that pairs every identifier with itself.\<close>

definition diagonal :: "id_map \<Rightarrow> bool" where
  "diagonal m \<longleftrightarrow> (\<forall>(a, b) \<in> set (id_pairs m). a = b)"

abbreviation passes :: "id_map option \<Rightarrow> bool" where
  "passes r \<equiv> (\<exists>m. r = Some m \<and> diagonal m)"

lemma lookup_diagonal: "\<forall>(a, b) \<in> set ps. a = b \<Longrightarrow> lookup_ids ps i i = None \<or> lookup_ids ps i i = Some True"
  by (induction ps) (auto split: if_splits)

lemma check_ids_same: "diagonal m \<Longrightarrow> passes (check_ids i i m)"
  using lookup_diagonal [of "id_pairs m" i] by (auto simp: check_ids_def diagonal_def)

lemma check_scalar_ids_same: "diagonal m \<Longrightarrow> passes (check_scalar_ids i i m)"
  using check_ids_same by (auto simp: check_scalar_ids_def)

lemma bind_passes: "passes r \<Longrightarrow> (\<And>m. diagonal m \<Longrightarrow> passes (f m)) \<Longrightarrow> passes (Option.bind r f)"
  by (cases r) auto

lemma scalar_safe_same: "diagonal m \<Longrightarrow> passes (scalar_safe a a m)"
  using check_scalar_ids_same by (auto simp: scalar_safe_def when_true_def scalar_range_within_def)

lemma regsafe_same:
  assumes "diagonal m"
  shows "passes (regsafe r r NotExact m)"
proof -
  note ids = check_ids_same bind_passes [OF check_ids_same check_ids_same]
  show ?thesis
    using assms ids by (cases r) (auto simp: regsafe_def regsafe_kinds_def when_true_def scalar_safe_same)
qed

lemma regsafe_twin: "diagonal m \<Longrightarrow> twin_reg a b \<Longrightarrow> passes (regsafe a b NotExact m)"
  unfolding twin_reg_def
proof (elim disjE)
  assume "diagonal m" "case a of Scalar x \<Rightarrow> (case b of Scalar y \<Rightarrow> \<not> precise x | _ \<Rightarrow> False) | _ \<Rightarrow> False"
  then show ?thesis by (auto simp: regsafe_def regsafe_kinds_def scalar_safe_def split: reg_state.split_asm)
qed (simp add: regsafe_same)

lemma all_regs_twins: "list_all2 twin_reg xs ys \<Longrightarrow> diagonal m \<Longrightarrow> passes (all_regs NotExact (zip xs ys) m)"
proof (induction xs ys arbitrary: m rule: list_all2_induct)
  case (Cons x xs y ys)
  then show ?case using bind_passes [OF regsafe_twin] by simp
qed simp

lemma fake_pair_same: "fake_pair st st spi im = None \<or> (\<exists>x. fake_pair st st spi im = Some (x, x))"
  by (auto simp: fake_pair_def split: option.split)

lemma slot_end_same: "diagonal m \<Longrightarrow> passes (slot_end st st NotExact spi b m)"
  using regsafe_same by (auto simp: slot_end_def split: option.split)

lemma stacksafe_same: "diagonal m \<Longrightarrow> passes (stacksafe_from i st st NotExact m)"
proof (induction "STACK_SIZE - i" arbitrary: i m rule: less_induct)
  case less
  let ?im = "i mod 8" and ?spi = "i div 8"
  show ?case
  proof (cases "STACK_SIZE \<le> i")
    case True
    then show ?thesis using less.prems by (subst stacksafe_from.simps) simp
  next
    case False
    have go: "passes (stacksafe_from j st st NotExact m')" if "i < j" "diagonal m'" for j m'
      using less.hyps [of j m'] that False by simp
    consider "fake_pair st st ?spi ?im = None" | x where "fake_pair st st ?spi ?im = Some (x, x)"
      using fake_pair_same [of st ?spi ?im] by auto
    then show ?thesis
    proof cases
      case 1
      obtain m' where "slot_end st st NotExact ?spi (sbytes st ! i) m = Some m'" "diagonal m'"
        using slot_end_same [OF less.prems] by blast
      then show ?thesis
        using 1 False go [of "Suc i"] less.prems by (subst stacksafe_from.simps) (simp add: Let_def)
    next
      case 2
      obtain m' where "regsafe x x NotExact m = Some m'" "diagonal m'" using regsafe_same [OF less.prems] by blast
      then show ?thesis
        using 2 False go less.prems by (subst stacksafe_from.simps) (simp add: Let_def)
    qed
  qed
qed

lemma all_ids_same: "diagonal m \<Longrightarrow> passes (all_ids (take n (zip xs xs)) m)"
proof (induction xs arbitrary: n m)
  case (Cons x xs)
  then show ?case using bind_passes [OF check_ids_same] by (cases n) simp_all
qed simp

lemma live_only_zip:
  assumes "list_all2 P xs ys"
  shows "\<exists>as bs. live_only live (zip xs ys) = zip as bs \<and> list_all2 P as bs"
proof -
  have "\<exists>as bs. map snd (filter (\<lambda>(r, x). bit live r) (enumerate n (zip xs ys))) = zip as bs \<and> list_all2 P as bs" for n
    using assms
  proof (induction xs ys arbitrary: n rule: list_all2_induct)
    case (Cons x xs y ys)
    obtain as bs where *: "map snd (filter (\<lambda>(r, x). bit live r) (enumerate (Suc n) (zip xs ys))) = zip as bs"
      "list_all2 P as bs" using Cons.IH by blast
    show ?case
    proof (cases "bit live n")
      case True
      then show ?thesis using * Cons.hyps(1) by (intro exI [of _ "x # as"] exI [of _ "y # bs"]) simp
    next
      case False
      then show ?thesis using * by auto
    qed
  qed auto
  then show ?thesis by (simp add: live_only_def)
qed

lemma all_frames_twins:
  "list_all2 twin_frame fs gs \<Longrightarrow> diagonal m \<Longrightarrow> passes (all_frames NotExact (zip fs gs) m)"
proof (induction fs gs arbitrary: m rule: list_all2_induct)
  case (Cons f fs g gs)
  show ?case
  proof (cases f)
    case None
    then show ?thesis using Cons by (simp add: twin_frame_def)
  next
    case (Some a)
    then obtain b where b: "g = Some b" "list_all2 twin_reg (fr_regs a) (fr_regs b)" "fr_stack a = fr_stack b"
      using Cons.hyps(1) by (auto simp: twin_frame_def split: option.split_asm)
    show ?thesis
      using Some b Cons.prems Cons.IH
      by (auto simp: stacksafe_def intro!: bind_passes all_regs_twins stacksafe_same)
  qed
qed simp

lemma states_equal_twins:
  assumes "twin_states a b"
  shows "states_equal a b NotExact live"
proof -
  obtain as bs where regs: "live_only live (zip (regs a) (regs b)) = zip as bs" "list_all2 twin_reg as bs"
    using live_only_zip [of twin_reg "regs a" "regs b" live] assms by (auto simp: twin_states_def)
  have d: "diagonal id_map_new" by (simp add: diagonal_def id_map_new_def)
  have "passes (Option.bind (all_ids (take (unat (refs_cnt a)) (zip (refs a) (refs b))) id_map_new) (\<lambda>m.
     Option.bind (all_regs NotExact (live_only live (zip (regs a) (regs b))) m) (\<lambda>m.
     Option.bind (stacksafe (stack a) (stack b) NotExact m) (all_frames NotExact (zip (saved a) (saved b))))))"
    using assms d unfolding regs(1)
    by (auto simp: twin_states_def stacksafe_def
        intro!: bind_passes all_ids_same all_regs_twins [OF regs(2)] stacksafe_same all_frames_twins)
  then show ?thesis using assms by (auto simp: states_equal_def twin_states_def)
qed

section \<open>Two calls of one subprogram\<close>

text \<open>The path of a program that takes the given successor at each step.\<close>

fun follow :: "bpf_insn list \<Rightarrow> nat list \<Rightarrow> u32 \<times> verifier_state \<Rightarrow> (u32 \<times> verifier_state) option" where
  "follow prog [] q = Some q"
| "follow prog (k # ks) (pc, s) =
     (if unat pc < length prog then
        (case mini_expand pc (prog ! unat pc) s of
           Ok succs \<Rightarrow> if k < length succs then follow prog ks (succs ! k) else None
         | Err e \<Rightarrow> None)
      else None)"

lemma follow_reach: "follow prog ks (pc, s) = Some (pc', s') \<Longrightarrow> path_reach prog t pc s \<Longrightarrow> path_reach prog t pc' s'"
proof (induction ks arbitrary: pc s)
  case (Cons k ks)
  then obtain succs where succs: "unat pc < length prog" "mini_expand pc (prog ! unat pc) s = Ok succs" "k < length succs"
    "follow prog ks (succs ! k) = Some (pc', s')"
    by (auto split: if_split_asm sum.split_asm)
  have "(fst (succs ! k), snd (succs ! k)) \<in> set succs" using succs(3) by simp
  from pr_step [OF Cons.prems(2) succs(1,2) this] show ?case
    using Cons.IH [of "fst (succs ! k)" "snd (succs ! k)"] succs(4) by simp
qed simp

text \<open>
  The subprogram at 8 is called at 2, after which the return reads an unset register, and at 5, after which it does not.
\<close>

definition merging_calls :: "bpf_insn list" where
  "merging_calls =
     [Call 7, CondImm Cond_Eq 0 0 3, CallSub 5, MovReg 0 9, Exit, CallSub 2, MovImm 0 0, Exit, MovImm 0 1, Exit]"

definition at_callee :: "nat \<Rightarrow> (u32 \<times> verifier_state) option" where
  "at_callee side = follow merging_calls [0, side, 0] (0, initial_with SocketFilter)"

definition broken_return :: "(u32 \<times> verifier_state) option" where
  "broken_return = follow merging_calls [0, 1, 0, 0, 0] (0, initial_with SocketFilter)"

lemma merging_calls_merge:
  "(case (at_callee 0, at_callee 1) of
      (Some (p, a), Some (q, b)) \<Rightarrow> p = 8 \<and> q = 8 \<and> ret_pc a = 6 \<and> ret_pc b = 3 \<and> twin_states a b
    | _ \<Rightarrow> False)"
  by code_simp

lemma merging_calls_fail:
  "(case broken_return of
      Some (p, a) \<Rightarrow> p = 3 \<and> (case mini_expand 3 (merging_calls ! 3) a of Err e \<Rightarrow> True | Ok x \<Rightarrow> False)
    | None \<Rightarrow> False)"
  by code_simp

text \<open>
  C11: two arrivals at one subprogram from different calls are equal for pruning although they return to different
  instructions, one of which the verifier rejects on the path.
\<close>

theorem pruning_merges_returns:
  "\<exists>s1 s2 s3. path_reach merging_calls SocketFilter 8 s1 \<and> path_reach merging_calls SocketFilter 8 s2 \<and>
     (\<forall>live. states_equal s1 s2 NotExact live) \<and> ret_pc s1 = 6 \<and> ret_pc s2 = 3 \<and>
     path_reach merging_calls SocketFilter 3 s3 \<and> (\<exists>e. mini_expand 3 (merging_calls ! 3) s3 = Err e)"
proof -
  note reach = follow_reach [OF _ pr_start, of merging_calls]
  obtain q1 q2 where q: "at_callee 0 = Some q1" "at_callee 1 = Some q2"
    using merging_calls_merge by (cases "at_callee 0"; cases "at_callee 1") simp_all
  obtain p1 s1 p2 s2 where p: "q1 = (p1, s1)" "q2 = (p2, s2)" by (cases q1; cases q2)
  have s: "at_callee 0 = Some (8, s1)" "at_callee 1 = Some (8, s2)" "ret_pc s1 = 6" "ret_pc s2 = 3" "twin_states s1 s2"
    using merging_calls_merge unfolding q p by simp_all
  obtain s3 e where s3: "broken_return = Some (3, s3)"
    "mini_expand 3 (merging_calls ! 3) s3 = Err e"
  proof -
    obtain q where q: "broken_return = Some q" using merging_calls_fail by (cases broken_return) simp_all
    obtain p s3 where p: "q = (p, s3)" by (cases q)
    show thesis
      using that [of s3] merging_calls_fail unfolding q p by (cases "mini_expand 3 (merging_calls ! 3) s3") simp_all
  qed
  have "path_reach merging_calls SocketFilter 8 s1" "path_reach merging_calls SocketFilter 8 s2"
    using reach s(1,2) by (simp_all add: at_callee_def del: follow.simps)
  moreover have "path_reach merging_calls SocketFilter 3 s3"
    using reach s3(1) by (simp add: broken_return_def del: follow.simps)
  ultimately show ?thesis using s(3-5) s3(2) states_equal_twins by blast
qed



end
