(* ===== verification/Spec2Isabelle.thy ===== *)
theory Spec2Isabelle
  imports Call_Chain Fixup Exec_Findings Pipeline State_Eq_Props
begin

text \<open>
  \<^bold>\<open>rand-verifier: a model of an eBPF verifier and of the interpreter that checks it.\<close>

  The repository holds a verifier for eBPF programs (\<open>src/src\<close>). A program is decoded from bytes
  (\<open>insn.rs\<close>), its control flow is checked (\<open>cfg.rs\<close>), and an abstract interpreter follows its paths
  (\<open>exec.rs\<close>, on the states of \<open>state.rs\<close>), keeping for every register a type and, for scalars, two
  64-bit ranges, two 32-bit ranges and a tracked number (\<open>tnum.rs\<close>). A concrete interpreter
  (\<open>concrete.rs\<close>) runs the same program on values, to test that the abstract states cover them. Around
  these stand a fuzzer (\<open>fuzz\<close>), which encodes programs and reduces failing ones, and drivers.

  \<^bold>\<open>Theories.\<close> Every theory names the source it models in its first text block; definitions carry the
  names of the sources.
    \<^item> \<open>Prelude\<close>: results with errors (\<open>res\<close>, with \<open>Ok\<close> and \<open>Err\<close>, sequenced by \<open>rbind\<close>), machine integers
      at their width, checked and saturating arithmetic, ranges of words.
    \<^item> \<open>Tnum\<close> (\<open>tnum.rs\<close>): tracked numbers. \<open>tnum_contains\<close> is what a number stands for; every operation
      keeps the invariant (no bit both known and unknown) and covers the concrete results.
    \<^item> \<open>Scalar\<close> (\<open>ScalarBounds\<close> of \<open>state.rs\<close>): the five views of a scalar and \<open>synced\<close>, which reconciles them.
    \<^item> \<open>Alu\<close>, \<open>Branch\<close> (\<open>exec.rs\<close>): transfer functions of the ALU instructions in both widths, refinement
      of compares, static verdicts. The two compare families are one locale (\<open>wrap_int\<close>) interpreted on
      signed and on unsigned words.
    \<^item> \<open>Insn\<close>, \<open>Encode\<close>, \<open>Fixup\<close> (\<open>insn.rs\<close>, \<open>fuzz/insn_lib.rs\<close>, \<open>fuzz/reduce/fixup.rs\<close>): the instruction
      set, the decoder with all its rejections, the encoder, the round trip, and the deletion of slots
      with its re-basing of jumps.
    \<^item> \<open>Prog_Ctx\<close>, \<open>Helper\<close> (\<open>prog_type.rs\<close>, \<open>ctx.rs\<close>, \<open>helper.rs\<close>): program types, context layouts, helper
      and kfunc signatures, and the messages of the executor.
    \<^item> \<open>Reg_State\<close> (\<open>state.rs\<close>): the verifier state, its frames, and the discipline of calls and returns as
      a locale over a labelled step relation.
    \<^item> \<open>Cfg\<close>, \<open>Cfg_Search\<close>, \<open>Call_Chain\<close> (\<open>cfg.rs\<close>): subprograms, the depth-first search over the control
      flow, its invariant, and the bounds on call chains and stack depth.
    \<^item> \<open>Memory\<close>, \<open>Refs\<close>, \<open>Exec\<close>, \<open>Branch_Exec\<close> (\<open>exec.rs\<close>): accesses to the stack, to maps and buffers;
      references, dynptrs, helper and kfunc calls; one straight-line instruction; the successors of an
      instruction.
    \<^item> \<open>Exec_Wf\<close>, \<open>Call_Wf\<close>, \<open>Step_Wf\<close>, \<open>Panic_Free\<close>: the invariant \<open>exec_wf\<close> of the executor, its preservation
      by every instruction, and the absence of panics on reachable states. \<open>explored\<close> is the inductive
      set of states the executor can reach.
    \<^item> \<open>Memory_Props\<close>, \<open>Exec_Findings\<close>: what memory accesses and references promise, and paths on which
      the executor accepts what it means to reject.
    \<^item> \<open>Concrete\<close>, \<open>Concrete_Step\<close> (\<open>concrete.rs\<close>): the concrete interpreter, one instruction at a time.
    \<^item> \<open>Expand\<close> (the \<open>exit\<close> cases of the worklists of \<open>mini.rs\<close> and \<open>concrete.rs\<close>), \<open>Liveness\<close> (\<open>liveness.rs\<close>, with the
      proof that the fixed point is reached and is exact), \<open>State_Eq\<close> (\<open>state_eq.rs\<close>), \<open>Precision\<close> and
      \<open>Mini\<close> (\<open>mini.rs\<close>: checkpoints, precision backtracking, the worklist with pruning and budgets),
      \<open>Concrete_Run\<close> (the worklist of the interpreter).
    \<^item> \<open>Sim_Rel\<close>, \<open>Sim_Values\<close>, \<open>Sim_Stack\<close>, \<open>Sim_Step\<close>, \<open>Sim_Straight\<close>, \<open>Sim_Branch\<close>, \<open>Sim_Flow\<close>: the simulation
      relation \<open>sim\<close> between a verifier state and a concrete state, and the proof that in the fragment
      \<open>insn_sound\<close> an accepted instruction never fails on the concrete side and leads to related successors.
    \<^item> \<open>Mini_Inv\<close>, \<open>Sim_Run\<close>, \<open>Coverage\<close>, \<open>Soundness\<close>: the exploration visits every path when it prunes nothing; the
      runs of both sides are related; related states pass the coverage check of \<open>concrete.rs\<close>; the end-to-end
      theorems.
    \<^item> \<open>Pipeline\<close> (\<open>env.rs\<close>): loading and the pipeline of passes, with the end-to-end theorem about \<open>verify_env\<close>.
      \<open>State_Eq_Props\<close>: what the comparison of states promises, and where it is too generous.

  \<^bold>\<open>The fragment of the simulation.\<close> \<open>insn_sound pc s insn\<close> holds of constants and moves, ALU operations on the
  operands \<open>alu_ok\<close> admits, loads and stores through a stack pointer of known offset, all branches (register
  compares where \<open>refine_ok\<close> holds), helpers without arguments, subprogram calls whose offset fits 16 bits, and exits. It
  leaves out the operand combinations for which the transfer functions lose values (each has a
  counterexample theorem), stack pointers of unknown offset, and atomics, maps, packets, the context, helpers
  with arguments and kfuncs, for which the interpreter has representative values instead of real ones.

  \<^bold>\<open>Conventions.\<close> A failure carries the instruction index and a constructor for its message; a panic of
  the sources (an index out of range, an \<open>unreachable!\<close>, an \<open>expect\<close>) is a value of its own, so that its
  absence is a theorem. Fixed-size arrays are lists whose length is part of the invariant. Integers are
  words of the width the sources use; offsets computed in \<open>i64\<close> from narrower integers are taken in
  \<open>int\<close>, where they cannot overflow. Loops are structural or have a termination proof; the search for a
  fresh reference identifier takes one more candidate than there are references in use, so one of its
  candidates is free. The worklists of \<open>mini.rs\<close> and \<open>concrete.rs\<close> recurse on what is left of their own
  step budget (\<open>max_steps\<close>), so the recursion is the loop of the sources and running out is their error. The parent
  chain of a checkpoint (\<open>cp_chain\<close>) is followed with the size of the pool as fuel: a parent is stored before its
  child. The loop of the liveness analysis is \<open>while\<close>, and its end is proved. A hash map is a function; where the
  sources iterate over one, the order is an argument (\<open>order\<close> of \<open>verify_env\<close>).

  \<^bold>\<open>Not modelled.\<close> The generators, mutators, oracle and drivers of the fuzzer and of the reducer, the queries to an external
  solver (\<open>smt\<close>), the system calls and the parsing of kernel logs (\<open>krun.rs\<close>, \<open>klog.rs\<close>), the trace, the ported
  test specifications and the executables: input and output around the verifier. The formatting of messages,
  reports and traces and the reading of files are left out everywhere.
\<close>

end
